(* ===== verification/Prelude.thy ===== *)
theory Prelude
  imports Main "HOL-Library.Char_ord" "HOL-Library.List_Lexorder"
begin

text \<open>
  Shared vocabulary of the development: the chain of wrapped Go errors, the error-and-state
  monad in which every operation of the program is written, the generic evolution locale by
  which invariants and step relations are lifted from single operations to whole handlers,
  and the locale of keyed rows for the persisted tables.
\<close>

named_theorems monad_simps \<open>unfolding of the monad's combinators\<close>
named_theorems evolve_intros \<open>evolution of composed operations\<close>

section \<open>ASCII case\<close>

text \<open>\<open>strings.ToLower\<close>, and the key matching of \<open>encoding/json\<close>, on ASCII.\<close>

definition lower_char :: "char \<Rightarrow> char" where
  "lower_char c = (if CHR ''A'' \<le> c \<and> c \<le> CHR ''Z'' then char_of (of_char c + 32 :: nat) else c)"

definition to_lower :: "string \<Rightarrow> string" where
  "to_lower s = map lower_char s"

section \<open>Wrapped errors\<close>

text \<open>
  Every error of the program is a named \<open>BaseError\<close> of goutils or of \<open>models/errors.go\<close>
  with an optional core error. Texts and call stacks are left out; \<open>errors.As\<close> walks the chain.
  \<open>DriverError\<close> and \<open>RecordNotFound\<close> are the errors the database layer itself reports,
  \<open>DecodeError\<close> those of \<open>encoding/json\<close>, \<open>ValidatorError\<close> those of the struct validator,
  \<open>RedisError\<close> those of the queue and publish calls.
\<close>

datatype err_kind =
    DriverError | RecordNotFound | DecodeError | ValidatorError | RedisError
  | SQLError | PersistenceError | NotFoundError | ConsistencyError | ValidationError
  | BadInputError | RuntimeError
  | IPCMessageQueueError | TaskPreprocessError | NonRecoverableError | TaskExecutionError
  | TaskExecutorError | TaskReceiverError | TaskSchedulerError | NotifyProducerError
  | NotifyConsumerError | TaskMaintenanceError | TaskClientError | TaskPostprocessError
  | StepPreprocessError | StepExecutionError | WorkflowSchedulerError | WorkflowClientError

datatype goerr = Err err_kind "goerr option"

abbreviation leaf :: "err_kind \<Rightarrow> goerr" where
  "leaf k \<equiv> Err k None"

abbreviation wrapped :: "err_kind \<Rightarrow> goerr \<Rightarrow> goerr" where
  "wrapped k e \<equiv> Err k (Some e)"

fun err_as :: "err_kind \<Rightarrow> goerr \<Rightarrow> bool" where
  "err_as k (Err k' None) = (k = k')"
| "err_as k (Err k' (Some e)) = (k = k' \<or> err_as k e)"

fun err_kind_of :: "goerr \<Rightarrow> err_kind" where
  "err_kind_of (Err k _) = k"

section \<open>The error and state monad\<close>

type_synonym ('w, 'a) m = "'w \<Rightarrow> (goerr + 'a) \<times> 'w"

definition ret :: "'a \<Rightarrow> ('w, 'a) m" where
  [monad_simps]: "ret a w = (Inr a, w)"

definition throw :: "goerr \<Rightarrow> ('w, 'a) m" where
  [monad_simps]: "throw e w = (Inl e, w)"

definition gets :: "('w \<Rightarrow> 'a) \<Rightarrow> ('w, 'a) m" where
  [monad_simps]: "gets f w = (Inr (f w), w)"

definition modify :: "('w \<Rightarrow> 'w) \<Rightarrow> ('w, unit) m" where
  [monad_simps]: "modify f w = (Inr (), f w)"

definition bnd :: "('w, 'a) m \<Rightarrow> ('a \<Rightarrow> ('w, 'b) m) \<Rightarrow> ('w, 'b) m" where
  "bnd p f w = (case p w of (Inl e, w') \<Rightarrow> (Inl e, w') | (Inr a, w') \<Rightarrow> f a w')"

text \<open>\<open>if err != nil \{ return wrap(err) \}\<close>\<close>

definition wrap :: "err_kind \<Rightarrow> ('w, 'a) m \<Rightarrow> ('w, 'a) m" where
  "wrap k p w = (case p w of (Inl e, w') \<Rightarrow> (Inl (wrapped k e), w') | (Inr a, w') \<Rightarrow> (Inr a, w'))"

text \<open>An error that is logged and not returned.\<close>

definition logged :: "('w, 'a) m \<Rightarrow> ('w, unit) m" where
  "logged p w = (Inr (), snd (p w))"

text \<open>Whether a call succeeded, its error being logged.\<close>

definition attempt :: "('w, 'a) m \<Rightarrow> ('w, bool) m" where
  "attempt p w = (case p w of (Inl _, w') \<Rightarrow> (Inr False, w') | (Inr _, w') \<Rightarrow> (Inr True, w'))"

text \<open>A Go \<open>for range\<close> loop whose body may return an error.\<close>

primrec for_each :: "'a list \<Rightarrow> ('a \<Rightarrow> ('w, unit) m) \<Rightarrow> ('w, unit) m" where
  "for_each [] f = ret ()"
| "for_each (x # xs) f = bnd (f x) (\<lambda>_. for_each xs f)"

text \<open>A loop that collects a result for each element.\<close>

primrec collect :: "'a list \<Rightarrow> ('a \<Rightarrow> ('w, 'b) m) \<Rightarrow> ('w, 'b list) m" where
  "collect [] f = ret []"
| "collect (x # xs) f = bnd (f x) (\<lambda>y. bnd (collect xs f) (\<lambda>ys. ret (y # ys)))"

definition do_if :: "bool \<Rightarrow> ('w, unit) m \<Rightarrow> ('w, unit) m" where
  "do_if b p = (if b then p else ret ())"

lemma bnd_Inr [simp]: "p w = (Inr a, w') \<Longrightarrow> bnd p f w = f a w'"
  by (simp add: bnd_def)

lemma bnd_Inl [simp]: "p w = (Inl e, w') \<Longrightarrow> bnd p f w = (Inl e, w')"
  by (simp add: bnd_def)

lemma wrap_Inr [simp]: "p w = (Inr a, w') \<Longrightarrow> wrap k p w = (Inr a, w')"
  by (simp add: wrap_def)

lemma wrap_Inl [simp]: "p w = (Inl e, w') \<Longrightarrow> wrap k p w = (Inl (wrapped k e), w')"
  by (simp add: wrap_def)

lemma wrap_snd: "snd (wrap k p w) = snd (p w)"
  by (simp add: wrap_def split: prod.split sum.split)

lemma logged_apply [simp]: "logged p w = (Inr (), snd (p w))"
  by (simp add: logged_def)

lemma attempt_result:
  "attempt p w = (Inr b, w') \<longleftrightarrow> (if b then \<exists>a. p w = (Inr a, w') else \<exists>e. p w = (Inl e, w'))"
  by (auto simp: attempt_def split: prod.splits sum.splits)

lemma attempt_snd: "snd (attempt p w) = snd (p w)"
  by (simp add: attempt_def split: prod.split sum.split)

lemma do_if_simps [simp]: "do_if True p = p" "do_if False p = ret ()"
  by (simp_all add: do_if_def)

lemma ret_apply [simp]: "ret a w = (Inr a, w)"
  by (simp add: ret_def)

lemma throw_apply [simp]: "throw e w = (Inl e, w)"
  by (simp add: throw_def)

lemma gets_apply [simp]: "gets f w = (Inr (f w), w)"
  by (simp add: gets_def)

lemma modify_apply [simp]: "modify f w = (Inr (), f w)"
  by (simp add: modify_def)

lemma bnd_ret [simp]: "bnd (ret a) f = f a"
  by (rule ext) simp

lemma bnd_throw [simp]: "bnd (throw e) f = throw e"
  by (rule ext) simp

lemma bnd_assoc: "bnd (bnd p f) g = bnd p (\<lambda>a. bnd (f a) g)"
  by (rule ext) (auto simp: bnd_def split: sum.splits prod.splits)

lemma bnd_cases:
  assumes "bnd p f w = (r, w')"
  obtains e where "p w = (Inl e, w')" "r = Inl e" | a w1 where "p w = (Inr a, w1)" "f a w1 = (r, w')"
  using assms by (auto simp: bnd_def split: sum.splits prod.splits)

lemma bnd_result_Inr:
  "bnd p f w = (Inr b, w') \<longleftrightarrow> (\<exists>a w1. p w = (Inr a, w1) \<and> f a w1 = (Inr b, w'))"
  by (auto simp: bnd_def split: sum.splits prod.splits)

lemma bnd_result_Inl:
  "bnd p f w = (Inl e, w') \<longleftrightarrow>
     p w = (Inl e, w') \<or> (\<exists>a w1. p w = (Inr a, w1) \<and> f a w1 = (Inl e, w'))"
  by (auto simp: bnd_def split: sum.splits prod.splits)

lemma wrap_result_Inr: "wrap k p w = (Inr a, w') \<longleftrightarrow> p w = (Inr a, w')"
  by (auto simp: wrap_def split: sum.splits prod.splits)

lemma wrap_result_Inl:
  "wrap k p w = (Inl e, w') \<longleftrightarrow> (\<exists>e'. p w = (Inl e', w') \<and> e = wrapped k e')"
  by (auto simp: wrap_def split: sum.splits prod.splits)

lemmas monad_results = bnd_result_Inr bnd_result_Inl wrap_result_Inr wrap_result_Inl

section \<open>Evolution along a preorder\<close>

text \<open>
  An operation evolves along \<open>R\<close> when the state before and after it, whatever it returns, are
  related. For a reflexive and transitive \<open>R\<close> this is closed under all combinators, so a fact
  about the elementary database operations becomes a fact about every handler. A state
  invariant \<open>I\<close> is the instance \<open>\<lambda>w w'. I w \<longrightarrow> I w'\<close>.
\<close>

definition evolves :: "('w \<Rightarrow> 'w \<Rightarrow> bool) \<Rightarrow> ('w, 'a) m \<Rightarrow> bool" where
  "evolves R p \<longleftrightarrow> (\<forall>w. R w (snd (p w)))"

lemma evolvesD: "evolves R p \<Longrightarrow> p w = (r, w') \<Longrightarrow> R w w'"
  by (auto simp: evolves_def dest: spec [of _ w])

lemma evolves_snd: "evolves R p \<Longrightarrow> R w (snd (p w))"
  by (simp add: evolves_def)

lemma evolvesI: "(\<And>w r w'. p w = (r, w') \<Longrightarrow> R w w') \<Longrightarrow> evolves R p"
  by (metis evolves_def prod.collapse)

text \<open>The same for successful runs only: all that matters of the body of a transaction.\<close>

definition evolves_ok :: "('w \<Rightarrow> 'w \<Rightarrow> bool) \<Rightarrow> ('w, 'a) m \<Rightarrow> bool" where
  "evolves_ok R p \<longleftrightarrow> (\<forall>w a w'. p w = (Inr a, w') \<longrightarrow> R w w')"

lemma evolves_okI: "(\<And>w a w'. p w = (Inr a, w') \<Longrightarrow> R w w') \<Longrightarrow> evolves_ok R p"
  by (simp add: evolves_ok_def)

lemma evolves_okD: "evolves_ok R p \<Longrightarrow> p w = (Inr a, w') \<Longrightarrow> R w w'"
  by (simp add: evolves_ok_def)

lemma ok_ev: "evolves R p \<Longrightarrow> evolves_ok R p"
  by (auto intro: evolves_okI dest: evolvesD)

lemma ok_throw: "evolves_ok R (throw e)"
  by (simp add: evolves_ok_def)

lemma ok_wrap: "evolves_ok R p \<Longrightarrow> evolves_ok R (wrap k p)"
  by (simp add: evolves_ok_def wrap_result_Inr)

lemma ok_if: "(b \<Longrightarrow> evolves_ok R p) \<Longrightarrow> (\<not> b \<Longrightarrow> evolves_ok R q) \<Longrightarrow> evolves_ok R (if b then p else q)"
  by simp

lemma ok_case_option:
  "evolves_ok R p \<Longrightarrow> (\<And>x. evolves_ok R (f x)) \<Longrightarrow> evolves_ok R (case_option p f v)"
  by (cases v) simp_all

lemma ok_case_prod: "(\<And>x y. evolves_ok R (f x y)) \<Longrightarrow> evolves_ok R (case_prod f v)"
  by (cases v) simp

locale evolution =
  fixes R :: "'w \<Rightarrow> 'w \<Rightarrow> bool"
  assumes R_refl: "R w w"
    and R_trans: "R u v \<Longrightarrow> R v w \<Longrightarrow> R u w"
begin

lemma ev_ret: "evolves R (ret a)"
  by (simp add: evolves_def R_refl)

lemma ev_throw: "evolves R (throw e)"
  by (simp add: evolves_def R_refl)

lemma ev_attempt: "evolves R p \<Longrightarrow> evolves R (attempt p)"
  by (simp add: evolves_def attempt_snd)

lemma ev_gets: "evolves R (gets f)"
  by (simp add: evolves_def R_refl)

lemma ev_bnd:
  assumes p: "evolves R p" and f: "\<And>a. evolves R (f a)"
  shows "evolves R (bnd p f)"
proof (rule evolvesI)
  fix w r w'
  assume run: "bnd p f w = (r, w')"
  obtain q w1 where q: "p w = (q, w1)" by (cases "p w")
  have "R w w1" by (rule evolvesD [OF p q])
  moreover have "R w1 w'"
    using run q f by (cases q) (auto simp: R_refl dest: evolvesD)
  ultimately show "R w w'" by (rule R_trans)
qed

lemma ev_wrap: "evolves R p \<Longrightarrow> evolves R (wrap k p)"
  by (auto simp: evolves_def wrap_def split: sum.splits prod.splits) (metis snd_conv)+

lemma ev_logged: "evolves R p \<Longrightarrow> evolves R (logged p)"
  by (simp add: evolves_def)

lemma ev_do_if: "evolves R p \<Longrightarrow> evolves R (do_if b p)"
  by (simp add: do_if_def ev_ret)

lemma ev_for_each: "(\<And>x. evolves R (f x)) \<Longrightarrow> evolves R (for_each xs f)"
  by (induction xs) (simp_all add: ev_ret ev_bnd)

lemma ev_collect: "(\<And>x. evolves R (f x)) \<Longrightarrow> evolves R (collect xs f)"
  by (induction xs) (simp_all add: ev_ret ev_bnd)

lemma ev_if: "(b \<Longrightarrow> evolves R p) \<Longrightarrow> (\<not> b \<Longrightarrow> evolves R q) \<Longrightarrow> evolves R (if b then p else q)"
  by simp

lemma ev_case_option:
  "evolves R p \<Longrightarrow> (\<And>x. evolves R (f x)) \<Longrightarrow> evolves R (case_option p f v)"
  by (cases v) simp_all

lemma ev_case_sum:
  "(\<And>x. evolves R (g x)) \<Longrightarrow> (\<And>x. evolves R (f x)) \<Longrightarrow> evolves R (case_sum g f v)"
  by (cases v) simp_all

lemma ev_case_prod: "(\<And>x y. evolves R (f x y)) \<Longrightarrow> evolves R (case_prod f v)"
  by (cases v) simp

lemma ok_ret: "evolves_ok R (ret a)"
  by (rule ok_ev [OF ev_ret])

lemma ok_bnd: "evolves_ok R p \<Longrightarrow> (\<And>a. evolves_ok R (f a)) \<Longrightarrow> evolves_ok R (bnd p f)"
  unfolding evolves_ok_def bnd_result_Inr by (blast intro: R_trans)

lemma ok_do_if: "(b \<Longrightarrow> evolves_ok R p) \<Longrightarrow> evolves_ok R (do_if b p)"
  by (simp add: do_if_def ok_ret)

lemmas ok_rules = ok_ret ok_throw ok_bnd ok_wrap ok_do_if ok_if ok_case_option ok_case_prod

lemmas ev_rules = ev_ret ev_throw ev_gets ev_attempt ev_bnd ev_wrap ev_logged ev_do_if ev_for_each
  ev_collect ev_if ev_case_option ev_case_sum ev_case_prod

end

section \<open>Errors a command never returns\<close>

text \<open>Some kind occurs nowhere in the chain of any error a command returns.\<close>

definition never :: "err_kind \<Rightarrow> ('w, 'a) m \<Rightarrow> bool" where
  "never k p \<longleftrightarrow> (\<forall>w e w'. p w = (Inl e, w') \<longrightarrow> \<not> err_as k e)"

lemma neverD: "never k p \<Longrightarrow> p w = (Inl e, w') \<Longrightarrow> \<not> err_as k e"
  unfolding never_def by blast

lemma neverI: "(\<And>w e w'. p w = (Inl e, w') \<Longrightarrow> \<not> err_as k e) \<Longrightarrow> never k p"
  by (simp add: never_def)

lemma never_ret: "never k (ret a)"
  by (simp add: never_def)

lemma never_throw: "\<not> err_as k e \<Longrightarrow> never k (throw e)"
  by (simp add: never_def)

lemma never_bnd: "never k p \<Longrightarrow> (\<And>a. never k (f a)) \<Longrightarrow> never k (bnd p f)"
  by (rule neverI) (auto simp: bnd_result_Inl dest: neverD)

lemma never_wrap: "j \<noteq> k \<Longrightarrow> never k p \<Longrightarrow> never k (wrap j p)"
  by (rule neverI) (auto simp: wrap_result_Inl dest: neverD)

lemma never_if: "never k p \<Longrightarrow> never k q \<Longrightarrow> never k (if b then p else q)"
  by simp

lemmas never_rules = never_ret never_throw never_bnd never_wrap never_if

section \<open>Keyed rows\<close>

text \<open>
  A table is the list of its rows in insertion order. \<open>find_row\<close> is \<open>SELECT .. WHERE key = k\<close>
  for a primary key, \<open>update_rows\<close> is \<open>UPDATE .. WHERE p\<close>.
\<close>

definition find_row :: "('r \<Rightarrow> 'k) \<Rightarrow> 'k \<Rightarrow> 'r list \<Rightarrow> 'r option" where
  "find_row key k rs = find (\<lambda>r. key r = k) rs"

definition update_rows :: "('r \<Rightarrow> bool) \<Rightarrow> ('r \<Rightarrow> 'r) \<Rightarrow> 'r list \<Rightarrow> 'r list" where
  "update_rows p f rs = map (\<lambda>r. if p r then f r else r) rs"

lemma in_update_rows: "x \<in> set (update_rows p f rs) \<Longrightarrow> \<exists>y \<in> set rs. x = (if p y then f y else y)"
  unfolding update_rows_def set_map by blast

lemma find_row_Nil [simp]: "find_row key k [] = None"
  by (simp add: find_row_def)

lemma find_row_Cons [simp]:
  "find_row key k (r # rs) = (if key r = k then Some r else find_row key k rs)"
  by (simp add: find_row_def)

lemma find_row_Some: "find_row key k rs = Some r \<Longrightarrow> r \<in> set rs \<and> key r = k"
  by (auto simp: find_row_def find_Some_iff)

lemma find_row_None: "find_row key k rs = None \<longleftrightarrow> k \<notin> key ` set rs"
  by (auto simp: find_row_def find_None_iff)

lemma find_row_in: "k \<in> key ` set rs \<Longrightarrow> \<exists>r. find_row key k rs = Some r"
  by (induction rs) auto

lemma find_row_append:
  "find_row key k (rs @ ss) = (case find_row key k rs of None \<Rightarrow> find_row key k ss | Some r \<Rightarrow> Some r)"
  by (induction rs) auto

text \<open>
  The contract between a table and the operations on it: an update keeps the key of a row.
\<close>

locale keyed_update =
  fixes key :: "'r \<Rightarrow> 'k" and f :: "'r \<Rightarrow> 'r"
  assumes key_kept: "key (f r) = key r"
begin

lemma keys_update [simp]: "map key (update_rows p f rs) = map key rs"
  by (simp add: update_rows_def key_kept)

lemma key_set_update [simp]: "key ` set (update_rows p f rs) = key ` set rs"
  by (metis keys_update set_map)

lemma find_update:
  "find_row key k (update_rows p f rs) =
     map_option (\<lambda>r. if p r then f r else r) (find_row key k rs)"
  by (induction rs) (auto simp: update_rows_def key_kept)

end

lemma find_row_distinct:
  "distinct (map key rs) \<Longrightarrow> r \<in> set rs \<Longrightarrow> find_row key (key r) rs = Some r"
  by (induction rs) (auto simp: image_iff)

section \<open>Evolution of keyed rows\<close>

text \<open>
  How a table may change: a row that was there is still there and has advanced, a row that is new
  satisfies the condition of new rows. \<open>adv\<close> and \<open>ini\<close> are the contract of one table.
\<close>

definition rows_evolve ::
  "('r \<Rightarrow> 'k) \<Rightarrow> ('r \<Rightarrow> 'r \<Rightarrow> bool) \<Rightarrow> ('r \<Rightarrow> bool) \<Rightarrow> 'r list \<Rightarrow> 'r list \<Rightarrow> bool"
where
  "rows_evolve key adv ini rs rs' \<longleftrightarrow>
     (\<forall>k. case find_row key k rs of
        Some r \<Rightarrow> (\<exists>r'. find_row key k rs' = Some r' \<and> adv r r')
      | None \<Rightarrow> (\<forall>r'. find_row key k rs' = Some r' \<longrightarrow> ini r'))"

locale row_evolution =
  fixes key :: "'r \<Rightarrow> 'k" and adv :: "'r \<Rightarrow> 'r \<Rightarrow> bool" and ini :: "'r \<Rightarrow> bool"
  assumes adv_refl: "adv r r"
    and adv_trans: "adv a b \<Longrightarrow> adv b c \<Longrightarrow> adv a c"
    and ini_adv: "ini r \<Longrightarrow> adv r r' \<Longrightarrow> ini r'"
begin

lemma rows_refl: "rows_evolve key adv ini rs rs"
  by (auto simp: rows_evolve_def adv_refl split: option.splits)

lemma rows_trans:
  assumes "rows_evolve key adv ini as bs" "rows_evolve key adv ini bs cs"
  shows "rows_evolve key adv ini as cs"
  unfolding rows_evolve_def
proof
  fix k
  have 1: "case find_row key k as of Some r \<Rightarrow> (\<exists>r'. find_row key k bs = Some r' \<and> adv r r')
      | None \<Rightarrow> (\<forall>r'. find_row key k bs = Some r' \<longrightarrow> ini r')"
    and 2: "case find_row key k bs of Some r \<Rightarrow> (\<exists>r'. find_row key k cs = Some r' \<and> adv r r')
      | None \<Rightarrow> (\<forall>r'. find_row key k cs = Some r' \<longrightarrow> ini r')"
    using assms unfolding rows_evolve_def by blast+
  show "case find_row key k as of Some r \<Rightarrow> (\<exists>r'. find_row key k cs = Some r' \<and> adv r r')
      | None \<Rightarrow> (\<forall>r'. find_row key k cs = Some r' \<longrightarrow> ini r')"
    using 1 2 by (auto split: option.splits intro: adv_trans ini_adv)
qed

lemma rows_append: "(\<And>r. r \<in> set ns \<Longrightarrow> ini r) \<Longrightarrow> rows_evolve key adv ini rs (rs @ ns)"
  by (auto simp: rows_evolve_def find_row_append adv_refl split: option.splits dest!: find_row_Some)

lemma rows_update:
  assumes "\<And>r. key (f r) = key r"
    and "\<And>r. find_row key (key r) rs = Some r \<Longrightarrow> p r \<Longrightarrow> adv r (f r)"
  shows "rows_evolve key adv ini rs (update_rows p f rs)"
proof -
  have find: "find_row key k (update_rows p f rs) =
      map_option (\<lambda>r. if p r then f r else r) (find_row key k rs)" for k
    by (rule keyed_update.find_update) (simp add: keyed_update_def assms(1))
  show ?thesis
    unfolding rows_evolve_def find
    by (auto simp: adv_refl split: option.splits intro: assms(2) dest: find_row_Some)
qed

lemma rows_advance:
  "rows_evolve key adv ini rs rs' \<Longrightarrow> find_row key k rs = Some r \<Longrightarrow>
     \<exists>r'. find_row key k rs' = Some r' \<and> adv r r'"
  by (auto simp: rows_evolve_def dest!: spec [of _ k])

end

end
