(* ===== verification/State_Machine.thy ===== *)
theory State_Machine
  imports Prelude
begin

text \<open>
  The contract shared by the four persisted state machines (task, task execution, workflow,
  workflow step): a transition table and the check that consults it, and the breadth-first
  walk over a transition table that the idempotency guards use.
\<close>

section \<open>Transition tables\<close>

text \<open>The table is a Go map of maps; a state with no entry has no way out.\<close>

definition succs :: "('s \<Rightarrow> 's list option) \<Rightarrow> 's \<Rightarrow> 's list" where
  "succs tr s = (case tr s of None \<Rightarrow> [] | Some ts \<Rightarrow> ts)"

definition moves :: "('s \<Rightarrow> 's list option) \<Rightarrow> 's \<Rightarrow> 's \<Rightarrow> bool" where
  "moves tr s t \<longleftrightarrow> t \<in> set (succs tr s)"

abbreviation moves_star :: "('s \<Rightarrow> 's list option) \<Rightarrow> 's \<Rightarrow> 's \<Rightarrow> bool" where
  "moves_star tr \<equiv> (moves tr)\<^sup>*\<^sup>*"

locale state_machine =
  fixes tr :: "'s \<Rightarrow> 's list option"
    and valid :: "'s \<Rightarrow> 's \<Rightarrow> goerr + unit"
  assumes valid_ok: "valid s t = Inr () \<longleftrightarrow> moves tr s t"
    and valid_err: "valid s t = Inl e \<Longrightarrow> e = leaf ConsistencyError"
begin

lemma valid_cases:
  "valid s t = (if moves tr s t then Inr () else Inl (leaf ConsistencyError))"
proof (cases "valid s t")
  case (Inl e)
  then show ?thesis using valid_ok [of s t] valid_err by auto
next
  case (Inr u)
  then show ?thesis using valid_ok [of s t] by auto
qed

lemma final_stays: "succs tr s = [] \<Longrightarrow> moves_star tr s t \<Longrightarrow> t = s"
  by (erule converse_rtranclpE) (auto simp: moves_def)

lemma final_rejects: "succs tr s = [] \<Longrightarrow> valid s t = Inl (leaf ConsistencyError)"
  by (simp add: valid_cases moves_def)

end

text \<open>A machine without cycles: every move climbs a rank.\<close>

locale ranked_machine = state_machine +
  fixes rank :: "'s \<Rightarrow> nat"
  assumes climbs: "moves tr s t \<Longrightarrow> rank s < rank t"
begin

lemma path_length: "(moves tr ^^ n) s t \<Longrightarrow> rank s + n \<le> rank t"
proof (induction n arbitrary: t)
  case 0
  then show ?case by simp
next
  case (Suc n)
  then obtain u where "(moves tr ^^ n) s u" and "moves tr u t" by auto
  with Suc.IH [of u] climbs [of u t] show ?case by simp
qed

lemma no_return: "(moves tr)\<^sup>+\<^sup>+ s t \<Longrightarrow> rank s < rank t"
  by (induction rule: tranclp_induct) (auto dest: climbs)

lemma star_antisym: "moves_star tr s t \<Longrightarrow> moves_star tr t s \<Longrightarrow> s = t"
  by (metis no_return not_less_iff_gr_or_eq rtranclpD)

end

section \<open>The breadth-first walk\<close>

text \<open>
  One pass over the successors of the current state: stop when the target is met, otherwise
  mark and append each state not visited before.
\<close>

fun scan_next :: "'s \<Rightarrow> 's list \<Rightarrow> 's list \<Rightarrow> 's list \<Rightarrow> bool \<times> 's list \<times> 's list" where
  "scan_next t [] vis q = (False, vis, q)"
| "scan_next t (n # ns) vis q =
     (if n = t then (True, vis, q)
      else if n \<notin> set vis then scan_next t ns (n # vis) (q @ [n])
      else scan_next t ns vis q)"

lemma scan_next_found: "fst (scan_next t ns vis q) \<longleftrightarrow> t \<in> set ns"
  by (induction t ns vis q rule: scan_next.induct) auto

lemma scan_next_not_found:
  assumes "scan_next t ns vis q = (False, vis', q')"
  shows "set vis' = set vis \<union> set ns \<and> set q \<subseteq> set q' \<and> set q' \<subseteq> set q \<union> set ns \<and>
    set vis' \<subseteq> set vis \<union> set q'"
  using assms
proof (induction t ns vis q rule: scan_next.induct)
  case (1 t vis q)
  then show ?case by auto
next
  case (2 t n ns vis q)
  show ?case
  proof (cases "n = t")
    case True
    with 2 show ?thesis by simp
  next
    case False
    show ?thesis
    proof (cases "n \<in> set vis")
      case True
      with False 2 show ?thesis by auto
    next
      case new: False
      with False 2 show ?thesis by auto
    qed
  qed
qed

lemma scan_next_measure:
  fixes t :: "'s::finite"
  assumes "scan_next t ns vis q = (b, vis', q')"
  shows "length q' + card (- set vis') \<le> length q + card (- set vis)"
  using assms
proof (induction t ns vis q rule: scan_next.induct)
  case (1 t vis q)
  then show ?case by simp
next
  case (2 t n ns vis q)
  have "n \<notin> set vis \<Longrightarrow> Suc (card (- set (n # vis))) = card (- set vis)"
  proof -
    assume "n \<notin> set vis"
    then have "n \<in> - set vis" by simp
    moreover have "- set (n # vis) = (- set vis) - {n}" by auto
    ultimately show ?thesis using card_Suc_Diff1 [of "- set vis" n] by (simp only: finite)
  qed
  with 2 show ?case by (auto split: if_splits)
qed

function (sequential) bfs :: "('s::finite \<Rightarrow> 's list) \<Rightarrow> 's \<Rightarrow> 's list \<Rightarrow> 's list \<Rightarrow> bool" where
  "bfs nxt t vis [] = False"
| "bfs nxt t vis (c # q) =
     (case scan_next t (nxt c) vis q of
        (True, _, _) \<Rightarrow> True
      | (False, vis', q') \<Rightarrow> bfs nxt t vis' q')"
  by pat_completeness auto
termination
  by (relation "measure (\<lambda>(nxt, t, vis, q). length q + card (- set vis))")
    (auto dest!: scan_next_measure [OF sym])

text \<open>
  Loop invariant: the queue lies within the visited states, and a visited state that has left
  the queue has all its successors visited and the target not among them.
\<close>

definition bfs_inv :: "('s \<Rightarrow> 's list) \<Rightarrow> 's \<Rightarrow> 's list \<Rightarrow> 's list \<Rightarrow> bool" where
  "bfs_inv nxt t vis q \<longleftrightarrow> set q \<subseteq> set vis \<and>
     (\<forall>x \<in> set vis - set q. set (nxt x) \<subseteq> set vis \<and> t \<notin> set (nxt x))"

abbreviation edge :: "('s \<Rightarrow> 's list) \<Rightarrow> 's \<Rightarrow> 's \<Rightarrow> bool" where
  "edge nxt s t \<equiv> t \<in> set (nxt s)"

lemma closed_unreachable:
  assumes "\<forall>x \<in> V. set (nxt x) \<subseteq> V \<and> t \<notin> set (nxt x)" and "x \<in> V"
  shows "\<not> (edge nxt)\<^sup>+\<^sup>+ x t"
proof
  assume "(edge nxt)\<^sup>+\<^sup>+ x t"
  then have "t \<in> V \<and> (\<exists>y \<in> V. t \<in> set (nxt y))"
    using assms by (induction rule: tranclp_induct) blast+
  with assms show False by blast
qed

lemma bfs_inv_step:
  assumes inv: "bfs_inv nxt t vis (c # q)"
    and scan: "scan_next t (nxt c) vis q = (False, vis', q')"
  shows "bfs_inv nxt t vis' q'"
proof -
  have t: "t \<notin> set (nxt c)" using scan scan_next_found [of t "nxt c" vis q] by simp
  from scan_next_not_found [OF scan]
  have vis': "set vis' = set vis \<union> set (nxt c)" and q: "set q \<subseteq> set q'"
    and q': "set q' \<subseteq> set q \<union> set (nxt c)" and new: "set vis' \<subseteq> set vis \<union> set q'"
    by auto
  show ?thesis
    unfolding bfs_inv_def
  proof (intro conjI ballI)
    show "set q' \<subseteq> set vis'" using inv q' vis' by (auto simp: bfs_inv_def)
  next
    fix x
    assume x: "x \<in> set vis' - set q'"
    then have "x = c \<or> x \<in> set vis - set (c # q)" using new q by auto
    then have "set (nxt x) \<subseteq> set vis' \<and> t \<notin> set (nxt x)"
      using inv t vis' by (auto simp: bfs_inv_def)
    then show "set (nxt x) \<subseteq> set vis'" and "t \<notin> set (nxt x)" by simp_all
  qed
qed

lemma bfs_correct:
  "bfs_inv nxt t vis q \<Longrightarrow> bfs nxt t vis q \<longleftrightarrow> (\<exists>x \<in> set vis. (edge nxt)\<^sup>+\<^sup>+ x t)"
proof (induction nxt t vis q rule: bfs.induct)
  case (1 nxt t vis)
  then show ?case using closed_unreachable [of "set vis" nxt t] by (auto simp: bfs_inv_def)
next
  case (2 nxt t vis c q)
  obtain b vis' q' where scan: "scan_next t (nxt c) vis q = (b, vis', q')"
    by (cases "scan_next t (nxt c) vis q") auto
  have c: "c \<in> set vis" using "2.prems" by (simp add: bfs_inv_def)
  show ?case
  proof (cases b)
    case True
    then have "t \<in> set (nxt c)" using scan scan_next_found [of t "nxt c" vis q] by simp
    with True scan c show ?thesis by auto
  next
    case False
    with scan have scan': "scan_next t (nxt c) vis q = (False, vis', q')" by simp
    have IH: "bfs nxt t vis' q' \<longleftrightarrow> (\<exists>x \<in> set vis'. (edge nxt)\<^sup>+\<^sup>+ x t)"
      using "2.IH" [OF scan' [symmetric]] bfs_inv_step [OF "2.prems" scan'] by simp
    have "set vis' = set vis \<union> set (nxt c)" using scan_next_not_found [OF scan'] by simp
    then have "(\<exists>x \<in> set vis'. (edge nxt)\<^sup>+\<^sup>+ x t) \<longleftrightarrow> (\<exists>x \<in> set vis. (edge nxt)\<^sup>+\<^sup>+ x t)"
      using c by (auto intro: tranclp_into_tranclp2 [of "edge nxt" c])
    with IH scan' show ?thesis by simp
  qed
qed

corollary bfs_from: "bfs nxt t [r] [r] \<longleftrightarrow> (edge nxt)\<^sup>+\<^sup>+ r t"
  by (subst bfs_correct) (simp_all add: bfs_inv_def)

end
