(* ===== verification/Task_Model.thy ===== *)
theory Task_Model
  imports Complex_Main State_Machine
begin

text \<open>
  \<open>models/task.go\<close>: retry parameters and the back-off, the task and execution state machines
  with their transition tables, the breadth-first idempotency test, and the persisted rows.
\<close>

type_synonym ident = string
type_synonym time = int  \<comment> \<open>nanoseconds since the epoch\<close>
type_synonym duration = int  \<comment> \<open>\<open>time.Duration\<close>: a signed 64-bit count of nanoseconds\<close>

section \<open>Retry parameters\<close>

definition wrap64 :: "int \<Rightarrow> int" where
  "wrap64 = signed_take_bit 63"

abbreviation second :: duration where
  "second \<equiv> 1000000000"

definition max_retry_delay :: duration where
  "max_retry_delay = 5 * 60 * second"

record retry_params =
  max_retries :: int
  initial_delay_sec :: int
  max_delay_sec :: "int option"
  factor :: rat

definition valid_retry :: "retry_params \<Rightarrow> bool" where
  "valid_retry p \<longleftrightarrow> max_retries p \<ge> -1 \<and> initial_delay_sec p \<ge> 1 \<and>
     (case max_delay_sec p of None \<Rightarrow> True | Some d \<Rightarrow> d \<ge> 1) \<and> factor p \<ge> 1"

definition initial_delay :: "retry_params \<Rightarrow> duration" where
  "initial_delay p = wrap64 (second * initial_delay_sec p)"

definition max_delay :: "retry_params \<Rightarrow> duration" where
  "max_delay p = (case max_delay_sec p of None \<Rightarrow> 0 | Some d \<Rightarrow> wrap64 (second * d))"

definition default_retry :: retry_params where
  "default_retry = \<lparr>max_retries = 5, initial_delay_sec = 5, max_delay_sec = Some 30,
     factor = 143125 / 100000\<rparr>"

text \<open>
  The float expression \<open>float64(initial) * math.Pow(factor, float64(retry))\<close> is an argument of
  the back-off: \<open>None\<close> is \<open>+Inf\<close>. \<open>exact_backoff\<close> is that expression without rounding.
\<close>

type_synonym backoff = "duration \<Rightarrow> rat \<Rightarrow> int \<Rightarrow> rat option"

definition exact_backoff :: backoff where
  "exact_backoff d f r =
     Some (of_int d * (if r \<ge> 0 then f ^ nat r else 1 / f ^ nat (- r)))"

definition trunc :: "rat \<Rightarrow> int" where
  "trunc x = (if x \<ge> 0 then \<lfloor>x\<rfloor> else - \<lfloor>- x\<rfloor>)"

definition delay_ceiling :: "retry_params \<Rightarrow> duration" where
  "delay_ceiling p =
     (if max_delay p > 0 \<and> max_delay p < max_retry_delay then max_delay p else max_retry_delay)"

definition next_delay :: "backoff \<Rightarrow> retry_params \<Rightarrow> int \<Rightarrow> duration" where
  "next_delay b p retry =
     (if max_retries p \<ge> 0 \<and> retry \<ge> max_retries p then 0
      else
        case b (initial_delay p) (factor p) retry of
          None \<Rightarrow> delay_ceiling p
        | Some d \<Rightarrow> if d \<ge> of_int (delay_ceiling p) then delay_ceiling p else trunc d)"

lemma wrap64_id: "- (2 ^ 63) \<le> x \<Longrightarrow> x < 2 ^ 63 \<Longrightarrow> wrap64 x = x"
  by (simp add: wrap64_def signed_take_bit_int_eq_self)

lemma delay_ceiling_le: "delay_ceiling p \<le> max_retry_delay"
  by (simp add: delay_ceiling_def)

lemma delay_ceiling_pos: "delay_ceiling p > 0"
  by (simp add: delay_ceiling_def max_retry_delay_def)

lemma trunc_mono: "x \<le> y \<Longrightarrow> trunc x \<le> trunc y"
proof -
  assume le: "x \<le> y"
  show ?thesis
  proof (cases "x \<ge> 0")
    case True
    with le show ?thesis by (simp add: trunc_def floor_mono)
  next
    case False
    have "\<lfloor>- y\<rfloor> \<le> \<lfloor>- x\<rfloor>" using le by (simp add: floor_mono)
    moreover have "- \<lfloor>- x\<rfloor> \<le> \<lfloor>y\<rfloor>" if "y \<ge> 0"
    proof -
      have "0 \<le> \<lfloor>- x\<rfloor>" and "0 \<le> \<lfloor>y\<rfloor>" using False that by simp_all
      then show ?thesis by linarith
    qed
    ultimately show ?thesis using False by (simp add: trunc_def)
  qed
qed

lemma trunc_of_int [simp]: "trunc (of_int n) = n"
  by (simp add: trunc_def)

lemma next_delay_le_ceiling: "next_delay b p r \<le> delay_ceiling p"
proof -
  have "trunc d \<le> delay_ceiling p" if "\<not> of_int (delay_ceiling p) \<le> d" for d
    using trunc_mono [of d "of_int (delay_ceiling p)"] that by simp
  then show ?thesis
    using delay_ceiling_pos [of p] by (auto simp: next_delay_def split: option.splits)
qed

section \<open>Task states\<close>

datatype schedule_class = ImmediateOneShot | ScheduledOneShot

datatype task_state =
  TaskPending | TaskActive | TaskComplete | TaskFailed | TaskCancelling | TaskCancelled | TaskTimeout

fun task_transitions :: "task_state \<Rightarrow> task_state list option" where
  "task_transitions TaskPending = Some [TaskPending, TaskActive, TaskCancelling]"
| "task_transitions TaskActive =
     Some [TaskActive, TaskComplete, TaskFailed, TaskCancelling, TaskTimeout]"
| "task_transitions TaskCancelling = Some [TaskCancelling, TaskCancelled]"
| "task_transitions _ = None"

definition task_valid_next_state :: "task_state \<Rightarrow> task_state \<Rightarrow> goerr + unit" where
  "task_valid_next_state s new =
     (case task_transitions s of
        None \<Rightarrow> Inl (leaf ConsistencyError)
      | Some ts \<Rightarrow> if new \<in> set ts then Inr () else Inl (leaf ConsistencyError))"

interpretation task_machine: state_machine task_transitions task_valid_next_state
  by unfold_locales
    (auto simp: task_valid_next_state_def moves_def succs_def split: option.splits if_splits)

section \<open>Execution states\<close>

datatype exec_class = ExecImmediate | ExecScheduledClass | ExecRetry

datatype disposition = Retryable | NonRetryable

datatype exec_state =
  ExecDefined | ExecScheduled | ExecEnqueued | ExecAcquired | ExecProcessing | ExecProcessed
| ExecFailed | ExecFinalized | ExecCancelled

text \<open>The order of \<open>Values()\<close>.\<close>

instantiation exec_state :: enum
begin

definition enum_exec_state :: "exec_state list" where
  "enum_exec_state = [ExecDefined, ExecScheduled, ExecEnqueued, ExecAcquired, ExecProcessing,
     ExecProcessed, ExecFailed, ExecFinalized, ExecCancelled]"

definition enum_all_exec_state :: "(exec_state \<Rightarrow> bool) \<Rightarrow> bool" where
  "enum_all_exec_state P \<longleftrightarrow> list_all P enum_class.enum"

definition enum_ex_exec_state :: "(exec_state \<Rightarrow> bool) \<Rightarrow> bool" where
  "enum_ex_exec_state P \<longleftrightarrow> list_ex P enum_class.enum"

instance
proof
  show all: "(UNIV :: exec_state set) = set enum_class.enum"
    by (auto simp: enum_exec_state_def intro: exec_state.exhaust)
  show "distinct (enum_class.enum :: exec_state list)"
    by (simp add: enum_exec_state_def)
  show "enum_class.enum_all P = Ball UNIV P" for P :: "exec_state \<Rightarrow> bool"
    using all by (auto simp: enum_all_exec_state_def list_all_iff)
  show "enum_class.enum_ex P = Bex UNIV P" for P :: "exec_state \<Rightarrow> bool"
    using all by (auto simp: enum_ex_exec_state_def list_ex_iff)
qed

end

fun exec_transitions :: "exec_state \<Rightarrow> exec_state list option" where
  "exec_transitions ExecDefined = Some [ExecScheduled, ExecEnqueued, ExecCancelled]"
| "exec_transitions ExecScheduled = Some [ExecEnqueued, ExecCancelled]"
| "exec_transitions ExecEnqueued = Some [ExecAcquired, ExecFailed, ExecCancelled]"
| "exec_transitions ExecAcquired =
     Some [ExecProcessing, ExecProcessed, ExecFailed, ExecCancelled]"
| "exec_transitions ExecProcessing = Some [ExecProcessed, ExecFailed, ExecCancelled]"
| "exec_transitions ExecProcessed = Some [ExecFinalized]"
| "exec_transitions ExecFailed = Some [ExecFinalized]"
| "exec_transitions _ = None"

definition exec_valid_next_state :: "exec_state \<Rightarrow> exec_state \<Rightarrow> goerr + unit" where
  "exec_valid_next_state s new =
     (case exec_transitions s of
        None \<Rightarrow> Inl (leaf ConsistencyError)
      | Some ts \<Rightarrow> if new \<in> set ts then Inr () else Inl (leaf ConsistencyError))"

text \<open>
  \<open>IsStateAtOrPast\<close>. Go ranges over the successor map in an unspecified order; \<open>nxt\<close> lists the
  successors in the order of one run.
\<close>

definition at_or_past_in :: "(exec_state \<Rightarrow> exec_state list) \<Rightarrow> exec_state \<Rightarrow> exec_state \<Rightarrow> bool" where
  "at_or_past_in nxt cur reference =
     (if cur = reference then True else bfs nxt cur [reference] [reference])"

definition is_state_at_or_past :: "exec_state \<Rightarrow> exec_state \<Rightarrow> bool" where
  "is_state_at_or_past = at_or_past_in (succs exec_transitions)"

definition has_ended :: "exec_state \<Rightarrow> bool" where
  "has_ended s \<longleftrightarrow> is_state_at_or_past s ExecProcessed \<or> is_state_at_or_past s ExecFailed \<or>
     is_state_at_or_past s ExecCancelled"

text \<open>A rank that every transition of an execution climbs.\<close>

fun exec_rank :: "exec_state \<Rightarrow> nat" where
  "exec_rank ExecDefined = 0"
| "exec_rank ExecScheduled = 1"
| "exec_rank ExecEnqueued = 2"
| "exec_rank ExecAcquired = 3"
| "exec_rank ExecProcessing = 4"
| "exec_rank ExecProcessed = 5"
| "exec_rank ExecFailed = 5"
| "exec_rank ExecCancelled = 5"
| "exec_rank ExecFinalized = 6"

interpretation exec_machine: ranked_machine exec_transitions exec_valid_next_state exec_rank
proof unfold_locales
  fix s t :: exec_state and e
  show "exec_valid_next_state s t = Inr () \<longleftrightarrow> moves exec_transitions s t"
    by (auto simp: exec_valid_next_state_def moves_def succs_def split: option.splits)
  show "exec_valid_next_state s t = Inl e \<Longrightarrow> e = leaf ConsistencyError"
    by (auto simp: exec_valid_next_state_def split: option.splits if_splits)
  show "moves exec_transitions s t \<Longrightarrow> exec_rank s < exec_rank t"
    by (cases s; cases t) (simp_all add: moves_def succs_def)
qed

lemma at_or_past_in_iff:
  assumes "\<And>s. set (nxt s) = set (succs exec_transitions s)"
  shows "at_or_past_in nxt cur reference \<longleftrightarrow> moves_star exec_transitions reference cur"
proof -
  have "edge nxt = moves exec_transitions"
    by (intro ext) (simp add: assms moves_def)
  then show ?thesis
    by (auto simp add: at_or_past_in_def bfs_from Nitpick.rtranclp_unfold simp del: bfs.simps)
qed

text \<open>\<open>HasEnded\<close> holds exactly in the states that have an outcome.\<close>

lemma has_ended_values:
  "has_ended s \<longleftrightarrow> s = ExecProcessed \<or> s = ExecFailed \<or> s = ExecCancelled \<or> s = ExecFinalized"
proof -
  have "list_all (\<lambda>s. has_ended s \<longleftrightarrow>
      s = ExecProcessed \<or> s = ExecFailed \<or> s = ExecCancelled \<or> s = ExecFinalized) enum_class.enum"
    by code_simp
  then show ?thesis by (simp add: enum_exec_state_def) (cases s; simp)
qed

section \<open>The life of an instance\<close>

text \<open>C31. The life of an execution instance ends: no sequence of legal transitions is longer than six,
  and the only states it cannot leave are FINALIZED and CANCELLED.\<close>

theorem exec_lifecycle_ends:
  "((moves exec_transitions ^^ n) s s' \<longrightarrow> n \<le> 6) \<and>
   ((\<forall>t. \<not> moves exec_transitions s t) \<longleftrightarrow> s = ExecFinalized \<or> s = ExecCancelled)"
proof -
  have "exec_rank s' \<le> 6" by (cases s') simp_all
  then have "(moves exec_transitions ^^ n) s s' \<Longrightarrow> n \<le> 6"
    using exec_machine.path_length [of n s s'] by linarith
  moreover have "(\<forall>t. \<not> moves exec_transitions s t) \<longleftrightarrow> s = ExecFinalized \<or> s = ExecCancelled"
    by (cases s) (auto simp: moves_def succs_def)
  ultimately show ?thesis by blast
qed

theorem exec_lifecycle_ends_witness: "\<exists>s s'. (moves exec_transitions ^^ 2) s s' \<and> (2::nat) \<le> 6"
proof -
  have "moves exec_transitions ExecProcessing ExecProcessed" "moves exec_transitions ExecProcessed ExecFinalized"
    by (simp_all add: moves_def succs_def)
  then have "(moves exec_transitions ^^ Suc (Suc 0)) ExecProcessing ExecFinalized"
    by (intro relpowp_Suc_I [OF relpowp_Suc_I [OF relpowp_0_I]])
  then have "(moves exec_transitions ^^ 2) ExecProcessing ExecFinalized"
    by (simp only: numeral_2_eq_2)
  then show ?thesis using exec_lifecycle_ends [of 2] by blast
qed

text \<open>C33. The idempotency test of the task scheduler is reachability in the transition table, and it does
  not depend on the order in which the successors are visited.\<close>

theorem at_or_past_any_order:
  assumes "\<And>s. set (nxt s) = set (succs exec_transitions s)"
  shows "at_or_past_in nxt cur reference = is_state_at_or_past cur reference \<and>
    (is_state_at_or_past cur reference \<longleftrightarrow> moves_star exec_transitions reference cur)"
  using at_or_past_in_iff [OF assms] at_or_past_in_iff [of "succs exec_transitions"]
  by (simp add: is_state_at_or_past_def)

theorem at_or_past_any_order_witness:
  "at_or_past_in (\<lambda>s. rev (succs exec_transitions s)) ExecFailed ExecDefined =
    is_state_at_or_past ExecFailed ExecDefined"
  using at_or_past_any_order [of "\<lambda>s. rev (succs exec_transitions s)" ExecFailed ExecDefined] by simp

end
