(* ===== verification/Json.thy ===== *)
theory Json
  imports Task_Model
begin

text \<open>
  The value level of \<open>encoding/json\<close>: structs become objects with the keys of their \<open>json\<close> tags,
  string enums become strings, times are carried as such. The text of a document is left out: a
  stored or queued document is its value.
\<close>

datatype json =
    JNull | JBool bool | JNum int | JStr string | JTime time | JArr "json list"
  | JObj "(string \<times> json) list"

text \<open>
  An \<open>interface\{\}\<close> argument: its marshalled form, and what the validator says of its struct tags
  (the type is the caller's, so both are data here). \<open>nil\<close> is \<open>None\<close>.
\<close>

record payload =
  pl_json :: json
  pl_valid :: bool

definition payload_valid :: "payload option \<Rightarrow> bool" where
  "payload_valid p = (case p of None \<Rightarrow> True | Some q \<Rightarrow> pl_valid q)"

definition marshal_payload :: "payload option \<Rightarrow> json" where
  "marshal_payload p = (case p of None \<Rightarrow> JNull | Some q \<Rightarrow> pl_json q)"

text \<open>The zero \<open>time.Time\<close> (year 1), which \<open>validate:"required"\<close> rejects.\<close>

definition zero_time :: time where
  "zero_time = - 62135596800 * second"

section \<open>Fields\<close>

text \<open>
  \<open>json.Unmarshal\<close> into a struct: an entry belongs to a field when its key is the field's name up to
  case, and the entries are decoded one after the other, so the last of several wins. An absent key
  or a \<open>null\<close> keeps the value there is, at first the zero value; a value of another kind is an error
  of the whole (\<open>None\<close>). Names are ASCII.
\<close>

fun entries :: "(string \<times> json) list \<Rightarrow> string \<Rightarrow> json list" where
  "entries [] k = []"
| "entries ((k', v) # fs) k = (if to_lower k' = to_lower k then v # entries fs k else entries fs k)"

fun decode_into :: "('a \<Rightarrow> json \<Rightarrow> 'a option) \<Rightarrow> 'a \<Rightarrow> json list \<Rightarrow> 'a option" where
  "decode_into rd x [] = Some x"
| "decode_into rd x (j # js) = (case rd x j of None \<Rightarrow> None | Some y \<Rightarrow> decode_into rd y js)"

fun read_string :: "string \<Rightarrow> json \<Rightarrow> string option" where
  "read_string x JNull = Some x"
| "read_string x (JStr s) = Some s"
| "read_string x _ = None"

fun read_time :: "time \<Rightarrow> json \<Rightarrow> time option" where
  "read_time x JNull = Some x"
| "read_time x (JTime t) = Some t"
| "read_time x _ = None"

text \<open>Into a pointer, \<open>null\<close> writes \<open>nil\<close>.\<close>

fun read_string_ptr :: "string option \<Rightarrow> json \<Rightarrow> string option option" where
  "read_string_ptr x JNull = Some None"
| "read_string_ptr x (JStr s) = Some (Some s)"
| "read_string_ptr x _ = None"

fun read_time_ptr :: "time option \<Rightarrow> json \<Rightarrow> time option option" where
  "read_time_ptr x JNull = Some None"
| "read_time_ptr x (JTime t) = Some (Some t)"
| "read_time_ptr x _ = None"

definition field_string :: "(string \<times> json) list \<Rightarrow> string \<Rightarrow> string option" where
  [simp]: "field_string fs k = decode_into read_string '''' (entries fs k)"

definition field_time :: "(string \<times> json) list \<Rightarrow> string \<Rightarrow> time option" where
  [simp]: "field_time fs k = decode_into read_time zero_time (entries fs k)"

definition field_string_ptr :: "(string \<times> json) list \<Rightarrow> string \<Rightarrow> string option option" where
  [simp]: "field_string_ptr fs k = decode_into read_string_ptr None (entries fs k)"

definition field_time_ptr :: "(string \<times> json) list \<Rightarrow> string \<Rightarrow> time option option" where
  [simp]: "field_time_ptr fs k = decode_into read_time_ptr None (entries fs k)"

text \<open>A \<open>json.RawMessage\<close> takes any value.\<close>

definition field_raw :: "(string \<times> json) list \<Rightarrow> string \<Rightarrow> json option" where
  [simp]: "field_raw fs k = (case entries fs k of [] \<Rightarrow> None | j # js \<Rightarrow> Some (last (j # js)))"

text \<open>The names in the structs' tags are lower-case.\<close>

lemma field_names [simp]:
  "to_lower ''id'' = ''id''"
  "to_lower ''type'' = ''type''"
  "to_lower ''sender'' = ''sender''"
  "to_lower ''timestamp'' = ''timestamp''"
  "to_lower ''task_id'' = ''task_id''"
  "to_lower ''instance_id'' = ''instance_id''"
  "to_lower ''workflow_id'' = ''workflow_id''"
  "to_lower ''step_id'' = ''step_id''"
  "to_lower ''new_step_state'' = ''new_step_state''"
  "to_lower ''new_deadline'' = ''new_deadline''"
  "to_lower ''disposition'' = ''disposition''"
  "to_lower ''created_at'' = ''created_at''"
  "to_lower ''creator'' = ''creator''"
  "to_lower ''subject_type'' = ''subject_type''"
  "to_lower ''subject_id'' = ''subject_id''"
  "to_lower ''metadata'' = ''metadata''"
  "to_lower ''reason'' = ''reason''"
  "to_lower ''receiver'' = ''receiver''"
  "to_lower ''raw_message'' = ''raw_message''"
  by code_simp+

end
