(* ===== verification/Audit_Model.thy ===== *)
theory Audit_Model
  imports Json
begin

text \<open>
  \<open>models/audit.go\<close>: the types of the system events, the typed metadata that goes with each type,
  its wire form, and \<open>parseSystemEventMetadata\<close>.
\<close>

datatype event_type =
    ActivateTask | CompleteTask | FailedTask | CancelledTask | TimedOutTask | DeleteTask
  | InvalidTaskIpcMessage | EngineFailedTask
  | DefineWorkflow | WorkflowRunning | WorkflowComplete | WorkflowFailed | WorkflowTimedOut
  | WorkflowCancelling | WorkflowCancelled | WorkflowDeadlineUpdate | DeleteWorkflow
  | WorkflowStepDefined | WorkflowStepPending | WorkflowStepRunning | WorkflowStepComplete
  | WorkflowStepFailed | WorkflowStepTimedOut | WorkflowStepCancelling | WorkflowStepCancelled

text \<open>The metadata structs, with their fields in the order of the source.\<close>

datatype event_meta =
    TaskEvents ident string  \<comment> \<open>task, creator\<close>
  | WorkflowEvents ident string  \<comment> \<open>workflow, creator\<close>
  | StepEvents ident ident string  \<comment> \<open>step, workflow, creator\<close>
  | EngineFailure ident ident string string  \<comment> \<open>task, instance, reason, creator\<close>
  | InvalidIpc string string string  \<comment> \<open>receiver, raw message, reason\<close>

text \<open>The \<open>validate:"required"\<close> tags.\<close>

fun meta_valid :: "event_meta \<Rightarrow> bool" where
  "meta_valid (TaskEvents t c) = (t \<noteq> [] \<and> c \<noteq> [])"
| "meta_valid (WorkflowEvents w c) = (w \<noteq> [] \<and> c \<noteq> [])"
| "meta_valid (StepEvents s w c) = (s \<noteq> [] \<and> w \<noteq> [] \<and> c \<noteq> [])"
| "meta_valid (EngineFailure t i r c) = (t \<noteq> [] \<and> i \<noteq> [] \<and> c \<noteq> [])"
| "meta_valid (InvalidIpc rc raw r) = (rc \<noteq> [])"

fun meta_json :: "event_meta \<Rightarrow> json" where
  "meta_json (TaskEvents t c) = JObj [(''task_id'', JStr t), (''creator'', JStr c)]"
| "meta_json (WorkflowEvents w c) = JObj [(''workflow_id'', JStr w), (''creator'', JStr c)]"
| "meta_json (StepEvents s w c) =
     JObj [(''step_id'', JStr s), (''workflow_id'', JStr w), (''creator'', JStr c)]"
| "meta_json (EngineFailure t i r c) =
     JObj [(''task_id'', JStr t), (''instance_id'', JStr i), (''reason'', JStr r),
       (''creator'', JStr c)]"
| "meta_json (InvalidIpc rc raw r) =
     JObj [(''receiver'', JStr rc), (''raw_message'', JStr raw), (''reason'', JStr r)]"

datatype meta_kind = TaskMeta | WorkflowMeta | StepMeta | EngineMeta | InvalidMeta

text \<open>The switch over the event type: every type belongs to one struct.\<close>

fun kind_of_type :: "event_type \<Rightarrow> meta_kind" where
  "kind_of_type ActivateTask = TaskMeta"
| "kind_of_type CompleteTask = TaskMeta"
| "kind_of_type FailedTask = TaskMeta"
| "kind_of_type CancelledTask = TaskMeta"
| "kind_of_type TimedOutTask = TaskMeta"
| "kind_of_type DeleteTask = TaskMeta"
| "kind_of_type InvalidTaskIpcMessage = InvalidMeta"
| "kind_of_type EngineFailedTask = EngineMeta"
| "kind_of_type DefineWorkflow = WorkflowMeta"
| "kind_of_type WorkflowRunning = WorkflowMeta"
| "kind_of_type WorkflowComplete = WorkflowMeta"
| "kind_of_type WorkflowFailed = WorkflowMeta"
| "kind_of_type WorkflowTimedOut = WorkflowMeta"
| "kind_of_type WorkflowCancelling = WorkflowMeta"
| "kind_of_type WorkflowCancelled = WorkflowMeta"
| "kind_of_type WorkflowDeadlineUpdate = WorkflowMeta"
| "kind_of_type DeleteWorkflow = WorkflowMeta"
| "kind_of_type _ = StepMeta"

fun kind_of_meta :: "event_meta \<Rightarrow> meta_kind" where
  "kind_of_meta (TaskEvents _ _) = TaskMeta"
| "kind_of_meta (WorkflowEvents _ _) = WorkflowMeta"
| "kind_of_meta (StepEvents _ _ _) = StepMeta"
| "kind_of_meta (EngineFailure _ _ _ _) = EngineMeta"
| "kind_of_meta (InvalidIpc _ _ _) = InvalidMeta"

text \<open>\<open>json.Unmarshal\<close> into the struct of a kind: \<open>null\<close> leaves it empty.\<close>

definition decode_meta :: "meta_kind \<Rightarrow> (string \<times> json) list \<Rightarrow> event_meta option" where
  "decode_meta k fs =
     (case k of
        TaskMeta \<Rightarrow>
          (case (field_string fs ''task_id'', field_string fs ''creator'') of
             (Some t, Some c) \<Rightarrow> Some (TaskEvents t c) | _ \<Rightarrow> None)
      | WorkflowMeta \<Rightarrow>
          (case (field_string fs ''workflow_id'', field_string fs ''creator'') of
             (Some w, Some c) \<Rightarrow> Some (WorkflowEvents w c) | _ \<Rightarrow> None)
      | StepMeta \<Rightarrow>
          (case (field_string fs ''step_id'', field_string fs ''workflow_id'',
                 field_string fs ''creator'') of
             (Some s, Some w, Some c) \<Rightarrow> Some (StepEvents s w c) | _ \<Rightarrow> None)
      | EngineMeta \<Rightarrow>
          (case (field_string fs ''task_id'', field_string fs ''instance_id'',
                 field_string fs ''reason'', field_string fs ''creator'') of
             (Some t, Some i, Some r, Some c) \<Rightarrow> Some (EngineFailure t i r c) | _ \<Rightarrow> None)
      | InvalidMeta \<Rightarrow>
          (case (field_string fs ''receiver'', field_string fs ''raw_message'',
                 field_string fs ''reason'') of
             (Some rc, Some raw, Some r) \<Rightarrow> Some (InvalidIpc rc raw r) | _ \<Rightarrow> None))"

fun parse_event_metadata :: "event_type \<Rightarrow> json \<Rightarrow> goerr + event_meta" where
  "parse_event_metadata ty (JObj fs) =
     (case decode_meta (kind_of_type ty) fs of
        None \<Rightarrow> Inl (wrapped ConsistencyError (leaf DecodeError))
      | Some m \<Rightarrow>
          if meta_valid m then Inr m else Inl (wrapped ValidationError (leaf ValidatorError)))"
| "parse_event_metadata ty JNull = Inl (wrapped ValidationError (leaf ValidatorError))"
| "parse_event_metadata ty _ = Inl (wrapped ConsistencyError (leaf DecodeError))"

text \<open>Metadata written for an event type is read back as it was: the parse of the wire form
  returns the struct exactly when the struct is the one of the type and its required fields are
  filled.\<close>

theorem parse_event_metadata_roundtrip:
  "parse_event_metadata ty (meta_json m) = Inr m \<longleftrightarrow>
     kind_of_type ty = kind_of_meta m \<and> meta_valid m"
  by (cases m; cases "kind_of_type ty") (auto simp: decode_meta_def)

end
