(* ===== verification/Dag.thy ===== *)
theory Dag
  imports Prelude
begin

text \<open>
  In-degree counting over a dependency graph: the loop body shared by the validation of a new
  workflow (\<open>models/workflow.go\<close>, \<open>IsValid\<close>) and by the topological listing of its steps
  (\<open>db/workflow.go\<close>, \<open>ListWorkflowSteps\<close>), with the invariant both loops keep.
\<close>

section \<open>In-degrees\<close>

text \<open>A Go \<open>map[string]int\<close>: a missing key reads as zero, a later entry hides an earlier one.\<close>

type_synonym 'n degrees = "('n \<times> int) list"

definition deg :: "'n degrees \<Rightarrow> 'n \<Rightarrow> int" where
  "deg d n = (case map_of d n of None \<Rightarrow> 0 | Some k \<Rightarrow> k)"

lemma deg_Nil [simp]: "deg [] n = 0"
  by (simp add: deg_def)

lemma deg_Cons [simp]: "deg ((m, k) # d) n = (if m = n then k else deg d n)"
  by (simp add: deg_def)

text \<open>\<open>inDegree[child]--\<close>, then queue the child when its count reaches zero.\<close>

fun dec_children :: "'n list \<Rightarrow> 'n degrees \<Rightarrow> 'n list \<Rightarrow> 'n degrees \<times> 'n list" where
  "dec_children [] d q = (d, q)"
| "dec_children (c # cs) d q =
     (let d' = (c, deg d c - 1) # d
      in dec_children cs d' (if deg d' c = 0 then q @ [c] else q))"

lemma dec_children_result:
  assumes "distinct cs"
  shows "snd (dec_children cs d q) = q @ filter (\<lambda>x. deg d x = 1) cs \<and>
    deg (fst (dec_children cs d q)) x = deg d x - (if x \<in> set cs then 1 else 0)"
  using assms
proof (induction cs d q rule: dec_children.induct)
  case (1 d q)
  then show ?case by simp
next
  case (2 c cs d q)
  let ?d = "(c, deg d c - 1) # d"
  have "filter (\<lambda>x. deg ?d x = 1) cs = filter (\<lambda>x. deg d x = 1) cs"
    using "2.prems" by (intro filter_cong) auto
  with 2 show ?case by (auto simp: Let_def)
qed

text \<open>The nodes still waiting for a parent: the measure of both loops.\<close>

definition waiting :: "'n degrees \<Rightarrow> 'n set" where
  "waiting d = {n \<in> fst ` set d. deg d n > 0}"

lemma finite_waiting [simp]: "finite (waiting d)"
  by (simp add: waiting_def)

lemma waiting_iff: "n \<in> waiting d \<longleftrightarrow> deg d n > 0"
proof -
  have "deg d n > 0 \<Longrightarrow> n \<in> fst ` set d"
    by (cases "map_of d n") (force simp: deg_def dest: map_of_SomeD)+
  then show ?thesis by (auto simp: waiting_def)
qed

lemma dec_children_measure:
  "dec_children cs d q = (d', q') \<Longrightarrow>
    length q' + card (waiting d') \<le> length q + card (waiting d)"
proof (induction cs d q rule: dec_children.induct)
  case (1 d q)
  then show ?case by simp
next
  case (2 c cs d q)
  let ?d = "(c, deg d c - 1) # d"
  have "waiting ?d = (if deg d c = 1 then waiting d - {c} else waiting d)"
    by (auto simp: waiting_iff set_eq_iff)
  moreover have "deg d c = 1 \<Longrightarrow> Suc (card (waiting d - {c})) = card (waiting d)"
    using card_Suc_Diff1 [of "waiting d" c] by (simp add: waiting_iff del: card_Diff_singleton)
  ultimately have "length (if deg ?d c = 0 then q @ [c] else q) + card (waiting ?d)
      \<le> length q + card (waiting d)"
    by auto
  moreover have "length q' + card (waiting d')
      \<le> length (if deg ?d c = 0 then q @ [c] else q) + card (waiting ?d)"
    using "2.IH" [OF refl] "2.prems" by (simp add: Let_def)
  ultimately show ?case by linarith
qed

section \<open>The invariant\<close>

definition topo :: "('n \<Rightarrow> 'n set) \<Rightarrow> 'n list \<Rightarrow> bool" where
  "topo par p \<longleftrightarrow> (\<forall>i < length p. par (p ! i) \<subseteq> set (take i p))"

definition dep_edges :: "'n set \<Rightarrow> ('n \<Rightarrow> 'n set) \<Rightarrow> ('n \<times> 'n) set" where
  "dep_edges nodes par = {(p, n). n \<in> nodes \<and> p \<in> par n}"

definition graph_ok :: "'n set \<Rightarrow> ('n \<Rightarrow> 'n set) \<Rightarrow> ('n \<Rightarrow> 'n list) \<Rightarrow> bool" where
  "graph_ok nodes par children \<longleftrightarrow> finite nodes \<and> (\<forall>n \<in> nodes. par n \<subseteq> nodes) \<and>
     (\<forall>p. distinct (children p) \<and> set (children p) = {n \<in> nodes. p \<in> par n})"

text \<open>\<open>p\<close> are the nodes already emitted, \<open>q\<close> those queued.\<close>

definition kahn_inv :: "'n set \<Rightarrow> ('n \<Rightarrow> 'n set) \<Rightarrow> 'n list \<Rightarrow> 'n list \<Rightarrow> 'n degrees \<Rightarrow> bool" where
  "kahn_inv nodes par p q d \<longleftrightarrow> distinct (p @ q) \<and> set (p @ q) \<subseteq> nodes \<and>
     (\<forall>n \<in> nodes. deg d n = int (card (par n - set p))) \<and>
     (\<forall>n \<in> nodes. n \<in> set (p @ q) \<longleftrightarrow> par n \<subseteq> set p) \<and> topo par p"

lemma topo_Nil [simp]: "topo par []"
  by (simp add: topo_def)

lemma topo_snoc: "topo par (p @ [c]) \<longleftrightarrow> topo par p \<and> par c \<subseteq> set p"
  by (auto simp: topo_def less_Suc_eq nth_append)

lemma kahn_inv_perm: "kahn_inv nodes par p q d \<Longrightarrow> distinct q' \<Longrightarrow> set q' = set q \<Longrightarrow>
    kahn_inv nodes par p q' d"
  by (simp add: kahn_inv_def)

lemma kahn_inv_start:
  assumes "finite nodes" "\<And>n. n \<in> nodes \<Longrightarrow> finite (par n)"
    and "\<And>n. n \<in> nodes \<Longrightarrow> deg d n = int (card (par n))"
    and "distinct q" "set q = {n \<in> nodes. par n = {}}"
  shows "kahn_inv nodes par [] q d"
  using assms by (auto simp: kahn_inv_def)

lemma kahn_inv_step:
  assumes ok: "graph_ok nodes par children"
    and inv: "kahn_inv nodes par p (c # q) d"
    and run: "dec_children (children c) d q = (d', q')"
  shows "kahn_inv nodes par (p @ [c]) q' d'"
proof -
  have ch: "distinct (children c)" "set (children c) = {n \<in> nodes. c \<in> par n}"
    using ok by (auto simp: graph_ok_def)
  have q': "q' = q @ filter (\<lambda>x. deg d x = 1) (children c)"
    and d': "\<And>x. deg d' x = deg d x - (if x \<in> set (children c) then 1 else 0)"
    using dec_children_result [OF ch(1), of d q] run by auto
  have dist: "distinct (p @ c # q)" and sub: "set (p @ c # q) \<subseteq> nodes"
    and dg: "\<And>n. n \<in> nodes \<Longrightarrow> deg d n = int (card (par n - set p))"
    and mem: "\<And>n. n \<in> nodes \<Longrightarrow> n \<in> set (p @ c # q) \<longleftrightarrow> par n \<subseteq> set p"
    and tp: "topo par p"
    using inv by (auto simp: kahn_inv_def)
  have fin: "finite (par n)" if "n \<in> nodes" for n
    using ok that finite_subset by (auto simp: graph_ok_def)
  have c: "c \<in> nodes" "c \<notin> set p" "par c \<subseteq> set p"
    using sub dist mem [of c] by auto
  have drop: "par n - set (p @ [c]) = (par n - set p) - {c}" for n by auto
  have card: "int (card (par n - set (p @ [c]))) = deg d' n" if n: "n \<in> nodes" for n
  proof (cases "c \<in> par n")
    case True
    then have "Suc (card ((par n - set p) - {c})) = card (par n - set p)"
      using c fin [OF n] by (intro card_Suc_Diff1) auto
    with True n ch(2) d' [of n] dg [OF n] drop [of n] show ?thesis by simp
  next
    case False
    with n ch(2) d' [of n] dg [OF n] drop [of n] show ?thesis by simp
  qed
  have fresh: "n \<notin> set (p @ c # q)" if "n \<in> nodes" "c \<in> par n" for n
    using mem [OF that(1)] that(2) c(2) by auto
  have one: "deg d n = 1 \<longleftrightarrow> par n \<subseteq> set (p @ [c])" if "n \<in> nodes" "c \<in> par n" for n
  proof -
    have "deg d n = 1 \<longleftrightarrow> card (par n - set (p @ [c])) = 0"
      using card [OF that(1)] d' [of n] ch(2) that by (simp del: set_append) linarith
    then show ?thesis using fin [OF that(1)] by auto
  qed
  show ?thesis
    unfolding kahn_inv_def
  proof (intro conjI ballI)
    show "distinct ((p @ [c]) @ q')"
      using dist ch fresh by (auto simp: q')
    show "set ((p @ [c]) @ q') \<subseteq> nodes"
      using sub ch by (auto simp: q')
    show "deg d' n = int (card (par n - set (p @ [c])))" if "n \<in> nodes" for n
      using card [OF that] by simp
    show "topo par (p @ [c])"
      using tp c by (simp add: topo_snoc)
    show "n \<in> set ((p @ [c]) @ q') \<longleftrightarrow> par n \<subseteq> set (p @ [c])" if n: "n \<in> nodes" for n
    proof (cases "c \<in> par n")
      case True
      with fresh [OF n True] one [OF n True] n ch(2) show ?thesis by (auto simp: q')
    next
      case False
      then have "par n \<subseteq> set (p @ [c]) \<longleftrightarrow> par n \<subseteq> set p" by auto
      moreover have "n \<notin> set (filter (\<lambda>x. deg d x = 1) (children c))" using False ch(2) by auto
      ultimately show ?thesis using mem [OF n] by (auto simp: q')
    qed
  qed
qed

section \<open>What the loop decides\<close>

lemma kahn_end_acyclic:
  assumes ok: "graph_ok nodes par children" and inv: "kahn_inv nodes par p [] d"
    and ac: "acyclic (dep_edges nodes par)"
  shows "set p = nodes"
proof (rule ccontr)
  assume "set p \<noteq> nodes"
  with inv obtain n where n: "n \<in> nodes - set p" by (auto simp: kahn_inv_def)
  have "dep_edges nodes par \<subseteq> nodes \<times> nodes" "finite nodes"
    using ok by (auto simp: dep_edges_def graph_ok_def)
  then have "finite (dep_edges nodes par)" by (blast intro: finite_subset)
  with ac have "wf (dep_edges nodes par)" by (simp add: finite_acyclic_wf)
  then obtain m where m: "m \<in> nodes - set p"
    and min: "\<And>y. (y, m) \<in> dep_edges nodes par \<Longrightarrow> y \<notin> nodes - set p"
    using n by (rule wfE_min) blast
  then have "par m \<subseteq> set p" using ok by (auto simp: dep_edges_def graph_ok_def)
  with m inv show False by (auto simp: kahn_inv_def)
qed

lemma length_takeWhile_take: "x \<in> set (take i p) \<Longrightarrow> length (takeWhile (\<lambda>y. y \<noteq> x) p) < i"
proof (induction p arbitrary: i)
  case Nil
  then show ?case by simp
next
  case (Cons a p)
  then show ?case by (cases i) auto
qed

lemma topo_before:
  assumes "topo par p" "n \<in> set p" "x \<in> par n"
  shows "length (takeWhile (\<lambda>y. y \<noteq> x) p) < length (takeWhile (\<lambda>y. y \<noteq> n) p)"
proof -
  let ?i = "length (takeWhile (\<lambda>y. y \<noteq> n) p)"
  have i: "?i < length p" using length_takeWhile_take [of n "length p" p] assms(2) by simp
  then have "p ! ?i = n" using nth_length_takeWhile [of "\<lambda>y. y \<noteq> n" p] by simp
  moreover have "par (p ! ?i) \<subseteq> set (take ?i p)" using assms(1) i unfolding topo_def by blast
  ultimately have "x \<in> set (take ?i p)" using assms(3) by auto
  then show ?thesis by (rule length_takeWhile_take)
qed

lemma topo_acyclic:
  assumes "topo par p" "set p = nodes"
  shows "acyclic (dep_edges nodes par)"
proof -
  let ?rank = "\<lambda>x. length (takeWhile (\<lambda>y. y \<noteq> x) p)"
  have "(x, n) \<in> (dep_edges nodes par)\<^sup>+ \<Longrightarrow> ?rank x < ?rank n" for x n
  proof (induction rule: trancl_induct)
    case (base n)
    then show ?case using topo_before [OF assms(1)] assms(2) by (auto simp: dep_edges_def)
  next
    case (step m n)
    then have "?rank m < ?rank n"
      using topo_before [OF assms(1)] assms(2) by (auto simp: dep_edges_def)
    with step show ?case by simp
  qed
  then show ?thesis by (auto simp: acyclic_def)
qed

lemma kahn_end:
  assumes ok: "graph_ok nodes par children" and inv: "kahn_inv nodes par p [] d"
  shows "length p = card nodes \<longleftrightarrow> acyclic (dep_edges nodes par)"
proof
  assume "acyclic (dep_edges nodes par)"
  then have "set p = nodes" by (rule kahn_end_acyclic [OF ok inv])
  with inv show "length p = card nodes" by (auto simp: kahn_inv_def distinct_card)
next
  assume len: "length p = card nodes"
  have "card (set p) = card nodes" "set p \<subseteq> nodes" "finite nodes"
    using inv len ok by (auto simp: kahn_inv_def distinct_card graph_ok_def)
  then have "set p = nodes" by (simp add: card_subset_eq)
  moreover have "topo par p" using inv by (simp add: kahn_inv_def)
  ultimately show "acyclic (dep_edges nodes par)" by (intro topo_acyclic)
qed

lemma kahn_length_le:
  "graph_ok nodes par children \<Longrightarrow> kahn_inv nodes par p q d \<Longrightarrow> length p \<le> card nodes"
  by (auto simp: kahn_inv_def graph_ok_def simp flip: distinct_card intro!: card_mono)

end
