(* ===== verification/Workflow_Model.thy ===== *)
theory Workflow_Model
  imports Json Dag
begin

text \<open>
  \<open>models/workflow.go\<close>: the workflow and step state machines, the specification of a new workflow
  and the check that its dependencies form a DAG, and the parameter of a step's task.
\<close>

section \<open>Workflow states\<close>

definition wf_task_creator :: string where
  "wf_task_creator = ''__TASKING_WORKFLOW_ENGINE_SCHEDULER__''"

definition wf_task_name :: string where
  "wf_task_name = ''__EXECUTE_WORKFLOW_STEP__''"

datatype workflow_state =
  WfPending | WfRunning | WfComplete | WfFailed | WfTimedOut | WfCancelling | WfCancelled

fun workflow_transitions :: "workflow_state \<Rightarrow> workflow_state list option" where
  "workflow_transitions WfPending = Some [WfRunning, WfCancelling]"
| "workflow_transitions WfRunning = Some [WfComplete, WfFailed, WfTimedOut, WfCancelling]"
| "workflow_transitions WfFailed = Some [WfRunning, WfCancelling]"
| "workflow_transitions WfTimedOut = Some [WfRunning, WfCancelling]"
| "workflow_transitions WfCancelling = Some [WfCancelled]"
| "workflow_transitions _ = None"

definition workflow_valid_next_state :: "workflow_state \<Rightarrow> workflow_state \<Rightarrow> goerr + unit" where
  "workflow_valid_next_state s new =
     (case workflow_transitions s of
        None \<Rightarrow> Inl (leaf ConsistencyError)
      | Some ts \<Rightarrow> if new \<in> set ts then Inr () else Inl (leaf ConsistencyError))"

interpretation workflow_machine: state_machine workflow_transitions workflow_valid_next_state
  by unfold_locales
    (auto simp: workflow_valid_next_state_def moves_def succs_def split: option.splits if_splits)

section \<open>Step states\<close>

datatype step_state =
  StepDefined | StepPending | StepRunning | StepComplete | StepFailed | StepTimedOut
| StepCancelling | StepCancelled

fun step_transitions :: "step_state \<Rightarrow> step_state list option" where
  "step_transitions StepDefined = Some [StepPending, StepTimedOut, StepCancelled]"
| "step_transitions StepPending = Some [StepRunning, StepTimedOut, StepCancelled]"
| "step_transitions StepRunning = Some [StepComplete, StepFailed, StepTimedOut, StepCancelling]"
| "step_transitions StepFailed = Some [StepDefined, StepCancelled]"
| "step_transitions StepTimedOut = Some [StepDefined, StepCancelled]"
| "step_transitions StepCancelling = Some [StepCancelled]"
| "step_transitions _ = None"

definition step_valid_next_state :: "step_state \<Rightarrow> step_state \<Rightarrow> goerr + unit" where
  "step_valid_next_state s new =
     (case step_transitions s of
        None \<Rightarrow> Inl (leaf ConsistencyError)
      | Some ts \<Rightarrow> if new \<in> set ts then Inr () else Inl (leaf ConsistencyError))"

interpretation step_machine: state_machine step_transitions step_valid_next_state
  by unfold_locales
    (auto simp: step_valid_next_state_def moves_def succs_def split: option.splits if_splits)

section \<open>The specification of a new workflow\<close>

record new_step =
  ns_name :: string
  ns_type :: string
  ns_parameters :: "payload option"
  ns_metadata :: "payload option"
  ns_retry :: retry_params
  ns_parents :: "string list"  \<comment> \<open>keys of \<open>ParentSteps\<close> in one iteration order\<close>

record new_workflow =
  nw_name :: string
  nw_metadata :: "payload option"
  nw_deadline :: time
  nw_steps :: "(string \<times> new_step) list"  \<comment> \<open>entries of \<open>Steps\<close> in one iteration order\<close>

definition new_step_valid :: "new_step \<Rightarrow> bool" where
  "new_step_valid s \<longleftrightarrow> ns_name s \<noteq> [] \<and> ns_type s \<noteq> [] \<and> valid_retry (ns_retry s)"

definition new_workflow_valid :: "new_workflow \<Rightarrow> bool" where
  "new_workflow_valid w \<longleftrightarrow> nw_name w \<noteq> [] \<and> nw_deadline w \<noteq> zero_time \<and> nw_steps w \<noteq> [] \<and>
     list_all (\<lambda>(_, s). new_step_valid s) (nw_steps w)"

text \<open>The state of the first loop of \<open>IsValid\<close>.\<close>

record dag_input =
  in_degree :: "string degrees"
  process_queue :: "string list"
  child_of :: "string \<Rightarrow> string list"

text \<open>The inner loop over \<open>oneStep.ParentSteps\<close>.\<close>

fun add_parents ::
  "string list \<Rightarrow> string \<Rightarrow> string list \<Rightarrow> (string \<Rightarrow> string list) \<Rightarrow> goerr + (string \<Rightarrow> string list)"
where
  "add_parents keys name [] ch = Inr ch"
| "add_parents keys name (p # ps) ch =
     (if p = name then Inl (leaf ConsistencyError)
      else if p \<notin> set keys then Inl (leaf ConsistencyError)
      else add_parents keys name ps (ch(p := ch p @ [name])))"

fun scan_steps ::
  "string list \<Rightarrow> (string \<times> new_step) list \<Rightarrow> dag_input \<Rightarrow> goerr + dag_input"
where
  "scan_steps keys [] a = Inr a"
| "scan_steps keys ((k, s) # rest) a =
     (if k \<noteq> ns_name s then Inl (leaf ConsistencyError)
      else case add_parents keys (ns_name s) (ns_parents s) (child_of a) of
          Inl e \<Rightarrow> Inl e
        | Inr ch \<Rightarrow>
            let n = length (ns_parents s) in
            scan_steps keys rest
              (a\<lparr>child_of := ch,
                 process_queue := (if n = 0 then process_queue a @ [ns_name s] else process_queue a),
                 in_degree := (ns_name s, int n) # in_degree a\<rparr>))"

text \<open>The second loop: the number of steps taken off the queue.\<close>

function (sequential) count_processed ::
  "('n \<Rightarrow> 'n list) \<Rightarrow> 'n degrees \<Rightarrow> 'n list \<Rightarrow> nat \<Rightarrow> nat"
where
  "count_processed ch d [] k = k"
| "count_processed ch d (c # q) k =
     (case dec_children (ch c) d q of (d', q') \<Rightarrow> count_processed ch d' q' (Suc k))"
  by pat_completeness auto
termination
  by (relation "measure (\<lambda>(ch, d, q, k). length q + card (waiting d))")
    (auto dest!: dec_children_measure [OF sym])

definition is_valid :: "new_workflow \<Rightarrow> goerr + unit" where
  "is_valid w =
     (if \<not> new_workflow_valid w then Inl (wrapped ValidationError (leaf ValidatorError))
      else
        case scan_steps (map fst (nw_steps w)) (nw_steps w)
          \<lparr>in_degree = [], process_queue = [], child_of = (\<lambda>_. [])\<rparr> of
          Inl e \<Rightarrow> Inl e
        | Inr a \<Rightarrow>
            if count_processed (child_of a) (in_degree a) (process_queue a) 0 < length (nw_steps w)
            then Inl (leaf ConsistencyError) else Inr ())"

section \<open>What the check decides\<close>

text \<open>The specification: names match keys, parents are other steps, the dependencies are acyclic.\<close>

definition spec_parents :: "(string \<times> new_step) list \<Rightarrow> string \<Rightarrow> string set" where
  "spec_parents ss n = (case map_of ss n of None \<Rightarrow> {} | Some s \<Rightarrow> set (ns_parents s))"

definition steps_wf :: "(string \<times> new_step) list \<Rightarrow> bool" where
  "steps_wf ss \<longleftrightarrow> (\<forall>(k, s) \<in> set ss. k = ns_name s \<and> k \<notin> set (ns_parents s) \<and>
     set (ns_parents s) \<subseteq> fst ` set ss)"

definition spec_is_dag :: "(string \<times> new_step) list \<Rightarrow> bool" where
  "spec_is_dag ss \<longleftrightarrow> steps_wf ss \<and> acyclic (dep_edges (fst ` set ss) (spec_parents ss))"

text \<open>A Go map has distinct keys.\<close>

definition maps_ok :: "new_workflow \<Rightarrow> bool" where
  "maps_ok w \<longleftrightarrow> distinct (map fst (nw_steps w)) \<and>
     (\<forall>(_, s) \<in> set (nw_steps w). distinct (ns_parents s))"

lemma add_parents_result:
  "distinct ps \<Longrightarrow> add_parents keys name ps ch =
     (if name \<in> set ps \<or> \<not> set ps \<subseteq> set keys then Inl (leaf ConsistencyError)
      else Inr (\<lambda>p. if p \<in> set ps then ch p @ [name] else ch p))"
  by (induction keys name ps ch rule: add_parents.induct) (auto simp: fun_eq_iff)

definition scanned :: "(string \<times> new_step) list \<Rightarrow> dag_input \<Rightarrow> dag_input \<Rightarrow> bool" where
  "scanned ss a b \<longleftrightarrow>
     (\<forall>n. deg (in_degree b) n =
        (case map_of ss n of None \<Rightarrow> deg (in_degree a) n | Some s \<Rightarrow> int (length (ns_parents s)))) \<and>
     process_queue b = process_queue a @ map fst (filter (\<lambda>(_, s). ns_parents s = []) ss) \<and>
     (\<forall>p. child_of b p = child_of a p @ map fst (filter (\<lambda>(_, s). p \<in> set (ns_parents s)) ss))"

lemma scan_steps_result:
  assumes "distinct (map fst ss)" "\<forall>(_, s) \<in> set ss. distinct (ns_parents s)"
  shows "case scan_steps keys ss a of
      Inl e \<Rightarrow> e = leaf ConsistencyError \<and> \<not> (\<forall>(k, s) \<in> set ss. k = ns_name s \<and>
        k \<notin> set (ns_parents s) \<and> set (ns_parents s) \<subseteq> set keys)
    | Inr b \<Rightarrow> (\<forall>(k, s) \<in> set ss. k = ns_name s \<and> k \<notin> set (ns_parents s) \<and>
        set (ns_parents s) \<subseteq> set keys) \<and> scanned ss a b"
  using assms
proof (induction keys ss a rule: scan_steps.induct)
  case (1 keys a)
  then show ?case by (simp add: scanned_def)
next
  case (2 keys k s rest a)
  let ?bad = "ns_name s \<in> set (ns_parents s) \<or> \<not> set (ns_parents s) \<subseteq> set keys"
  have add: "add_parents keys (ns_name s) (ns_parents s) (child_of a) =
      (if ?bad then Inl (leaf ConsistencyError)
       else Inr (\<lambda>p. if p \<in> set (ns_parents s) then child_of a p @ [ns_name s] else child_of a p))"
    using "2.prems" by (intro add_parents_result) simp
  show ?case
  proof (cases "k \<noteq> ns_name s \<or> ?bad")
    case True
    then show ?thesis by (auto simp: add)
  next
    case False
    let ?n = "length (ns_parents s)"
    let ?b = "a\<lparr>child_of := (\<lambda>p. if p \<in> set (ns_parents s) then child_of a p @ [ns_name s]
          else child_of a p),
        process_queue := (if ?n = 0 then process_queue a @ [ns_name s] else process_queue a),
        in_degree := (ns_name s, int ?n) # in_degree a\<rparr>"
    have run: "scan_steps keys ((k, s) # rest) a = scan_steps keys rest ?b"
      using False by (simp add: add Let_def)
    have step: "scanned ((k, s) # rest) a c" if "scanned rest ?b c" for c
    proof -
      have "map_of rest k = None" using "2.prems" by (simp add: map_of_eq_None_iff)
      with that False show ?thesis by (auto simp: scanned_def split: option.splits)
    qed
    have IH: "case scan_steps keys rest ?b of
        Inl e \<Rightarrow> e = leaf ConsistencyError \<and> \<not> (\<forall>(k, s) \<in> set rest. k = ns_name s \<and>
          k \<notin> set (ns_parents s) \<and> set (ns_parents s) \<subseteq> set keys)
      | Inr b \<Rightarrow> (\<forall>(k, s) \<in> set rest. k = ns_name s \<and> k \<notin> set (ns_parents s) \<and>
          set (ns_parents s) \<subseteq> set keys) \<and> scanned rest ?b b"
      using False "2.prems" add by (intro "2.IH") auto
    show ?thesis
    proof (cases "scan_steps keys rest ?b")
      case (Inl e)
      with IH show ?thesis unfolding run by fastforce
    next
      case (Inr c)
      with IH have "scanned ((k, s) # rest) a c" by (intro step) simp
      moreover have "k = ns_name s \<and> k \<notin> set (ns_parents s) \<and> set (ns_parents s) \<subseteq> set keys"
        using False by blast
      ultimately show ?thesis using IH Inr unfolding run by (auto split: if_splits)
    qed
  qed
qed

lemma count_processed_result:
  assumes "graph_ok nodes par ch" "kahn_inv nodes par p q d"
  shows "\<exists>p' d'. kahn_inv nodes par p' [] d' \<and> count_processed ch d q k + length p = k + length p'"
  using assms
proof (induction ch d q k arbitrary: p rule: count_processed.induct)
  case (1 ch d k)
  have "count_processed ch d [] k + length p = k + length p" by simp
  with "1.prems"(2) show ?case by blast
next
  case (2 ch d c q k)
  obtain d' q' where run: "dec_children (ch c) d q = (d', q')"
    by (rule prod.exhaust)
  have "kahn_inv nodes par (p @ [c]) q' d'" by (rule kahn_inv_step [OF "2.prems" run])
  from "2.IH" [OF run [symmetric] "2.prems"(1) this] obtain p' d'' where
    "kahn_inv nodes par p' [] d''"
    "count_processed ch d' q' (Suc k) + length (p @ [c]) = Suc k + length p'" by blast
  with run show ?case by (intro exI [of _ p'] exI [of _ d'']) simp
qed

lemma spec_parents_of:
  "distinct (map fst ss) \<Longrightarrow> (n, s) \<in> set ss \<Longrightarrow> spec_parents ss n = set (ns_parents s)"
  by (simp add: spec_parents_def)

lemma is_valid_graph_ok:
  assumes "maps_ok w" "steps_wf (nw_steps w)" "\<And>p. ch p = map fst (filter (\<lambda>(_, s). p \<in> set (ns_parents s)) (nw_steps w))"
  shows "graph_ok (fst ` set (nw_steps w)) (spec_parents (nw_steps w)) ch"
  unfolding graph_ok_def
proof (intro conjI ballI allI)
  let ?ss = "nw_steps w"
  have dist: "distinct (map fst ?ss)" using assms(1) by (simp add: maps_ok_def)
  show "finite (fst ` set ?ss)" by simp
  show "spec_parents ?ss n \<subseteq> fst ` set ?ss" if "n \<in> fst ` set ?ss" for n
    using that assms(2) by (auto simp: spec_parents_def steps_wf_def split: option.splits dest!: map_of_SomeD)
  show "distinct (ch p)" for p
    using dist by (simp add: assms(3) distinct_map_filter)
  show "set (ch p) = {n \<in> fst ` set ?ss. p \<in> spec_parents ?ss n}" for p
    using spec_parents_of [OF dist] by (auto simp: assms(3))
qed

lemma is_valid_start:
  assumes "maps_ok w" "scanned (nw_steps w) \<lparr>in_degree = [], process_queue = [], child_of = (\<lambda>_. [])\<rparr> a"
  shows "kahn_inv (fst ` set (nw_steps w)) (spec_parents (nw_steps w)) [] (process_queue a) (in_degree a)"
proof (rule kahn_inv_start)
  let ?ss = "nw_steps w"
  have dist: "distinct (map fst ?ss)" and par: "\<And>k s. (k, s) \<in> set ?ss \<Longrightarrow> distinct (ns_parents s)"
    using assms(1) by (auto simp: maps_ok_def)
  have q: "process_queue a = map fst (filter (\<lambda>(_, s). ns_parents s = []) ?ss)"
    using assms(2) by (simp add: scanned_def)
  show "finite (fst ` set ?ss)" by simp
  show "finite (spec_parents ?ss n)" for n by (simp add: spec_parents_def split: option.splits)
  show "deg (in_degree a) n = int (card (spec_parents ?ss n))" if "n \<in> fst ` set ?ss" for n
  proof -
    from that obtain s where s: "(n, s) \<in> set ?ss" by auto
    then have "deg (in_degree a) n = int (length (ns_parents s))"
      using assms(2) dist by (simp add: scanned_def)
    then show ?thesis using spec_parents_of [OF dist s] par [OF s] by (simp add: distinct_card)
  qed
  show "distinct (process_queue a)" using dist by (simp add: q distinct_map_filter)
  show "set (process_queue a) = {n \<in> fst ` set ?ss. spec_parents ?ss n = {}}"
    using spec_parents_of [OF dist] by (auto simp: q)
qed

lemma is_valid_iff:
  assumes "maps_ok w"
  shows "is_valid w = Inr () \<longleftrightarrow> new_workflow_valid w \<and> spec_is_dag (nw_steps w)"
proof (cases "new_workflow_valid w")
  case False
  then show ?thesis by (simp add: is_valid_def)
next
  case valid: True
  let ?ss = "nw_steps w"
  let ?a0 = "\<lparr>in_degree = [], process_queue = [], child_of = (\<lambda>_. [])\<rparr>"
  note scan = scan_steps_result [of ?ss "map fst ?ss" ?a0]
  show ?thesis
  proof (cases "scan_steps (map fst ?ss) ?ss ?a0")
    case (Inl e)
    with scan assms have "\<not> steps_wf ?ss" by (auto simp: maps_ok_def steps_wf_def)
    with Inl valid show ?thesis by (simp add: is_valid_def spec_is_dag_def)
  next
    case (Inr a)
    with scan assms have wf: "steps_wf ?ss" and a: "scanned ?ss ?a0 a"
      by (auto simp: maps_ok_def steps_wf_def)
    let ?nodes = "fst ` set ?ss" and ?par = "spec_parents ?ss"
    have ok: "graph_ok ?nodes ?par (child_of a)"
      using a by (intro is_valid_graph_ok assms wf) (simp add: scanned_def)
    obtain p d where inv: "kahn_inv ?nodes ?par p [] d"
      and n: "count_processed (child_of a) (in_degree a) (process_queue a) 0 = length p"
      using count_processed_result [OF ok is_valid_start [OF assms a], of 0] by auto
    have card: "card ?nodes = length ?ss"
      using assms by (metis maps_ok_def distinct_card length_map set_map)
    have "length p < length ?ss \<longleftrightarrow> \<not> acyclic (dep_edges ?nodes ?par)"
      using kahn_end [OF ok inv] kahn_length_le [OF ok inv] card by auto
    with Inr valid wf n show ?thesis by (simp add: is_valid_def spec_is_dag_def)
  qed
qed

lemmas is_valid_dag = is_valid_iff [THEN iffD1, THEN conjunct2]

text \<open>C14. \<open>NewWorkflowParameter.IsValid\<close> accepts exactly the workflows whose fields are valid, whose
  step names match their keys, whose parents are other steps of the workflow, and whose
  dependencies have no cycle; for every iteration order of the Go maps.\<close>

theorem is_valid_accepts_dags:
  assumes "maps_ok w"
  shows "is_valid w = Inr () \<longleftrightarrow> new_workflow_valid w \<and> spec_is_dag (nw_steps w)"
  by (rule is_valid_iff [OF assms])

definition sample_retry :: retry_params where
  "sample_retry = \<lparr>max_retries = 2, initial_delay_sec = 1, max_delay_sec = None, factor = 2\<rparr>"

definition sample_step :: "string \<Rightarrow> string list \<Rightarrow> string \<times> new_step" where
  "sample_step n ps = (n, \<lparr>ns_name = n, ns_type = ''render'', ns_parameters = None,
     ns_metadata = None, ns_retry = sample_retry, ns_parents = ps\<rparr>)"

definition sample_workflow :: "(string \<times> new_step) list \<Rightarrow> new_workflow" where
  "sample_workflow ss = \<lparr>nw_name = ''wf'', nw_metadata = None, nw_deadline = 1000, nw_steps = ss\<rparr>"

lemma sample_retry_valid [simp]: "valid_retry sample_retry"
  by (simp add: valid_retry_def sample_retry_def)

theorem is_valid_accepts_dags_witness:
  "maps_ok (sample_workflow [sample_step ''b'' [''a''], sample_step ''a'' []]) \<and>
   spec_is_dag (nw_steps (sample_workflow [sample_step ''b'' [''a''], sample_step ''a'' []])) \<and>
   \<not> spec_is_dag (nw_steps (sample_workflow [sample_step ''b'' [''a''], sample_step ''a'' [''b'']]))"
proof -
  let ?good = "sample_workflow [sample_step ''b'' [''a''], sample_step ''a'' []]"
  let ?bad = "sample_workflow [sample_step ''b'' [''a''], sample_step ''a'' [''b'']]"
  have ok: "maps_ok ?good" "maps_ok ?bad"
    by (simp_all add: maps_ok_def sample_workflow_def sample_step_def)
  have valid: "new_workflow_valid ?good" "new_workflow_valid ?bad"
    by (simp_all add: new_workflow_valid_def new_step_valid_def sample_workflow_def
        sample_step_def zero_time_def)
  have "is_valid ?good = Inr ()" "is_valid ?bad \<noteq> Inr ()"
    using valid
    by (simp_all add: is_valid_def sample_workflow_def sample_step_def Let_def)
  with is_valid_accepts_dags [OF ok(1)] is_valid_accepts_dags [OF ok(2)] ok valid show ?thesis
    by simp
qed

end
