(* ===== verification/Ipc_Model.thy ===== *)
theory Ipc_Model
  imports Workflow_Model
begin

text \<open>
  \<open>models/ipc.go\<close>: the messages of the two scheduler queues and the execution queues, their wire
  form, the parser that chooses the message struct by its type, and the \<open>PrepareIPCMsg\<close>
  constructors.
\<close>

section \<open>Messages\<close>

datatype ipc_type =
    NewTask | CancelTask | PendingInstance | ExecuteSucceeded | ExecuteFailed | EngineFailed
  | TaskMaintenance
  | WFProcessWorkflow | WFScheduleStep | WFStepExecUpdate | WFStepTaskUpdate | WFReviveWorkflow
  | WFCancelWorkflow | WFMaintenance

fun ipc_type_name :: "ipc_type \<Rightarrow> string" where
  "ipc_type_name NewTask = ''IPC_TASK_ENG_NEW_TASK''"
| "ipc_type_name CancelTask = ''IPC_TASK_ENG_CANCEL_TASK''"
| "ipc_type_name PendingInstance = ''IPC_TASK_ENG_PENDING_INSTANCE''"
| "ipc_type_name ExecuteSucceeded = ''IPC_TASK_ENG_EXECUTE_SUCCEEDED''"
| "ipc_type_name ExecuteFailed = ''IPC_TASK_ENG_EXECUTE_FAILED''"
| "ipc_type_name EngineFailed = ''IPC_TASK_ENG_ENGINE_FAILED''"
| "ipc_type_name TaskMaintenance = ''IPC_TASK_ENG_MAINTENANCE''"
| "ipc_type_name WFProcessWorkflow = ''IPC_WF_ENG_PROCESS_WORKFLOW''"
| "ipc_type_name WFScheduleStep = ''IPC_WF_ENG_SCHEDULE_STEP''"
| "ipc_type_name WFStepExecUpdate = ''IPC_WF_ENG_STEP_EXEC_UPDATE''"
| "ipc_type_name WFStepTaskUpdate = ''IPC_WF_ENG_STEP_TASK_UPDATE''"
| "ipc_type_name WFReviveWorkflow = ''IPC_WF_ENG_REVIVE_WORKFLOW''"
| "ipc_type_name WFCancelWorkflow = ''IPC_WF_ENG_CANCEL_WORKFLOW''"
| "ipc_type_name WFMaintenance = ''IPC_WF_ENG_MAINTENANCE''"

definition ipc_type_values :: "ipc_type list" where
  "ipc_type_values = [NewTask, CancelTask, PendingInstance, ExecuteSucceeded, ExecuteFailed,
     EngineFailed, TaskMaintenance, WFProcessWorkflow, WFScheduleStep, WFStepExecUpdate,
     WFStepTaskUpdate, WFReviveWorkflow, WFCancelWorkflow, WFMaintenance]"

fun step_state_name :: "step_state \<Rightarrow> string" where
  "step_state_name StepDefined = ''DEFINED''"
| "step_state_name StepPending = ''PENDING''"
| "step_state_name StepRunning = ''RUNNING''"
| "step_state_name StepComplete = ''COMPLETE''"
| "step_state_name StepFailed = ''FAILED''"
| "step_state_name StepTimedOut = ''TIMED_OUT''"
| "step_state_name StepCancelling = ''CANCELLING''"
| "step_state_name StepCancelled = ''CANCELLED''"

definition step_state_values :: "step_state list" where
  "step_state_values = [StepDefined, StepPending, StepRunning, StepComplete, StepFailed,
     StepTimedOut, StepCancelling, StepCancelled]"

fun disposition_name :: "disposition \<Rightarrow> string" where
  "disposition_name Retryable = ''RETRYABLE''"
| "disposition_name NonRetryable = ''NON_RETRYABLE''"

definition disposition_values :: "disposition list" where
  "disposition_values = [Retryable, NonRetryable]"

text \<open>The enum validators: a string is valid when it is the name of one of the \<open>Values()\<close>.\<close>

definition enum_of :: "('e \<Rightarrow> string) \<Rightarrow> 'e list \<Rightarrow> string \<Rightarrow> 'e option" where
  "enum_of name vals s = find (\<lambda>v. name v = s) vals"

lemma enum_of_type [simp]: "enum_of ipc_type_name ipc_type_values (ipc_type_name t) = Some t"
  by (cases t) (simp_all add: enum_of_def ipc_type_values_def)

lemma enum_of_step [simp]: "enum_of step_state_name step_state_values (step_state_name t) = Some t"
  by (cases t) (simp_all add: enum_of_def step_state_values_def)

lemma enum_of_disposition [simp]:
  "enum_of disposition_name disposition_values (disposition_name t) = Some t"
  by (cases t) (simp_all add: enum_of_def disposition_values_def)

record base_msg =
  bm_id :: ident
  bm_type :: ipc_type
  bm_sender :: string
  bm_time :: time

datatype ipc_msg =
    BaseMsg base_msg
  | SystemTask base_msg ident
  | ExecuteInstance base_msg ident "disposition option"
  | WorkflowMsg base_msg ident
  | StepMsg base_msg ident
  | StepExecUpdateMsg base_msg ident step_state
  | StepTaskUpdateMsg base_msg ident step_state
  | ReviveMsg base_msg ident "time option"

section \<open>The wire form\<close>

definition base_fields :: "base_msg \<Rightarrow> (string \<times> json) list" where
  "base_fields b = [(''id'', JStr (bm_id b)), (''type'', JStr (ipc_type_name (bm_type b))),
     (''sender'', JStr (bm_sender b)), (''timestamp'', JTime (bm_time b))]"

fun string_payload :: "ipc_msg \<Rightarrow> json" where
  "string_payload (BaseMsg b) = JObj (base_fields b)"
| "string_payload (SystemTask b i) = JObj (base_fields b @ [(''task_id'', JStr i)])"
| "string_payload (ExecuteInstance b i d) =
     JObj (base_fields b @ [(''instance_id'', JStr i)] @
       (case d of None \<Rightarrow> [] | Some v \<Rightarrow> [(''disposition'', JStr (disposition_name v))]))"
| "string_payload (WorkflowMsg b i) = JObj (base_fields b @ [(''workflow_id'', JStr i)])"
| "string_payload (StepMsg b i) = JObj (base_fields b @ [(''step_id'', JStr i)])"
| "string_payload (StepExecUpdateMsg b i s) =
     JObj (base_fields b @ [(''step_id'', JStr i), (''new_step_state'', JStr (step_state_name s))])"
| "string_payload (StepTaskUpdateMsg b i s) =
     JObj (base_fields b @ [(''task_id'', JStr i), (''new_step_state'', JStr (step_state_name s))])"
| "string_payload (ReviveMsg b i d) =
     JObj (base_fields b @ [(''workflow_id'', JStr i)] @
       (case d of None \<Rightarrow> [] | Some t \<Rightarrow> [(''new_deadline'', JTime t)]))"

section \<open>Parsing\<close>

abbreviation parse_failed :: "goerr + 'a" where
  "parse_failed \<equiv> Inl (wrapped ConsistencyError (leaf DecodeError))"

abbreviation not_valid :: "goerr + 'a" where
  "not_valid \<equiv> Inl (wrapped ValidationError (leaf ValidatorError))"

text \<open>Unmarshal into the base struct, then the struct tags: non-empty ID and sender, known type.\<close>

definition parse_base :: "(string \<times> json) list \<Rightarrow> goerr + base_msg" where
  "parse_base fs =
     (case (field_string fs ''id'', field_string fs ''type'', field_string fs ''sender'',
            field_time fs ''timestamp'') of
        (Some i, Some ty, Some sn, Some ts) \<Rightarrow>
          (case enum_of ipc_type_name ipc_type_values ty of
             None \<Rightarrow> not_valid
           | Some t \<Rightarrow>
               if i = '''' \<or> sn = '''' then not_valid
               else Inr \<lparr>bm_id = i, bm_type = t, bm_sender = sn, bm_time = ts\<rparr>)
      | _ \<Rightarrow> parse_failed)"

text \<open>A required identifier field.\<close>

definition parse_ident ::
  "(string \<times> json) list \<Rightarrow> string \<Rightarrow> (ident \<Rightarrow> goerr + ipc_msg) \<Rightarrow> goerr + ipc_msg"
where
  "parse_ident fs k f =
     (case field_string fs k of
        None \<Rightarrow> parse_failed
      | Some i \<Rightarrow> if i = '''' then not_valid else f i)"

text \<open>
  The second unmarshal, into the struct of the type. Decoding of all fields comes before any
  validation, so an optional field of the wrong kind is reported first.
\<close>

definition parse_execute_instance :: "(string \<times> json) list \<Rightarrow> base_msg \<Rightarrow> goerr + ipc_msg" where
  "parse_execute_instance fs b =
     (case field_string_ptr fs ''disposition'' of
        None \<Rightarrow> parse_failed
      | Some d \<Rightarrow> parse_ident fs ''instance_id'' (\<lambda>i.
          case d of
            None \<Rightarrow> Inr (ExecuteInstance b i None)
          | Some v \<Rightarrow>
              (case enum_of disposition_name disposition_values v of
                 None \<Rightarrow> not_valid
               | Some w \<Rightarrow> Inr (ExecuteInstance b i (Some w)))))"

definition parse_step_update ::
  "(string \<times> json) list \<Rightarrow> string \<Rightarrow> (ident \<Rightarrow> step_state \<Rightarrow> ipc_msg) \<Rightarrow> goerr + ipc_msg"
where
  "parse_step_update fs k f =
     (case field_string fs ''new_step_state'' of
        None \<Rightarrow> parse_failed
      | Some v \<Rightarrow> parse_ident fs k (\<lambda>i.
          case enum_of step_state_name step_state_values v of
            None \<Rightarrow> not_valid
          | Some s \<Rightarrow> Inr (f i s)))"

definition parse_revive :: "(string \<times> json) list \<Rightarrow> base_msg \<Rightarrow> goerr + ipc_msg" where
  "parse_revive fs b =
     (case field_time_ptr fs ''new_deadline'' of
        None \<Rightarrow> parse_failed
      | Some d \<Rightarrow> parse_ident fs ''workflow_id'' (\<lambda>i. Inr (ReviveMsg b i d)))"

fun parse_ipc_message :: "json \<Rightarrow> goerr + ipc_msg" where
  "parse_ipc_message (JObj fs) =
     (case parse_base fs of
        Inl e \<Rightarrow> Inl e
      | Inr b \<Rightarrow>
          (case bm_type b of
             NewTask \<Rightarrow> parse_ident fs ''task_id'' (\<lambda>i. Inr (SystemTask b i))
           | CancelTask \<Rightarrow> parse_ident fs ''task_id'' (\<lambda>i. Inr (SystemTask b i))
           | PendingInstance \<Rightarrow> parse_execute_instance fs b
           | ExecuteSucceeded \<Rightarrow> parse_execute_instance fs b
           | ExecuteFailed \<Rightarrow> parse_execute_instance fs b
           | EngineFailed \<Rightarrow> parse_execute_instance fs b
           | WFProcessWorkflow \<Rightarrow> parse_ident fs ''workflow_id'' (\<lambda>i. Inr (WorkflowMsg b i))
           | WFCancelWorkflow \<Rightarrow> parse_ident fs ''workflow_id'' (\<lambda>i. Inr (WorkflowMsg b i))
           | WFScheduleStep \<Rightarrow> parse_ident fs ''step_id'' (\<lambda>i. Inr (StepMsg b i))
           | WFStepExecUpdate \<Rightarrow> parse_step_update fs ''step_id'' (StepExecUpdateMsg b)
           | WFStepTaskUpdate \<Rightarrow> parse_step_update fs ''task_id'' (StepTaskUpdateMsg b)
           | WFReviveWorkflow \<Rightarrow> parse_revive fs b
           | TaskMaintenance \<Rightarrow> Inr (BaseMsg b)
           | WFMaintenance \<Rightarrow> Inr (BaseMsg b)))"
| "parse_ipc_message JNull = not_valid"
| "parse_ipc_message _ = parse_failed"

section \<open>Constructors\<close>

text \<open>The message ID is a fresh ULID, an argument here.\<close>

definition prepare_new_pending_task :: "ident \<Rightarrow> string \<Rightarrow> ident \<Rightarrow> time \<Rightarrow> ipc_msg" where
  "prepare_new_pending_task u sender i t = SystemTask \<lparr>bm_id = u, bm_type = NewTask, bm_sender = sender, bm_time = t\<rparr> i"

definition prepare_cancel_task :: "ident \<Rightarrow> string \<Rightarrow> ident \<Rightarrow> time \<Rightarrow> ipc_msg" where
  "prepare_cancel_task u sender i t = SystemTask \<lparr>bm_id = u, bm_type = CancelTask, bm_sender = sender, bm_time = t\<rparr> i"

definition prepare_execution_requested :: "ident \<Rightarrow> string \<Rightarrow> ident \<Rightarrow> time \<Rightarrow> ipc_msg" where
  "prepare_execution_requested u sender i t =
     ExecuteInstance \<lparr>bm_id = u, bm_type = PendingInstance, bm_sender = sender, bm_time = t\<rparr> i None"

definition prepare_process_succeeded :: "ident \<Rightarrow> string \<Rightarrow> ident \<Rightarrow> time \<Rightarrow> ipc_msg" where
  "prepare_process_succeeded u sender i t =
     ExecuteInstance \<lparr>bm_id = u, bm_type = ExecuteSucceeded, bm_sender = sender, bm_time = t\<rparr> i None"

definition prepare_process_failed ::
  "ident \<Rightarrow> string \<Rightarrow> ident \<Rightarrow> disposition option \<Rightarrow> time \<Rightarrow> ipc_msg"
where
  "prepare_process_failed u sender i d t =
     ExecuteInstance \<lparr>bm_id = u, bm_type = ExecuteFailed, bm_sender = sender, bm_time = t\<rparr> i d"

definition prepare_engine_failed :: "ident \<Rightarrow> string \<Rightarrow> ident \<Rightarrow> time \<Rightarrow> ipc_msg" where
  "prepare_engine_failed u sender i t =
     ExecuteInstance \<lparr>bm_id = u, bm_type = EngineFailed, bm_sender = sender, bm_time = t\<rparr> i None"

definition prepare_wf_process :: "ident \<Rightarrow> string \<Rightarrow> ident \<Rightarrow> time \<Rightarrow> ipc_msg" where
  "prepare_wf_process u sender i t =
     WorkflowMsg \<lparr>bm_id = u, bm_type = WFProcessWorkflow, bm_sender = sender, bm_time = t\<rparr> i"

definition prepare_wf_cancel :: "ident \<Rightarrow> string \<Rightarrow> ident \<Rightarrow> time \<Rightarrow> ipc_msg" where
  "prepare_wf_cancel u sender i t =
     WorkflowMsg \<lparr>bm_id = u, bm_type = WFCancelWorkflow, bm_sender = sender, bm_time = t\<rparr> i"

definition prepare_wf_schedule_step :: "ident \<Rightarrow> string \<Rightarrow> ident \<Rightarrow> time \<Rightarrow> ipc_msg" where
  "prepare_wf_schedule_step u sender i t =
     StepMsg \<lparr>bm_id = u, bm_type = WFScheduleStep, bm_sender = sender, bm_time = t\<rparr> i"

definition prepare_wf_step_exec_update ::
  "ident \<Rightarrow> string \<Rightarrow> ident \<Rightarrow> step_state \<Rightarrow> time \<Rightarrow> ipc_msg"
where
  "prepare_wf_step_exec_update u sender i s t =
     StepExecUpdateMsg \<lparr>bm_id = u, bm_type = WFStepExecUpdate, bm_sender = sender, bm_time = t\<rparr> i s"

definition prepare_wf_step_task_update ::
  "ident \<Rightarrow> string \<Rightarrow> ident \<Rightarrow> step_state \<Rightarrow> time \<Rightarrow> ipc_msg"
where
  "prepare_wf_step_task_update u sender i s t =
     StepTaskUpdateMsg \<lparr>bm_id = u, bm_type = WFStepTaskUpdate, bm_sender = sender, bm_time = t\<rparr> i s"

definition prepare_wf_revive ::
  "ident \<Rightarrow> string \<Rightarrow> ident \<Rightarrow> time option \<Rightarrow> time \<Rightarrow> ipc_msg"
where
  "prepare_wf_revive u sender i d t =
     ReviveMsg \<lparr>bm_id = u, bm_type = WFReviveWorkflow, bm_sender = sender, bm_time = t\<rparr> i d"

definition prepare_task_maintenance :: "ident \<Rightarrow> string \<Rightarrow> time \<Rightarrow> ipc_msg" where
  "prepare_task_maintenance u sender t =
     BaseMsg \<lparr>bm_id = u, bm_type = TaskMaintenance, bm_sender = sender, bm_time = t\<rparr>"

definition prepare_wf_maintenance :: "ident \<Rightarrow> string \<Rightarrow> time \<Rightarrow> ipc_msg" where
  "prepare_wf_maintenance u sender t =
     BaseMsg \<lparr>bm_id = u, bm_type = WFMaintenance, bm_sender = sender, bm_time = t\<rparr>"

lemmas prepare_defs = prepare_new_pending_task_def prepare_cancel_task_def
  prepare_execution_requested_def prepare_process_succeeded_def prepare_process_failed_def
  prepare_engine_failed_def prepare_wf_process_def prepare_wf_cancel_def
  prepare_wf_schedule_step_def prepare_wf_step_exec_update_def prepare_wf_step_task_update_def
  prepare_wf_revive_def prepare_task_maintenance_def prepare_wf_maintenance_def

section \<open>Round trip\<close>

text \<open>What the constructors build: the struct that belongs to the type, non-empty identifiers.\<close>

fun msg_base :: "ipc_msg \<Rightarrow> base_msg" where
  "msg_base (BaseMsg b) = b"
| "msg_base (SystemTask b _) = b"
| "msg_base (ExecuteInstance b _ _) = b"
| "msg_base (WorkflowMsg b _) = b"
| "msg_base (StepMsg b _) = b"
| "msg_base (StepExecUpdateMsg b _ _) = b"
| "msg_base (StepTaskUpdateMsg b _ _) = b"
| "msg_base (ReviveMsg b _ _) = b"

fun msg_shape :: "ipc_msg \<Rightarrow> bool" where
  "msg_shape (BaseMsg b) = (bm_type b \<in> {TaskMaintenance, WFMaintenance})"
| "msg_shape (SystemTask b i) = (i \<noteq> '''' \<and> bm_type b \<in> {NewTask, CancelTask})"
| "msg_shape (ExecuteInstance b i _) =
     (i \<noteq> '''' \<and> bm_type b \<in> {PendingInstance, ExecuteSucceeded, ExecuteFailed, EngineFailed})"
| "msg_shape (WorkflowMsg b i) = (i \<noteq> '''' \<and> bm_type b \<in> {WFProcessWorkflow, WFCancelWorkflow})"
| "msg_shape (StepMsg b i) = (i \<noteq> '''' \<and> bm_type b = WFScheduleStep)"
| "msg_shape (StepExecUpdateMsg b i _) = (i \<noteq> '''' \<and> bm_type b = WFStepExecUpdate)"
| "msg_shape (StepTaskUpdateMsg b i _) = (i \<noteq> '''' \<and> bm_type b = WFStepTaskUpdate)"
| "msg_shape (ReviveMsg b i _) = (i \<noteq> '''' \<and> bm_type b = WFReviveWorkflow)"

definition msg_wf :: "ipc_msg \<Rightarrow> bool" where
  "msg_wf m \<longleftrightarrow> bm_id (msg_base m) \<noteq> '''' \<and> bm_sender (msg_base m) \<noteq> '''' \<and> msg_shape m"

lemma parse_base_fields:
  "entries fs ''id'' = [] \<Longrightarrow> entries fs ''type'' = [] \<Longrightarrow> entries fs ''sender'' = [] \<Longrightarrow>
     entries fs ''timestamp'' = [] \<Longrightarrow> parse_base (base_fields b @ fs) =
     (if bm_id b = [] \<or> bm_sender b = [] then not_valid else Inr b)"
  by (simp add: parse_base_def base_fields_def)

lemmas parse_base_fields_only = parse_base_fields [where fs = "[]", simplified]

lemma entries_optional: "entries (case d of None \<Rightarrow> [] | Some t \<Rightarrow> [(k, f t)]) x =
    (if to_lower k = to_lower x then (case d of None \<Rightarrow> [] | Some t \<Rightarrow> [f t]) else [])"
  by (cases d) auto

lemma entries_base_fields:
  "to_lower k \<notin> {''id'', ''type'', ''sender'', ''timestamp''} \<Longrightarrow> entries (base_fields b @ fs) k = entries fs k"
  by (auto simp: base_fields_def)

lemmas entries_base_fields_only = entries_base_fields [where fs = "[]", simplified]

text \<open>C36. Parsing the wire form of a message returns the message, and exactly the well-formed
  messages come back.\<close>

theorem parse_string_payload:
  "parse_ipc_message (string_payload m) = Inr m \<longleftrightarrow> msg_wf m"
  by (cases m; cases "bm_type (msg_base m)")
    (simp_all add: msg_wf_def parse_base_fields parse_base_fields_only entries_base_fields
      entries_base_fields_only entries_optional
      parse_ident_def parse_execute_instance_def parse_step_update_def parse_revive_def
      split: option.split)

end
