(* ===== verification/Notify_Model.thy ===== *)
theory Notify_Model
  imports Audit_Model Ipc_Model
begin

text \<open>
  \<open>models/notify.go\<close>: the notification that the producer publishes for an audit event, its wire
  form, and the names of the channels it is routed to.
\<close>

fun event_type_name :: "event_type \<Rightarrow> string" where
  "event_type_name ActivateTask = ''ACTIVATE_TASK''"
| "event_type_name CompleteTask = ''COMPLETE_TASK''"
| "event_type_name FailedTask = ''FAILED_TASK''"
| "event_type_name CancelledTask = ''CANCELLED_TASK''"
| "event_type_name TimedOutTask = ''TIMED_OUT_TASK''"
| "event_type_name DeleteTask = ''DELETE_TASK''"
| "event_type_name InvalidTaskIpcMessage = ''INVALID_TASK_IPC_MESSAGE''"
| "event_type_name EngineFailedTask = ''ENGINE_FAILED_TASK''"
| "event_type_name DefineWorkflow = ''DEFINE_WORKFLOW''"
| "event_type_name WorkflowRunning = ''WORKFLOW_RUNNING''"
| "event_type_name WorkflowComplete = ''WORKFLOW_COMPLETE''"
| "event_type_name WorkflowFailed = ''WORKFLOW_FAILED''"
| "event_type_name WorkflowTimedOut = ''WORKFLOW_TIMED_OUT''"
| "event_type_name WorkflowCancelling = ''WORKFLOW_CANCELLING''"
| "event_type_name WorkflowCancelled = ''WORKFLOW_CANCELLED''"
| "event_type_name WorkflowDeadlineUpdate = ''WORKFLOW_DEADLINE_UPDATE''"
| "event_type_name DeleteWorkflow = ''DELETE_WORKFLOW''"
| "event_type_name WorkflowStepDefined = ''WORKFLOW_STEP_DEFINED''"
| "event_type_name WorkflowStepPending = ''WORKFLOW_STEP_PENDING''"
| "event_type_name WorkflowStepRunning = ''WORKFLOW_STEP_RUNNING''"
| "event_type_name WorkflowStepComplete = ''WORKFLOW_STEP_COMPLETE''"
| "event_type_name WorkflowStepFailed = ''WORKFLOW_STEP_FAILED''"
| "event_type_name WorkflowStepTimedOut = ''WORKFLOW_STEP_TIMED_OUT''"
| "event_type_name WorkflowStepCancelling = ''WORKFLOW_STEP_CANCELLING''"
| "event_type_name WorkflowStepCancelled = ''WORKFLOW_STEP_CANCELLED''"

definition event_type_values :: "event_type list" where
  "event_type_values = [ActivateTask, CompleteTask, FailedTask, CancelledTask, TimedOutTask,
     DeleteTask, InvalidTaskIpcMessage, EngineFailedTask, DefineWorkflow, WorkflowRunning,
     WorkflowComplete, WorkflowFailed, WorkflowTimedOut, WorkflowCancelling, WorkflowCancelled,
     WorkflowDeadlineUpdate, DeleteWorkflow, WorkflowStepDefined, WorkflowStepPending,
     WorkflowStepRunning, WorkflowStepComplete, WorkflowStepFailed, WorkflowStepTimedOut,
     WorkflowStepCancelling, WorkflowStepCancelled]"

lemma enum_of_event [simp]: "enum_of event_type_name event_type_values (event_type_name t) = Some t"
  by (cases t) (simp_all add: enum_of_def event_type_values_def)

lemma event_type_name_eq [simp]: "event_type_name a = event_type_name b \<longleftrightarrow> a = b"
  by (metis enum_of_event option.inject)

section \<open>The notification\<close>

text \<open>
  The type is a string: decoding does not look it up. A pointer field is absent as \<open>None\<close>; so is
  an empty \<open>json.RawMessage\<close>.
\<close>

record notification =
  nf_id :: ident
  nf_type :: string
  nf_created :: time
  nf_creator :: "string option"
  nf_subject_type :: "string option"
  nf_subject_id :: "string option"
  nf_meta :: "json option"

definition optional :: "string \<Rightarrow> json option \<Rightarrow> (string \<times> json) list" where
  "optional k v = (case v of None \<Rightarrow> [] | Some j \<Rightarrow> [(k, j)])"

definition notification_json :: "notification \<Rightarrow> json" where
  "notification_json n = JObj
     ([(''id'', JStr (nf_id n)), (''type'', JStr (nf_type n)), (''created_at'', JTime (nf_created n))] @
      optional ''creator'' (map_option JStr (nf_creator n)) @
      optional ''subject_type'' (map_option JStr (nf_subject_type n)) @
      optional ''subject_id'' (map_option JStr (nf_subject_id n)) @
      optional ''metadata'' (nf_meta n))"

definition decode_fields :: "(string \<times> json) list \<Rightarrow> notification option" where
  "decode_fields fs =
     (case (field_string fs ''id'', field_string fs ''type'', field_time fs ''created_at'',
            field_string_ptr fs ''creator'', field_string_ptr fs ''subject_type'',
            field_string_ptr fs ''subject_id'') of
        (Some i, Some ty, Some t, Some c, Some st, Some si) \<Rightarrow>
          Some \<lparr>nf_id = i, nf_type = ty, nf_created = t, nf_creator = c, nf_subject_type = st,
            nf_subject_id = si, nf_meta = field_raw fs ''metadata''\<rparr>
      | _ \<Rightarrow> None)"

fun decode_notification :: "json \<Rightarrow> notification option" where
  "decode_notification (JObj fs) = decode_fields fs"
| "decode_notification JNull = decode_fields []"
| "decode_notification _ = None"

section \<open>Channels\<close>

fun join_with :: "string \<Rightarrow> string list \<Rightarrow> string" where
  "join_with sep [] = []"
| "join_with sep [x] = x"
| "join_with sep (x # xs) = x @ sep @ join_with sep xs"

definition firehose_channel :: string where
  "firehose_channel = join_with '':'' [''notify'', ''all'']"

definition type_channel :: "event_type \<Rightarrow> string" where
  "type_channel ty = join_with '':'' [''notify'', ''type'', event_type_name ty]"

definition creator_channel :: "string \<Rightarrow> string" where
  "creator_channel c = join_with '':'' [''notify'', ''creator'', c]"

definition creator_type_channel :: "string \<Rightarrow> event_type \<Rightarrow> string" where
  "creator_type_channel c ty = join_with '':'' [''notify'', ''creator'', c, ''type'', event_type_name ty]"

definition subject_channel :: "string \<Rightarrow> ident \<Rightarrow> string" where
  "subject_channel ty i = join_with '':'' [''notify'', ''subject'', ty, i]"

lemmas channel_defs = firehose_channel_def type_channel_def creator_channel_def
  creator_type_channel_def subject_channel_def

section \<open>Properties\<close>

text \<open>A subscriber reads a notification back as it was published, whatever its optional fields.\<close>

theorem decode_notification_roundtrip: "decode_notification (notification_json n) = Some n"
  by (cases n) (simp add: notification_json_def decode_fields_def optional_def split: option.split)

text \<open>The channel of a creator carries the traffic of another creator's channel for one type
  exactly when its name ends in that suffix: with colons in creators the names collide.\<close>

theorem creator_channel_collides:
  "creator_channel c = creator_type_channel b ty \<longleftrightarrow> c = b @ '':type:'' @ event_type_name ty"
  by (simp add: channel_defs)

end
