(* ===== verification/Store.thy ===== *)
theory Store
  imports Notify_Model "HOL-Library.Sublist"
begin

text \<open>
  The persisted tables (\<open>db/tables.go\<close>, the structs of \<open>models/\<close>) and the SQL statements the
  database layer issues, the world the program runs in, and \<open>UseDatabaseInTransaction\<close>
  (\<open>db/client.go\<close>). A statement may fail by the fault script of the world; so may the begin and
  the commit of a transaction and every call of the message queue. What the program sends and
  when a transaction begins, commits or rolls back is kept in a log, so that the order of
  commits and messages can be stated.
\<close>

section \<open>Rows\<close>

record task_row =
  t_id :: ident
  t_name :: string
  t_creator :: string
  t_class :: schedule_class
  t_state :: task_state
  t_params :: json
  t_meta :: json
  t_target :: "time option"
  t_deadline :: "time option"
  t_retry :: retry_params
  t_created :: time
  t_updated :: time

record exec_row =
  e_id :: ident
  e_task :: ident
  e_class :: exec_class
  e_state :: exec_state
  e_terminal :: "exec_state option"
  e_terminated :: "time option"
  e_execute_at :: "time option"
  e_worker :: "string option"
  e_parent :: "ident option"
  e_error :: "string option"
  e_disposition :: "disposition option"
  e_deadline :: "time option"
  e_created :: time
  e_updated :: time

record workflow_row =
  w_id :: ident
  w_name :: string
  w_creator :: string
  w_state :: workflow_state
  w_meta :: json
  w_deadline :: time
  w_started :: "time option"
  w_stopped :: "time option"
  w_created :: time
  w_updated :: time

record step_row =
  s_id :: ident
  s_name :: string
  s_workflow :: ident
  s_creator :: string
  s_type :: string
  s_state :: step_state
  s_restarted :: bool
  s_parents :: "string list"
  s_params :: json
  s_meta :: json
  s_retry :: retry_params
  s_deadline :: time
  s_started :: "time option"
  s_stopped :: "time option"
  s_created :: time
  s_updated :: time

record dep_row =
  d_step :: ident
  d_on :: ident
  d_created :: time
  d_updated :: time

record link_row =
  l_step :: ident
  l_task :: ident
  l_created :: time
  l_updated :: time

record event_row =
  v_id :: ident
  v_type :: event_type
  v_meta :: json
  v_created :: time
  v_updated :: time
  v_broadcast :: "time option"

record tables =
  tasks :: "task_row list"
  execs :: "exec_row list"
  workflows :: "workflow_row list"
  steps :: "step_row list"
  deps :: "dep_row list"
  links :: "link_row list"
  events :: "event_row list"

section \<open>The world\<close>

datatype action =
    TxnBegin | TxnCommit | TxnRollback
  | Sent string ipc_msg  \<comment> \<open>queue, message\<close>
  | Deleted string  \<comment> \<open>the message being handled leaves the buffer of the queue\<close>
  | ReEnqueued string json  \<comment> \<open>a buffered message goes back to the queue\<close>
  | DeletedMsg string "json option"  \<comment> \<open>the message given leaves the buffer, if there is one\<close>
  | Submitted ident  \<comment> \<open>the worker pool accepts an instance\<close>
  | Published string notification  \<comment> \<open>channel, notification\<close>

text \<open>
  \<open>clock\<close> is what \<open>time.Now\<close> returns call by call and \<open>ulid_of\<close> what \<open>ulid.Make\<close> returns;
  \<open>text_of\<close>, \<open>time_text\<close> and \<open>err_text\<close> are the texts of a document, a time and an error. The
  head of \<open>sql_faults\<close> (\<open>send_faults\<close>) says whether the next statement (send) fails; an
  exhausted script means no more faults.
\<close>

record world =
  db :: tables
  clock :: "nat \<Rightarrow> time"
  ticks :: nat
  ulid_of :: "nat \<Rightarrow> ident"
  ulids :: nat
  text_of :: "json \<Rightarrow> string"
  time_text :: "time \<Rightarrow> string"
  err_text :: "goerr \<Rightarrow> string"
  sql_faults :: "bool list"
  send_faults :: "bool list"
  history :: "action list"

definition time_now :: "(world, time) m" where
  "time_now w = (Inr (clock w (ticks w)), w\<lparr>ticks := Suc (ticks w)\<rparr>)"

definition ulid_make :: "(world, ident) m" where
  "ulid_make w = (Inr (ulid_of w (ulids w)), w\<lparr>ulids := Suc (ulids w)\<rparr>)"

section \<open>Statements\<close>

definition sql :: "(tables \<Rightarrow> (goerr + 'a) \<times> tables) \<Rightarrow> (world, 'a) m" where
  "sql f w =
     (let w' = w\<lparr>sql_faults := tl (sql_faults w)\<rparr> in
      if sql_faults w \<noteq> [] \<and> hd (sql_faults w) then (Inl (leaf DriverError), w')
      else case f (db w) of (r, d) \<Rightarrow> (r, w'\<lparr>db := d\<rparr>))"

text \<open>\<open>SELECT\<close> into a slice, \<open>First\<close>, \<open>UPDATE\<close>/\<open>DELETE\<close>, and \<open>INSERT\<close> under the constraints of the
  schema: a violated one is an error of the driver.\<close>

definition select_all :: "(tables \<Rightarrow> 'a) \<Rightarrow> (world, 'a) m" where
  "select_all q = sql (\<lambda>d. (Inr (q d), d))"

definition select_first :: "(tables \<Rightarrow> 'a option) \<Rightarrow> (world, 'a) m" where
  "select_first q = sql (\<lambda>d. (case q d of None \<Rightarrow> Inl (leaf RecordNotFound) | Some r \<Rightarrow> Inr r, d))"

definition change :: "(tables \<Rightarrow> tables) \<Rightarrow> (world, unit) m" where
  "change f = sql (\<lambda>d. (Inr (), f d))"

definition insert_if :: "(tables \<Rightarrow> bool) \<Rightarrow> (tables \<Rightarrow> tables) \<Rightarrow> (world, unit) m" where
  "insert_if ok f = sql (\<lambda>d. if ok d then (Inr (), f d) else (Inl (leaf DriverError), d))"

text \<open>\<open>notFoundOrError\<close> of \<open>db/database.go\<close>.\<close>

definition not_found_or_error :: "goerr \<Rightarrow> goerr" where
  "not_found_or_error e =
     (if err_as RecordNotFound e then wrapped NotFoundError e else wrapped SQLError e)"

definition fetch_one :: "(tables \<Rightarrow> 'a option) \<Rightarrow> (world, 'a) m" where
  "fetch_one q w = (case select_first q w of
     (Inl e, w') \<Rightarrow> (Inl (not_found_or_error e), w') | (Inr r, w') \<Rightarrow> (Inr r, w'))"

section \<open>Transactions\<close>

text \<open>
  \<open>UseDatabaseInTransaction\<close> runs its body inside \<open>Transaction\<close> of gorm, which is not part of the
  repository. What it documents is written here: it rolls back, so the tables are again those at its
  begin, when the body returns an error or the commit fails, and commits otherwise. A failing begin or
  commit is a failing statement. \<open>newDatabase\<close> fails inside the transaction only when the validation
  macros cannot be registered; their names and functions are constants, so this path has no branch.
\<close>

definition record_action :: "action \<Rightarrow> world \<Rightarrow> world" where
  "record_action a w = w\<lparr>history := history w @ [a]\<rparr>"

definition in_txn :: "(world, 'a) m \<Rightarrow> (world, 'a) m" where
  "in_txn p w =
     (case sql (\<lambda>d. (Inr (), d)) w of
        (Inl e, w1) \<Rightarrow> (Inl e, w1)
      | (Inr _, w1) \<Rightarrow>
          (case p (record_action TxnBegin w1) of
             (Inl e, w2) \<Rightarrow> (Inl e, record_action TxnRollback (w2\<lparr>db := db w\<rparr>))
           | (Inr a, w2) \<Rightarrow>
               (case sql (\<lambda>d. (Inr (), d)) w2 of
                  (Inl e, w3) \<Rightarrow> (Inl e, record_action TxnRollback (w3\<lparr>db := db w\<rparr>))
                | (Inr _, w3) \<Rightarrow> (Inr a, record_action TxnCommit w3))))"

text \<open>\<open>ActiveSessionWrapper\<close>: inside the transaction of the caller when there is one.\<close>

definition active_session :: "bool \<Rightarrow> (world, 'a) m \<Rightarrow> (world, 'a) m" where
  "active_session in_caller p = (if in_caller then p else in_txn p)"

section \<open>Sending\<close>

text \<open>
  The calls on a message queue: each may fail, and one that succeeds is recorded.
  \<open>EnqueueMessage\<close>, \<open>DeleteBufferedMessage\<close> and \<open>ReEnqueueOnMainQueue\<close>.
\<close>

definition queue_call :: "action \<Rightarrow> (world, unit) m" where
  "queue_call a w =
     (let w' = w\<lparr>send_faults := tl (send_faults w)\<rparr> in
      if send_faults w \<noteq> [] \<and> hd (send_faults w) then (Inl (wrapped IPCMessageQueueError (leaf RedisError)), w')
      else (Inr (), record_action a w'))"

definition send_msg :: "string \<Rightarrow> ipc_msg \<Rightarrow> (world, unit) m" where
  "send_msg q m = queue_call (Sent q m)"

definition delete_buffered :: "string \<Rightarrow> (world, unit) m" where
  "delete_buffered q = queue_call (Deleted q)"

definition re_enqueue :: "string \<Rightarrow> json \<Rightarrow> (world, unit) m" where
  "re_enqueue q j = queue_call (ReEnqueued q j)"

text \<open>Enqueue a message whose ID is a fresh ULID.\<close>

definition send_new :: "string \<Rightarrow> (ident \<Rightarrow> ipc_msg) \<Rightarrow> (world, unit) m" where
  "send_new q f = bnd ulid_make (\<lambda>u. send_msg q (f u))"

section \<open>Evolution of the tables\<close>

text \<open>
  A preorder on the tables lifts to a preorder on worlds; statements that only read, sends,
  clock reads and whole transactions then evolve along it, whatever fails.
\<close>

locale db_evolution =
  fixes D :: "tables \<Rightarrow> tables \<Rightarrow> bool"
  assumes D_refl: "D d d"
    and D_trans: "D a b \<Longrightarrow> D b c \<Longrightarrow> D a c"
begin

definition W :: "world \<Rightarrow> world \<Rightarrow> bool" where
  "W w w' \<longleftrightarrow> D (db w) (db w')"

end

sublocale db_evolution \<subseteq> evolution W
  by unfold_locales (auto simp: W_def D_refl intro: D_trans)

context db_evolution
begin

lemma ev_sql:
  assumes "\<And>d r d'. f d = (r, d') \<Longrightarrow> D d d'"
  shows "evolves W (sql f)"
  by (rule evolvesI) (auto simp: sql_def Let_def W_def D_refl split: if_splits prod.splits dest: assms)

lemma ev_time_now: "evolves W time_now"
  by (auto simp: evolves_def time_now_def W_def D_refl)

lemma ev_ulid_make: "evolves W ulid_make"
  by (auto simp: evolves_def ulid_make_def W_def D_refl)

lemma ev_select_all: "evolves W (select_all q)"
  unfolding select_all_def by (rule ev_sql) (simp add: D_refl)

lemma ev_select_first: "evolves W (select_first q)"
  unfolding select_first_def by (rule ev_sql) (simp add: D_refl)

lemma ev_change: "(\<And>d. D d (f d)) \<Longrightarrow> evolves W (change f)"
  unfolding change_def by (rule ev_sql) auto

lemma ev_insert_if: "(\<And>d. ok d \<Longrightarrow> D d (f d)) \<Longrightarrow> evolves W (insert_if ok f)"
  unfolding insert_if_def by (rule ev_sql) (auto simp: D_refl split: if_splits)

lemma ev_fetch_one: "evolves W (fetch_one q)"
proof (rule evolvesI)
  fix w r w'
  assume "fetch_one q w = (r, w')"
  then obtain r' where "select_first q w = (r', w')"
    by (auto simp: fetch_one_def split: sum.splits prod.splits)
  then show "W w w'" by (rule evolvesD [OF ev_select_first])
qed

lemma ev_queue_call: "evolves W (queue_call a)"
  by (rule evolvesI)
    (auto simp: queue_call_def record_action_def Let_def W_def D_refl split: if_splits)

lemma ev_send_msg: "evolves W (send_msg q m)"
  unfolding send_msg_def by (rule ev_queue_call)

lemma ev_delete_buffered: "evolves W (delete_buffered q)"
  unfolding delete_buffered_def by (rule ev_queue_call)

lemma ev_re_enqueue: "evolves W (re_enqueue q j)"
  unfolding re_enqueue_def by (rule ev_queue_call)

lemma ev_send_new: "evolves W (send_new q f)"
  unfolding send_new_def by (intro ev_bnd ev_ulid_make ev_send_msg)

lemma ev_in_txn:
  assumes "evolves W p"
  shows "evolves W (in_txn p)"
proof (rule evolvesI)
  fix w r w'
  assume run: "in_txn p w = (r, w')"
  have nop: "db w2 = db w1" if "sql (\<lambda>d. (Inr (), d)) w1 = (x, w2)" for w1 x w2
    using that by (auto simp: sql_def Let_def split: if_splits)
  have body: "D (db w1) (db w2)" if "p (record_action TxnBegin w1) = (x, w2)" for w1 x w2
    using evolvesD [OF assms that] by (simp add: W_def record_action_def)
  show "W w w'"
    using run unfolding in_txn_def
    by (auto simp: W_def record_action_def D_refl split: prod.splits sum.splits
        dest!: nop body [unfolded record_action_def])
qed

lemma ev_active_session: "evolves W p \<Longrightarrow> evolves W (active_session b p)"
  by (simp add: active_session_def ev_in_txn)

text \<open>A transaction evolves when the successful runs of its body do: the others are rolled back.\<close>

lemma at_in_txn_ok:
  assumes "\<And>w1 a w2. db w1 = db w \<Longrightarrow> p w1 = (Inr a, w2) \<Longrightarrow> D (db w) (db w2)"
  shows "W w (snd (in_txn p w))"
proof -
  have nop: "db w2 = db w1" if "sql (\<lambda>d. (Inr (), d)) w1 = (x, w2)" for w1 x w2
    using that by (auto simp: sql_def Let_def split: if_splits)
  have body: "D (db w) (db w2)" if "p (record_action TxnBegin w1) = (Inr a, w2)" "db w1 = db w" for w1 a w2
    using assms [of "record_action TxnBegin w1"] that by (simp add: record_action_def)
  show ?thesis
    unfolding in_txn_def
    by (auto simp: W_def record_action_def D_refl split: prod.splits sum.splits
        dest!: nop body [unfolded record_action_def])
qed

lemma ok_in_txn: "evolves_ok W p \<Longrightarrow> evolves W (in_txn p)"
  unfolding evolves_def by (intro allI at_in_txn_ok) (metis W_def evolves_okD)

text \<open>The same at one state: a write may rely on the row that was read before it.\<close>

lemma at_fetch:
  assumes "\<And>r w'. q (db w) = Some r \<Longrightarrow> db w' = db w \<Longrightarrow> W w' (snd (f r w'))"
  shows "W w (snd (bnd (fetch_one q) f w))"
proof -
  obtain x w' where run: "fetch_one q w = (x, w')" by (cases "fetch_one q w")
  then have d: "db w' = db w" and x: "\<And>r. x = Inr r \<Longrightarrow> q (db w) = Some r"
    by (auto simp: fetch_one_def select_first_def sql_def Let_def
        split: if_splits prod.splits sum.splits option.splits)
  show ?thesis
  proof (cases x)
    case (Inl e)
    then show ?thesis using run d by (simp add: W_def D_refl)
  next
    case (Inr r)
    then show ?thesis using run d x assms [of r w'] by (simp add: W_def)
  qed
qed

lemma at_bnd:
  assumes "W w (snd (p w))" "\<And>a. evolves W (f a)"
  shows "W w (snd (bnd p f w))"
proof -
  obtain x w' where run: "p w = (x, w')" by (cases "p w")
  show ?thesis
    using assms run by (cases x) (auto simp: evolves_def intro: R_trans)
qed

lemma at_time:
  assumes "\<And>a w'. db w' = db w \<Longrightarrow> W w' (snd (f a w'))"
  shows "W w (snd (bnd time_now f w))"
  using assms [of "w\<lparr>ticks := Suc (ticks w)\<rparr>"] by (simp add: W_def bnd_def time_now_def)

lemma at_change: "D (db w) (f (db w)) \<Longrightarrow> W w (snd (wrap k (change f) w))"
  by (auto simp: change_def sql_def wrap_def Let_def W_def D_refl)

lemma at_read:
  assumes "\<And>x w'. p w = (x, w') \<Longrightarrow> db w' = db w"
    and "\<And>a w'. p w = (Inr a, w') \<Longrightarrow> W w' (snd (f a w'))"
  shows "W w (snd (bnd p f w))"
proof -
  obtain x w' where run: "p w = (x, w')" by (cases "p w")
  with assms show ?thesis by (cases x) (auto simp: W_def D_refl dest: assms)
qed

lemma bnd_then:
  assumes "bnd p f w = (Inr b, w')" "\<And>a. evolves W (f a)"
  shows "\<exists>a w1. p w = (Inr a, w1) \<and> D (db w1) (db w')"
  using assms by (auto simp: bnd_result_Inr W_def dest: evolvesD) (metis W_def assms(2) evolvesD)

lemma at_wrap: "W w (snd (p w)) \<Longrightarrow> W w (snd (wrap k p w))"
  by (auto simp: wrap_def split: prod.splits sum.splits)

lemma at_in_txn:
  assumes "\<And>w'. db w' = db w \<Longrightarrow> W w' (snd (p w'))"
  shows "W w (snd (in_txn p w))"
proof -
  have nop: "db w2 = db w1" if "sql (\<lambda>d. (Inr (), d)) w1 = (x, w2)" for w1 x w2
    using that by (auto simp: sql_def Let_def split: if_splits)
  have body: "D (db w) (db w2)" if "p (record_action TxnBegin w1) = (x, w2)" "db w1 = db w" for w1 x w2
    using assms [of "record_action TxnBegin w1"] that by (simp add: W_def record_action_def)
  show ?thesis
    unfolding in_txn_def
    by (auto simp: W_def record_action_def D_refl split: prod.splits sum.splits
        dest!: nop body [unfolded record_action_def])
qed

lemma at_ev: "evolves W p \<Longrightarrow> W w (snd (p w))"
  by (simp add: evolves_def)

lemmas ev_store = ev_time_now ev_ulid_make ev_select_all ev_select_first ev_fetch_one ev_send_msg
  ev_delete_buffered ev_re_enqueue ev_send_new ev_in_txn ev_active_session ev_rules

end

text \<open>The smallest instance: an operation that changes nothing.\<close>

interpretation unchanged: db_evolution "(=)"
  by unfold_locales simp_all

lemma in_txn_error: "in_txn p w = (Inl e, w') \<Longrightarrow> db w' = db w"
  by (auto simp: in_txn_def sql_def record_action_def Let_def split: prod.splits sum.splits if_splits)

section \<open>The history\<close>

text \<open>The log of actions only grows.\<close>

interpretation logged: evolution "\<lambda>w w'. prefix (history w) (history w')"
  by unfold_locales auto

lemma sql_history: "sql f w = (r, w') \<Longrightarrow> history w' = history w"
  by (auto simp: sql_def Let_def split: if_splits prod.splits)

lemma log_sql: "evolves (\<lambda>w w'. prefix (history w) (history w')) (sql f)"
  by (rule evolvesI) (simp add: sql_history)

lemma log_queue_call: "evolves (\<lambda>w w'. prefix (history w) (history w')) (queue_call a)"
  by (rule evolvesI) (auto simp: queue_call_def record_action_def Let_def split: if_splits)

lemma log_in_txn:
  assumes "evolves (\<lambda>w w'. prefix (history w) (history w')) p"
  shows "evolves (\<lambda>w w'. prefix (history w) (history w')) (in_txn p)"
proof (rule evolvesI)
  fix w r w'
  assume run: "in_txn p w = (r, w')"
  have "prefix (history w1) (history w2)" if "p (record_action TxnBegin w1) = (x, w2)" for w1 x w2
    using evolvesD [OF assms that] by (auto simp: record_action_def prefix_def)
  then show "prefix (history w) (history w')"
    using run unfolding in_txn_def
    by (fastforce simp: record_action_def split: prod.splits sum.splits dest!: sql_history)
qed

lemma log_quiet_txn:
  assumes "\<And>w2 y w3. p w2 = (y, w3) \<Longrightarrow> history w3 = history w2" "in_txn p w = (r, w')"
  shows "\<exists>hs. history w' = history w @ hs \<and> set hs \<subseteq> {TxnBegin, TxnCommit, TxnRollback}"
  using assms(2)
  by (auto simp: in_txn_def record_action_def split: prod.splits sum.splits dest!: sql_history assms(1))

text \<open>Nothing was written, sent, published or deleted: at most transactions were opened and closed.\<close>

definition no_effect :: "world \<Rightarrow> world \<Rightarrow> bool" where
  "no_effect w w' \<longleftrightarrow> db w' = db w \<and>
     (\<exists>hs. history w' = history w @ hs \<and> set hs \<subseteq> {TxnBegin, TxnCommit, TxnRollback})"

lemma no_effect_wrap: "no_effect w (snd (p w)) \<Longrightarrow> no_effect w (snd (wrap k p w))"
  by (simp add: wrap_snd)

lemma commit_point: "sql (\<lambda>d. (Inr (), d)) w = (x, w') \<Longrightarrow> db w' = db w \<and> history w' = history w"
  by (auto simp: sql_def Let_def split: if_splits)

lemma no_effect_txn:
  assumes "\<And>w1 y w2. db w1 = db w \<Longrightarrow> p w1 = (y, w2) \<Longrightarrow> db w2 = db w1 \<and> history w2 = history w1"
  shows "no_effect w (snd (in_txn p w))"
proof -
  obtain x w1 where open_txn: "sql (\<lambda>d. (Inr (), d)) w = (x, w1)" by (rule prod.exhaust)
  obtain y w2 where body: "p (record_action TxnBegin w1) = (y, w2)" by (rule prod.exhaust)
  obtain z w3 where commit: "sql (\<lambda>d. (Inr (), d)) w2 = (z, w3)" by (rule prod.exhaust)
  have 1: "db w1 = db w" "history w1 = history w" using commit_point [OF open_txn] by simp_all
  then have 2: "db w2 = db w" "history w2 = history w @ [TxnBegin]"
    using assms [OF _ body] by (simp_all add: record_action_def)
  have 3: "db w3 = db w" "history w3 = history w @ [TxnBegin]" using commit_point [OF commit] 2 by simp_all
  show ?thesis
    by (cases x; cases y; cases z)
      (simp_all add: in_txn_def open_txn body commit no_effect_def 1 2 3 record_action_def [of TxnCommit]
        record_action_def [of TxnRollback])
qed

lemmas log_rules = log_sql log_queue_call log_in_txn logged.ev_rules

section \<open>Running without faults\<close>

definition no_faults :: "world \<Rightarrow> bool" where
  "no_faults w \<longleftrightarrow> sql_faults w = [] \<and> send_faults w = []"

lemma sql_no_fault [simp]:
  "sql_faults w = [] \<Longrightarrow> sql f w = (case f (db w) of (r, d) \<Rightarrow> (r, w\<lparr>db := d\<rparr>))"
  by (cases w) (simp add: sql_def split: prod.splits)

lemma select_all_run [simp]: "sql_faults w = [] \<Longrightarrow> select_all q w = (Inr (q (db w)), w)"
  by (cases w) (simp add: select_all_def)

lemma fetch_one_run [simp]:
  "sql_faults w = [] \<Longrightarrow> fetch_one q w =
     (case q (db w) of None \<Rightarrow> Inl (wrapped NotFoundError (leaf RecordNotFound)) | Some r \<Rightarrow> Inr r, w)"
  by (cases w)
    (simp add: fetch_one_def select_first_def not_found_or_error_def split: option.splits)

lemma change_run [simp]: "sql_faults w = [] \<Longrightarrow> change f w = (Inr (), w\<lparr>db := f (db w)\<rparr>)"
  by (simp add: change_def)

lemma insert_if_run [simp]:
  "sql_faults w = [] \<Longrightarrow> insert_if ok f w =
     (if ok (db w) then (Inr (), w\<lparr>db := f (db w)\<rparr>) else (Inl (leaf DriverError), w))"
  by (cases w) (simp add: insert_if_def)

lemma time_now_run [simp]: "time_now w = (Inr (clock w (ticks w)), w\<lparr>ticks := Suc (ticks w)\<rparr>)"
  by (simp add: time_now_def)

lemma ulid_make_run [simp]: "ulid_make w = (Inr (ulid_of w (ulids w)), w\<lparr>ulids := Suc (ulids w)\<rparr>)"
  by (simp add: ulid_make_def)

lemma send_msg_run [simp]:
  "send_faults w = [] \<Longrightarrow> send_msg q m w = (Inr (), record_action (Sent q m) w)"
  by (cases w) (simp add: send_msg_def queue_call_def)

lemma in_txn_run:
  assumes "sql_faults w = []" "p (record_action TxnBegin w) = (Inr a, w2)" "sql_faults w2 = []"
  shows "in_txn p w = (Inr a, record_action TxnCommit w2)"
  using assms by (simp add: in_txn_def)

lemma record_action_simps [simp]:
  "db (record_action a w) = db w" "sql_faults (record_action a w) = sql_faults w"
  "send_faults (record_action a w) = send_faults w" "ulids (record_action a w) = ulids w"
  "ulid_of (record_action a w) = ulid_of w" "ticks (record_action a w) = ticks w"
  "clock (record_action a w) = clock w" "time_text (record_action a w) = time_text w"
  by (simp_all add: record_action_def)

section \<open>The errors of the store\<close>

text \<open>Reads, writes and transactions bring in no error kind of a higher layer.\<close>

lemma never_sql: "(\<And>d e d'. f d = (Inl e, d') \<Longrightarrow> \<not> err_as k e) \<Longrightarrow> k \<noteq> DriverError \<Longrightarrow> never k (sql f)"
  by (rule neverI) (auto simp: sql_def Let_def split: if_splits prod.splits)

lemma never_fetch_one:
  assumes "k \<notin> {DriverError, RecordNotFound, NotFoundError, SQLError}"
  shows "never k (fetch_one q)"
proof (rule neverI)
  fix w e w'
  assume "fetch_one q w = (Inl e, w')"
  then obtain e' where e': "select_first q w = (Inl e', w')" and e: "e = not_found_or_error e'"
    by (auto simp: fetch_one_def split: prod.splits sum.splits)
  have "never k (select_first q)"
    unfolding select_first_def by (rule never_sql) (use assms in \<open>auto split: option.splits\<close>)
  from neverD [OF this e'] show "\<not> err_as k e" using assms by (auto simp: e not_found_or_error_def)
qed

lemma never_change: "k \<noteq> DriverError \<Longrightarrow> never k (change f)"
  unfolding change_def by (rule never_sql) simp_all

lemma never_in_txn:
  assumes "never k p" "k \<noteq> DriverError"
  shows "never k (in_txn p)"
proof (rule neverI)
  fix w e w'
  assume run: "in_txn p w = (Inl e, w')"
  have nop: "\<not> err_as k e" if "sql (\<lambda>d. (Inr (), d)) w1 = (Inl e, w2)" for w1 e w2
    using neverD [OF never_sql that] assms(2) by simp
  show "\<not> err_as k e"
    using run unfolding in_txn_def by (auto split: prod.splits sum.splits dest: nop neverD [OF assms(1)])
qed

lemma never_time_now: "never k time_now"
  by (simp add: never_def)

lemmas never_store = never_fetch_one never_change never_in_txn never_time_now never_rules

section \<open>Sample worlds\<close>

text \<open>Worlds on which the witnesses evaluate: identifiers \<open>a\<close>, \<open>aa\<close>, ..., a clock that ticks.\<close>

definition no_tables :: tables where
  "no_tables = \<lparr>tasks = [], execs = [], workflows = [], steps = [], deps = [], links = [], events = []\<rparr>"

definition sample_world :: "tables \<Rightarrow> bool list \<Rightarrow> world" where
  "sample_world d fs = \<lparr>db = d, clock = (\<lambda>n. 1000 + int n), ticks = 0,
     ulid_of = (\<lambda>n. replicate (Suc n) (CHR ''a'')), ulids = 0,
     text_of = (\<lambda>_. ''text''), time_text = (\<lambda>_. ''time''), err_text = (\<lambda>_. ''error''),
     sql_faults = fs, send_faults = [], history = []\<rparr>"

end
