(* ===== verification/Audit_Store.thy ===== *)
theory Audit_Store
  imports Store
begin

text \<open>\<open>db/audit.go\<close>: recording, stamping and listing of the system events.\<close>

definition new_event :: "ident \<Rightarrow> event_type \<Rightarrow> event_meta \<Rightarrow> time \<Rightarrow> event_row" where
  "new_event i ty m t = \<lparr>v_id = i, v_type = ty, v_meta = meta_json m, v_created = t,
     v_updated = t, v_broadcast = None\<rparr>"

definition define_new_system_event :: "event_type \<Rightarrow> event_meta \<Rightarrow> (world, event_row) m" where
  "define_new_system_event ty m =
     (if \<not> meta_valid m then throw (wrapped ValidationError (leaf ValidatorError))
      else
        bnd ulid_make (\<lambda>i.
        if i = [] then throw (wrapped ValidationError (leaf ValidatorError))
        else
          bnd time_now (\<lambda>t.
          let v = new_event i ty m t in
          bnd (wrap SQLError (insert_if (\<lambda>d. i \<notin> v_id ` set (events d))
              (\<lambda>d. d\<lparr>events := events d @ [v]\<rparr>))) (\<lambda>_.
          ret v))))"

definition record_invalid_task_ipc_message :: "string \<Rightarrow> string \<Rightarrow> string \<Rightarrow> (world, unit) m" where
  "record_invalid_task_ipc_message receiver raw reason =
     bnd (define_new_system_event InvalidTaskIpcMessage (InvalidIpc receiver raw reason)) (\<lambda>_. ret ())"

definition record_task_engine_failure :: "task_row \<Rightarrow> ident \<Rightarrow> string \<Rightarrow> (world, unit) m" where
  "record_task_engine_failure t i reason =
     bnd (define_new_system_event EngineFailedTask (EngineFailure (t_id t) i reason (t_creator t)))
       (\<lambda>_. ret ())"

definition mark_system_events_broadcast :: "ident list \<Rightarrow> time \<Rightarrow> (world, unit) m" where
  "mark_system_events_broadcast ids t =
     (if ids = [] then ret ()
      else wrap SQLError (change (\<lambda>d. d\<lparr>events :=
        update_rows (\<lambda>v. v_id v \<in> set ids \<and> v_broadcast v = None) (\<lambda>v. v\<lparr>v_broadcast := Some t\<rparr>)
          (events d)\<rparr>)))"

section \<open>Listing\<close>

text \<open>\<open>LIMIT\<close> and \<open>OFFSET\<close> with their validator, shared by all list queries.\<close>

record page =
  pg_limit :: "int option"
  pg_offset :: "int option"

definition page_valid :: "page \<Rightarrow> bool" where
  "page_valid p \<longleftrightarrow> (case pg_limit p of None \<Rightarrow> True | Some n \<Rightarrow> n > 0) \<and>
     (case pg_offset p of None \<Rightarrow> True | Some n \<Rightarrow> n \<ge> 0)"

definition page_rows :: "page \<Rightarrow> 'r list \<Rightarrow> 'r list" where
  "page_rows p rs =
     (let rs' = (case pg_offset p of None \<Rightarrow> rs | Some n \<Rightarrow> drop (nat n) rs) in
      case pg_limit p of None \<Rightarrow> rs' | Some n \<Rightarrow> take (nat n) rs')"

lemma page_rows_subset: "set (page_rows p rs) \<subseteq> set rs"
  by (auto simp: page_rows_def Let_def split: option.splits dest: in_set_takeD in_set_dropD)

definition all_rows :: page where
  "all_rows = \<lparr>pg_limit = None, pg_offset = None\<rparr>"

lemma page_all_rows [simp]: "page_valid all_rows" "page_rows all_rows rs = rs"
  by (simp_all add: all_rows_def page_valid_def page_rows_def)

text \<open>A filter on a set of values: the empty list does not constrain.\<close>

definition in_or_any :: "'a list \<Rightarrow> 'a \<Rightarrow> bool" where
  "in_or_any xs x \<longleftrightarrow> xs = [] \<or> x \<in> set xs"

record event_filter = page +
  vf_types :: "event_type list"
  vf_after :: "time option"
  vf_before :: "time option"
  vf_unsent :: bool

definition list_system_events :: "event_filter \<Rightarrow> (world, event_row list) m" where
  "list_system_events f =
     (if \<not> page_valid (page.truncate f) then throw (wrapped ValidationError (leaf ValidatorError))
      else wrap SQLError (select_all (\<lambda>d.
        page_rows (page.truncate f)
          (sort_key v_id
            (filter (\<lambda>v. in_or_any (vf_types f) (v_type v) \<and>
                (case vf_after f of None \<Rightarrow> True | Some t \<Rightarrow> v_created v \<ge> t) \<and>
                (case vf_before f of None \<Rightarrow> True | Some t \<Rightarrow> v_created v \<le> t) \<and>
                (vf_unsent f \<longrightarrow> v_broadcast v = None))
              (events d))))))"

section \<open>Facts\<close>

interpretation event_stamp: keyed_update v_id "\<lambda>v. v\<lparr>v_broadcast := Some t\<rparr>" for t
  by unfold_locales simp

lemma define_new_system_event_run:
  assumes "sql_faults w = []" "meta_valid m" "ulid_of w (ulids w) \<noteq> []"
    "ulid_of w (ulids w) \<notin> v_id ` set (events (db w))"
  shows "define_new_system_event ty m w =
    (let v = new_event (ulid_of w (ulids w)) ty m (clock w (ticks w)) in
     (Inr v, w\<lparr>ulids := Suc (ulids w), ticks := Suc (ticks w),
        db := (db w)\<lparr>events := events (db w) @ [v]\<rparr>\<rparr>))"
  using assms by (simp add: define_new_system_event_def Let_def)

text \<open>Stamping events as broadcast is idempotent and never overwrites a stamp: an event is
  stamped exactly when it was named and not yet stamped, and keeps the earliest stamp.\<close>

theorem mark_broadcast_keeps_first:
  assumes "sql_faults w = []" "distinct (map v_id (events (db w)))"
  shows "\<exists>w'. mark_system_events_broadcast ids t w = (Inr (), w') \<and>
    (\<forall>i v. find_row v_id i (events (db w)) = Some v \<longrightarrow>
       find_row v_id i (events (db w')) =
         Some (v\<lparr>v_broadcast := (case v_broadcast v of
            None \<Rightarrow> if i \<in> set ids then Some t else None | Some s \<Rightarrow> Some s)\<rparr>))"
  using assms
  by (auto simp: mark_system_events_broadcast_def event_stamp.find_update dest!: find_row_Some
      split: option.splits)

theorem mark_broadcast_keeps_first_witness:
  "let v = new_event ''e'' CompleteTask (TaskEvents ''t'' ''c'') 5;
       u = new_event ''f'' CompleteTask (TaskEvents ''t'' ''c'') 5\<lparr>v_broadcast := Some 1\<rparr>;
       w = sample_world (no_tables\<lparr>events := [v, u]\<rparr>) [] in
   \<exists>w'. mark_system_events_broadcast [''e'', ''f''] 9 w = (Inr (), w') \<and>
     find_row v_id ''e'' (events (db w')) = Some (v\<lparr>v_broadcast := Some 9\<rparr>) \<and>
     find_row v_id ''f'' (events (db w')) = Some u"
  using mark_broadcast_keeps_first [of "sample_world (no_tables\<lparr>events :=
      [new_event ''e'' CompleteTask (TaskEvents ''t'' ''c'') 5,
       new_event ''f'' CompleteTask (TaskEvents ''t'' ''c'') 5\<lparr>v_broadcast := Some 1\<rparr>]\<rparr>) []"
    "[''e'', ''f'']" 9]
  by (force simp: sample_world_def new_event_def)

end
