(* ===== verification/Task_Store.thy ===== *)
theory Task_Store
  imports Audit_Store
begin

text \<open>
  \<open>db/task.go\<close>: tasks and their execution instances. The state changes go through
  \<open>ValidNextState\<close>; the life of a row is a path of its state machine, whatever statement fails.
\<close>

section \<open>Tasks\<close>

record new_task =
  nt_name :: string
  nt_creator :: string
  nt_params :: "payload option"
  nt_meta :: "payload option"
  nt_retry :: retry_params
  nt_deadline :: "time option"

definition task_row_valid :: "task_row \<Rightarrow> bool" where
  "task_row_valid t \<longleftrightarrow> t_id t \<noteq> [] \<and> t_name t \<noteq> [] \<and> t_creator t \<noteq> [] \<and> valid_retry (t_retry t)"

definition new_task_row :: "new_task \<Rightarrow> schedule_class \<Rightarrow> time option \<Rightarrow> ident \<Rightarrow> time \<Rightarrow> task_row" where
  "new_task_row p c target i t = \<lparr>t_id = i, t_name = nt_name p, t_creator = nt_creator p,
     t_class = c, t_state = TaskPending, t_params = marshal_payload (nt_params p),
     t_meta = marshal_payload (nt_meta p), t_target = target, t_deadline = nt_deadline p,
     t_retry = nt_retry p, t_created = t, t_updated = t\<rparr>"

definition insert_task :: "task_row \<Rightarrow> (world, unit) m" where
  "insert_task t = insert_if (\<lambda>d. t_id t \<notin> t_id ` set (tasks d)) (\<lambda>d. d\<lparr>tasks := tasks d @ [t]\<rparr>)"

definition define_task :: "schedule_class \<Rightarrow> time option \<Rightarrow> new_task \<Rightarrow> (world, task_row) m" where
  "define_task c target p =
     (if \<not> payload_valid (nt_params p) then throw (wrapped ValidationError (leaf ValidatorError))
      else if \<not> payload_valid (nt_meta p) then throw (wrapped ValidationError (leaf ValidatorError))
      else
        bnd ulid_make (\<lambda>i.
        if \<not> task_row_valid (new_task_row p c target i zero_time)
        then throw (wrapped ValidationError (leaf ValidatorError))
        else
          bnd time_now (\<lambda>t.
          let row = new_task_row p c target i t in
          bnd (wrap SQLError (insert_task row)) (\<lambda>_. ret row))))"

definition define_new_one_shot_task :: "new_task \<Rightarrow> (world, task_row) m" where
  "define_new_one_shot_task = define_task ImmediateOneShot None"

definition define_new_scheduled_one_shot_task :: "new_task \<Rightarrow> time \<Rightarrow> (world, task_row) m" where
  "define_new_scheduled_one_shot_task p target = define_task ScheduledOneShot (Some target) p"

definition get_task :: "ident \<Rightarrow> (world, task_row) m" where
  "get_task i = fetch_one (\<lambda>d. find_row t_id i (tasks d))"

text \<open>\<open>ValidNextState\<close> with its error wrapped.\<close>

definition check_move :: "goerr + unit \<Rightarrow> (world, unit) m" where
  "check_move r = (case r of Inl e \<Rightarrow> throw (wrapped ConsistencyError e) | Inr _ \<Rightarrow> ret ())"

fun task_event :: "task_state \<Rightarrow> event_type option" where
  "task_event TaskActive = Some ActivateTask"
| "task_event TaskComplete = Some CompleteTask"
| "task_event TaskFailed = Some FailedTask"
| "task_event TaskCancelled = Some CancelledTask"
| "task_event TaskTimeout = Some TimedOutTask"
| "task_event _ = None"

definition set_task_state :: "ident \<Rightarrow> task_state \<Rightarrow> tables \<Rightarrow> tables" where
  "set_task_state i s d =
     d\<lparr>tasks := update_rows (\<lambda>r. t_id r = i) (\<lambda>r. r\<lparr>t_state := s\<rparr>) (tasks d)\<rparr>"

definition update_task_state :: "ident \<Rightarrow> task_state \<Rightarrow> (world, unit) m" where
  "update_task_state i s =
     bnd (get_task i) (\<lambda>t.
     bnd (check_move (task_valid_next_state (t_state t) s)) (\<lambda>_.
     bnd (wrap SQLError (change (set_task_state (t_id t) s))) (\<lambda>_.
     case task_event s of
       None \<Rightarrow> ret ()
     | Some ty \<Rightarrow>
         bnd (wrap SQLError (define_new_system_event ty (TaskEvents i (t_creator t)))) (\<lambda>_. ret ()))))"

definition mark_task_active :: "ident \<Rightarrow> (world, unit) m" where
  "mark_task_active i = update_task_state i TaskActive"

definition mark_task_complete :: "ident \<Rightarrow> (world, unit) m" where
  "mark_task_complete i = update_task_state i TaskComplete"

definition mark_task_failed :: "ident \<Rightarrow> (world, unit) m" where
  "mark_task_failed i = update_task_state i TaskFailed"

definition mark_task_cancelling :: "ident \<Rightarrow> (world, unit) m" where
  "mark_task_cancelling i = update_task_state i TaskCancelling"

definition mark_task_cancelled :: "ident \<Rightarrow> (world, unit) m" where
  "mark_task_cancelled i = update_task_state i TaskCancelled"

definition mark_task_timed_out :: "ident \<Rightarrow> (world, unit) m" where
  "mark_task_timed_out i = update_task_state i TaskTimeout"

lemmas mark_task_defs = mark_task_active_def mark_task_complete_def mark_task_failed_def
  mark_task_cancelling_def mark_task_cancelled_def mark_task_timed_out_def

definition update_task_deadline :: "ident \<Rightarrow> time \<Rightarrow> (world, unit) m" where
  "update_task_deadline i t =
     bnd (get_task i) (\<lambda>row.
     wrap SQLError (change (\<lambda>d. d\<lparr>tasks :=
       update_rows (\<lambda>r. t_id r = t_id row) (\<lambda>r. r\<lparr>t_deadline := Some t\<rparr>) (tasks d)\<rparr>)))"

record task_filter = page +
  tf_ids :: "ident list"
  tf_names :: "string list"
  tf_classes :: "schedule_class list"
  tf_states :: "task_state list"
  tf_deadline :: "time option"

definition any_task :: task_filter where
  "any_task = \<lparr>pg_limit = None, pg_offset = None, tf_ids = [], tf_names = [], tf_classes = [],
     tf_states = [], tf_deadline = None\<rparr>"

text \<open>\<open>deadline is not null and deadline <= ?\<close>, when the bound is given.\<close>

definition due_by :: "time option \<Rightarrow> time option \<Rightarrow> bool" where
  "due_by bound x = (case bound of None \<Rightarrow> True
     | Some b \<Rightarrow> (case x of None \<Rightarrow> False | Some t \<Rightarrow> t \<le> b))"

definition task_matches :: "task_filter \<Rightarrow> task_row \<Rightarrow> bool" where
  "task_matches f t \<longleftrightarrow> in_or_any (tf_ids f) (t_id t) \<and> in_or_any (tf_names f) (t_name t) \<and>
     in_or_any (tf_classes f) (t_class t) \<and> in_or_any (tf_states f) (t_state t) \<and>
     due_by (tf_deadline f) (t_deadline t)"

definition list_tasks :: "task_filter \<Rightarrow> (world, task_row list) m" where
  "list_tasks f =
     (if \<not> page_valid (page.truncate f) then throw (wrapped ValidationError (leaf ValidatorError))
      else wrap SQLError (select_all (\<lambda>d. page_rows (page.truncate f)
        (sort_key t_created (filter (task_matches f) (tasks d))))))"

text \<open>
  Deleting tasks cascades to their execution instances and step links; a retry instance that
  pointed to a deleted instance forgets its parent.
\<close>

definition cascade_tasks :: "(ident \<Rightarrow> bool) \<Rightarrow> tables \<Rightarrow> tables" where
  "cascade_tasks p d =
     (let gone = e_id ` set (filter (\<lambda>e. p (e_task e)) (execs d)) in
      d\<lparr>tasks := filter (\<lambda>t. \<not> p (t_id t)) (tasks d),
        execs := map (\<lambda>e. case e_parent e of
            None \<Rightarrow> e | Some q \<Rightarrow> if q \<in> gone then e\<lparr>e_parent := None\<rparr> else e)
          (filter (\<lambda>e. \<not> p (e_task e)) (execs d)),
        links := filter (\<lambda>l. \<not> p (l_task l)) (links d)\<rparr>)"

definition delete_task :: "ident \<Rightarrow> (world, unit) m" where
  "delete_task i =
     bnd (get_task i) (\<lambda>t.
     bnd (wrap SQLError (select_all (\<lambda>d. length (filter (\<lambda>l. l_task l = i) (links d))))) (\<lambda>n.
     if n > 0 then throw (leaf ConsistencyError)
     else
       bnd (wrap SQLError (change (cascade_tasks (\<lambda>x. x = t_id t)))) (\<lambda>_.
       bnd (wrap SQLError (define_new_system_event DeleteTask (TaskEvents i (t_creator t))))
         (\<lambda>_. ret ()))))"

section \<open>Execution instances\<close>

definition exec_row_valid :: "exec_row \<Rightarrow> bool" where
  "exec_row_valid e \<longleftrightarrow> e_id e \<noteq> [] \<and> e_task e \<noteq> []"

definition new_exec_row ::
  "task_row \<Rightarrow> exec_class \<Rightarrow> exec_state \<Rightarrow> time option \<Rightarrow> ident option \<Rightarrow> ident \<Rightarrow> time \<Rightarrow> exec_row"
where
  "new_exec_row t c s start parent i now = \<lparr>e_id = i, e_task = t_id t, e_class = c, e_state = s,
     e_terminal = None, e_terminated = None, e_execute_at = start, e_worker = None, e_parent = parent,
     e_error = None, e_disposition = None, e_deadline = t_deadline t, e_created = now,
     e_updated = now\<rparr>"

definition insert_exec :: "exec_row \<Rightarrow> (world, unit) m" where
  "insert_exec e =
     insert_if (\<lambda>d. e_id e \<notin> e_id ` set (execs d) \<and> e_task e \<in> t_id ` set (tasks d) \<and>
         (case e_parent e of None \<Rightarrow> True | Some q \<Rightarrow> q \<in> e_id ` set (execs d)))
       (\<lambda>d. d\<lparr>execs := execs d @ [e]\<rparr>)"

definition define_exec ::
  "task_row \<Rightarrow> exec_class \<Rightarrow> exec_state \<Rightarrow> time option \<Rightarrow> ident option \<Rightarrow> (world, exec_row) m"
where
  "define_exec t c s start parent =
     bnd ulid_make (\<lambda>i.
     if \<not> exec_row_valid (new_exec_row t c s start parent i zero_time)
     then throw (wrapped ValidationError (leaf ValidatorError))
     else
       bnd time_now (\<lambda>now.
       let row = new_exec_row t c s start parent i now in
       bnd (wrap SQLError (insert_exec row)) (\<lambda>_. ret row)))"

definition define_new_task_exec_instance :: "task_row \<Rightarrow> (world, exec_row) m" where
  "define_new_task_exec_instance t =
     (case t_class t of
        ImmediateOneShot \<Rightarrow> define_exec t ExecImmediate ExecDefined None None
      | ScheduledOneShot \<Rightarrow> define_exec t ExecScheduledClass ExecScheduled (t_target t) None)"

definition define_new_task_retry_exec_instance ::
  "task_row \<Rightarrow> exec_row \<Rightarrow> time \<Rightarrow> (world, exec_row) m"
where
  "define_new_task_retry_exec_instance t failed start =
     define_exec t ExecRetry ExecScheduled (Some start) (Some (e_id failed))"

definition get_task_execution :: "ident \<Rightarrow> (world, exec_row) m" where
  "get_task_execution i = fetch_one (\<lambda>d. find_row e_id i (execs d))"

record exec_filter = page +
  ef_task :: "ident option"
  ef_worker :: "string option"
  ef_classes :: "exec_class list"
  ef_states :: "exec_state list"
  ef_terminals :: "exec_state list"
  ef_deadline :: "time option"
  ef_start :: "time option"

definition any_exec :: exec_filter where
  "any_exec = \<lparr>pg_limit = None, pg_offset = None, ef_task = None, ef_worker = None,
     ef_classes = [], ef_states = [], ef_terminals = [], ef_deadline = None, ef_start = None\<rparr>"

definition exec_matches :: "exec_filter \<Rightarrow> exec_row \<Rightarrow> bool" where
  "exec_matches f e \<longleftrightarrow>
     (case ef_task f of None \<Rightarrow> True | Some i \<Rightarrow> e_task e = i) \<and>
     (case ef_worker f of None \<Rightarrow> True | Some n \<Rightarrow> e_worker e = Some n) \<and>
     in_or_any (ef_classes f) (e_class e) \<and> in_or_any (ef_states f) (e_state e) \<and>
     (ef_terminals f = [] \<or> (case e_terminal e of None \<Rightarrow> False | Some s \<Rightarrow> s \<in> set (ef_terminals f))) \<and>
     due_by (ef_deadline f) (e_deadline e) \<and> due_by (ef_start f) (e_execute_at e)"

definition list_all_executions :: "exec_filter \<Rightarrow> (world, exec_row list) m" where
  "list_all_executions f =
     (if \<not> page_valid (page.truncate f) then throw (wrapped ValidationError (leaf ValidatorError))
      else wrap SQLError (select_all (\<lambda>d. page_rows (page.truncate f)
        (sort_key e_created (filter (exec_matches f) (execs d))))))"

definition list_task_executions :: "ident \<Rightarrow> exec_filter \<Rightarrow> (world, exec_row list) m" where
  "list_task_executions i f = list_all_executions (f\<lparr>ef_task := Some i\<rparr>)"

text \<open>The columns \<open>updateTaskExecutionState\<close> writes for a state.\<close>

record exec_update =
  eu_worker :: "string option"
  eu_error :: "string option"
  eu_disposition :: "disposition option"
  eu_at :: "time option"

fun exec_columns :: "exec_state \<Rightarrow> exec_update \<Rightarrow> exec_row \<Rightarrow> exec_row" where
  "exec_columns ExecAcquired u e = e\<lparr>e_state := ExecAcquired, e_worker := eu_worker u\<rparr>"
| "exec_columns ExecProcessed u e =
     e\<lparr>e_state := ExecProcessed, e_terminal := Some ExecProcessed, e_terminated := eu_at u\<rparr>"
| "exec_columns ExecFailed u e =
     e\<lparr>e_state := ExecFailed, e_error := eu_error u, e_terminal := Some ExecFailed,
       e_terminated := eu_at u, e_disposition := eu_disposition u\<rparr>"
| "exec_columns ExecCancelled u e =
     e\<lparr>e_state := ExecCancelled, e_error := eu_error u, e_terminal := Some ExecCancelled,
       e_terminated := eu_at u\<rparr>"
| "exec_columns s u e = e\<lparr>e_state := s\<rparr>"

definition set_exec_state :: "ident \<Rightarrow> exec_state \<Rightarrow> exec_update \<Rightarrow> time \<Rightarrow> tables \<Rightarrow> tables" where
  "set_exec_state i s u now d =
     d\<lparr>execs := update_rows (\<lambda>r. e_id r = i) (\<lambda>r. exec_columns s u r\<lparr>e_updated := now\<rparr>) (execs d)\<rparr>"

definition update_task_execution_state ::
  "ident \<Rightarrow> exec_state \<Rightarrow> exec_update \<Rightarrow> (world, unit) m"
where
  "update_task_execution_state i s u =
     bnd (get_task_execution i) (\<lambda>e.
     bnd (check_move (exec_valid_next_state (e_state e) s)) (\<lambda>_.
     if s = ExecAcquired \<and> eu_worker u = None then throw (leaf ConsistencyError)
     else
       bnd time_now (\<lambda>now.
       wrap SQLError (change (set_exec_state (e_id e) s u now)))))"

definition no_update :: exec_update where
  "no_update = \<lparr>eu_worker = None, eu_error = None, eu_disposition = None, eu_at = None\<rparr>"

definition mark_task_exec_queued :: "ident \<Rightarrow> (world, unit) m" where
  "mark_task_exec_queued i = update_task_execution_state i ExecEnqueued no_update"

definition mark_task_exec_acquired :: "ident \<Rightarrow> string \<Rightarrow> (world, unit) m" where
  "mark_task_exec_acquired i worker =
     update_task_execution_state i ExecAcquired (no_update\<lparr>eu_worker := Some worker\<rparr>)"

definition mark_task_exec_processing :: "ident \<Rightarrow> (world, unit) m" where
  "mark_task_exec_processing i = update_task_execution_state i ExecProcessing no_update"

definition mark_task_exec_processed :: "ident \<Rightarrow> time \<Rightarrow> (world, unit) m" where
  "mark_task_exec_processed i t =
     update_task_execution_state i ExecProcessed (no_update\<lparr>eu_at := Some t\<rparr>)"

definition mark_task_exec_failed ::
  "ident \<Rightarrow> string \<Rightarrow> disposition option \<Rightarrow> time \<Rightarrow> (world, unit) m"
where
  "mark_task_exec_failed i msg disp t =
     update_task_execution_state i ExecFailed
       (no_update\<lparr>eu_error := Some msg, eu_disposition := disp, eu_at := Some t\<rparr>)"

definition mark_task_exec_finalized :: "ident \<Rightarrow> (world, unit) m" where
  "mark_task_exec_finalized i = update_task_execution_state i ExecFinalized no_update"

definition mark_task_exec_cancelled :: "ident \<Rightarrow> string \<Rightarrow> time \<Rightarrow> (world, unit) m" where
  "mark_task_exec_cancelled i msg t =
     update_task_execution_state i ExecCancelled (no_update\<lparr>eu_error := Some msg, eu_at := Some t\<rparr>)"

lemmas mark_exec_defs = mark_task_exec_queued_def mark_task_exec_acquired_def
  mark_task_exec_processing_def mark_task_exec_processed_def mark_task_exec_failed_def
  mark_task_exec_finalized_def mark_task_exec_cancelled_def

end
