(* ===== verification/Task_Evolution.thy ===== *)
theory Task_Evolution
  imports Task_Store
begin

text \<open>
  How the task tables may change: the contract of one task row and of one execution row, the
  locale of all table relations that admit such changes, and the proof that every operation of
  \<open>db/task.go\<close> that schedulers and workers call stays within it.
\<close>

section \<open>One row\<close>

definition task_adv :: "task_row \<Rightarrow> task_row \<Rightarrow> bool" where
  "task_adv r r' \<longleftrightarrow> moves_star task_transitions (t_state r) (t_state r') \<and>
     r' = r\<lparr>t_state := t_state r', t_deadline := t_deadline r'\<rparr>"

text \<open>The outcome columns agree with the state of an execution.\<close>

fun exec_outcome_ok :: "exec_state \<Rightarrow> exec_state option \<Rightarrow> bool" where
  "exec_outcome_ok ExecProcessed x = (x = Some ExecProcessed)"
| "exec_outcome_ok ExecFailed x = (x = Some ExecFailed)"
| "exec_outcome_ok ExecCancelled x = (x = Some ExecCancelled)"
| "exec_outcome_ok ExecFinalized x = (x = Some ExecProcessed \<or> x = Some ExecFailed)"
| "exec_outcome_ok _ x = (x = None)"

text \<open>The columns of an instance agree with its state: the outcome, the worker, and what is recorded
  only with an outcome.\<close>

definition exec_ok :: "exec_row \<Rightarrow> bool" where
  "exec_ok e \<longleftrightarrow> exec_outcome_ok (e_state e) (e_terminal e) \<and>
     (e_state e \<in> {ExecDefined, ExecScheduled, ExecEnqueued} \<longrightarrow> e_worker e = None) \<and>
     (e_state e \<in> {ExecAcquired, ExecProcessing, ExecProcessed} \<longrightarrow> e_worker e \<noteq> None) \<and>
     (e_terminal e = None \<longrightarrow> e_terminated e = None) \<and>
     (e_terminal e \<notin> {Some ExecFailed, Some ExecCancelled} \<longrightarrow> e_error e = None) \<and>
     (e_terminal e \<noteq> Some ExecFailed \<longrightarrow> e_disposition e = None)"

definition same_instance :: "exec_row \<Rightarrow> exec_row \<Rightarrow> bool" where
  "same_instance r r' \<longleftrightarrow> e_id r' = e_id r \<and> e_task r' = e_task r \<and> e_class r' = e_class r \<and>
     e_parent r' = e_parent r \<and> e_execute_at r' = e_execute_at r \<and>
     e_deadline r' = e_deadline r \<and> e_created r' = e_created r"

definition same_outcome :: "exec_row \<Rightarrow> exec_row \<Rightarrow> bool" where
  "same_outcome r r' \<longleftrightarrow> e_terminal r' = e_terminal r \<and> e_terminated r' = e_terminated r \<and>
     e_error r' = e_error r \<and> e_disposition r' = e_disposition r"

definition exec_adv :: "exec_row \<Rightarrow> exec_row \<Rightarrow> bool" where
  "exec_adv r r' \<longleftrightarrow> moves_star exec_transitions (e_state r) (e_state r') \<and> same_instance r r' \<and>
     (exec_ok r \<longrightarrow> exec_ok r' \<and> (e_terminal r \<noteq> None \<longrightarrow> same_outcome r r'))"

definition new_exec_ok :: "exec_row \<Rightarrow> bool" where
  "new_exec_ok e \<longleftrightarrow> exec_row_valid e \<and> exec_ok e"

interpretation task_rows: row_evolution t_id task_adv task_row_valid
proof unfold_locales
  fix a b c :: task_row
  show "task_adv a a" by (simp add: task_adv_def)
  show "task_adv a b \<Longrightarrow> task_adv b c \<Longrightarrow> task_adv a c"
    by (cases a; cases b; cases c) (auto simp: task_adv_def)
  show "task_row_valid a \<Longrightarrow> task_adv a b \<Longrightarrow> task_row_valid b"
    by (cases a; cases b) (auto simp: task_adv_def task_row_valid_def)
qed

interpretation exec_rows: row_evolution e_id exec_adv new_exec_ok
proof unfold_locales
  fix a b c :: exec_row
  show "exec_adv a a" by (simp add: exec_adv_def same_instance_def same_outcome_def)
  show "exec_adv a b \<Longrightarrow> exec_adv b c \<Longrightarrow> exec_adv a c"
    by (auto simp: exec_adv_def same_instance_def same_outcome_def)
  show "new_exec_ok a \<Longrightarrow> exec_adv a b \<Longrightarrow> new_exec_ok b"
    by (auto simp: exec_adv_def new_exec_ok_def exec_row_valid_def same_instance_def)
qed

lemma exec_columns_state [simp]: "e_state (exec_columns s u e) = s"
  by (cases s) simp_all

lemma exec_columns_instance [simp]:
  "e_id (exec_columns s u e) = e_id e" "e_task (exec_columns s u e) = e_task e"
  "e_class (exec_columns s u e) = e_class e" "e_parent (exec_columns s u e) = e_parent e"
  "e_execute_at (exec_columns s u e) = e_execute_at e"
  "e_deadline (exec_columns s u e) = e_deadline e" "e_created (exec_columns s u e) = e_created e"
  by (cases s; simp)+

text \<open>A legal move of an instance advances it: the outcome is set once and kept to the end.\<close>

lemma exec_columns_adv:
  assumes "exec_valid_next_state (e_state e) s = Inr ()" "s = ExecAcquired \<longrightarrow> eu_worker u \<noteq> None"
  shows "exec_adv e (exec_columns s u e\<lparr>e_updated := now\<rparr>)"
proof -
  have mv: "moves exec_transitions (e_state e) s" using assms(1) by (simp add: exec_machine.valid_cases split: if_splits)
  with assms(2) have ok: "exec_ok e \<longrightarrow> exec_ok (exec_columns s u e\<lparr>e_updated := now\<rparr>) \<and>
      (e_terminal e \<noteq> None \<longrightarrow> same_outcome e (exec_columns s u e\<lparr>e_updated := now\<rparr>))"
    by (cases "e_state e"; cases s)
      (auto simp: exec_ok_def same_outcome_def moves_def succs_def)
  show ?thesis
    using mv ok by (simp add: exec_adv_def same_instance_def r_into_rtranclp)
qed

section \<open>Relations that admit the writes of the task store\<close>

definition same_workflow_tables :: "tables \<Rightarrow> tables \<Rightarrow> bool" where
  "same_workflow_tables d d' \<longleftrightarrow> workflows d' = workflows d \<and> steps d' = steps d \<and> deps d' = deps d"

text \<open>The smaller contract: a relation that does not look at the audit log admits everything that reads
  tasks and writes events.\<close>

locale log_evolution = db_evolution D for D :: "tables \<Rightarrow> tables \<Rightarrow> bool" +
  assumes D_events: "D d (d\<lparr>events := vs\<rparr>)"
begin

lemma ev_define_new_system_event: "evolves W (define_new_system_event ty m)"
  unfolding define_new_system_event_def Let_def
  by (intro ev_store ev_insert_if D_events)

lemma ev_record_invalid: "evolves W (record_invalid_task_ipc_message rc raw reason)"
  unfolding record_invalid_task_ipc_message_def
  by (intro ev_store ev_define_new_system_event)

lemma ev_record_engine_failure: "evolves W (record_task_engine_failure t i reason)"
  unfolding record_task_engine_failure_def
  by (intro ev_store ev_define_new_system_event)

lemma ev_mark_broadcast: "evolves W (mark_system_events_broadcast ids t)"
  unfolding mark_system_events_broadcast_def by (intro ev_store ev_change D_events)

lemma ev_list_system_events: "evolves W (list_system_events f)"
  unfolding list_system_events_def by (intro ev_store)

lemma ev_check_move: "evolves W (check_move r)"
  unfolding check_move_def by (intro ev_store)

lemma ev_get_task: "evolves W (get_task i)"
  unfolding get_task_def by (rule ev_fetch_one)

lemma ev_get_task_execution: "evolves W (get_task_execution i)"
  unfolding get_task_execution_def by (rule ev_fetch_one)

lemma ev_list_tasks: "evolves W (list_tasks f)"
  unfolding list_tasks_def by (intro ev_store)

lemma ev_list_all_executions: "evolves W (list_all_executions f)"
  unfolding list_all_executions_def by (intro ev_store)

lemma ev_list_task_executions: "evolves W (list_task_executions i f)"
  unfolding list_task_executions_def by (rule ev_list_all_executions)

lemmas ev_log = ev_define_new_system_event ev_record_invalid ev_record_engine_failure
  ev_mark_broadcast ev_list_system_events ev_check_move ev_get_task ev_get_task_execution
  ev_list_tasks ev_list_all_executions ev_list_task_executions ev_store

end

locale task_evolution = db_evolution D for D :: "tables \<Rightarrow> tables \<Rightarrow> bool" +
  assumes task_writes: "rows_evolve t_id task_adv task_row_valid (tasks d) (tasks d') \<Longrightarrow>
      rows_evolve e_id exec_adv new_exec_ok (execs d) (execs d') \<Longrightarrow>
      same_workflow_tables d d' \<Longrightarrow> links d' = links d \<Longrightarrow> D d d'"
begin

lemma D_log: "D d (d\<lparr>events := vs\<rparr>)"
  by (rule task_writes) (simp_all add: task_rows.rows_refl exec_rows.rows_refl same_workflow_tables_def)

end

sublocale task_evolution \<subseteq> log_evolution D
  by unfold_locales (rule D_log)

context task_evolution
begin

lemma D_tasks:
  "rows_evolve t_id task_adv task_row_valid (tasks d) ts \<Longrightarrow> D d (d\<lparr>tasks := ts\<rparr>)"
  by (rule task_writes) (simp_all add: exec_rows.rows_refl same_workflow_tables_def)

lemma D_execs: "rows_evolve e_id exec_adv new_exec_ok (execs d) es \<Longrightarrow> D d (d\<lparr>execs := es\<rparr>)"
  by (rule task_writes) (simp_all add: task_rows.rows_refl same_workflow_tables_def)

lemma ev_define_task: "evolves W (define_task c target p)"
proof -
  have ins: "evolves W (insert_task row)"
    if "task_row_valid row" for row
    unfolding insert_task_def
    by (intro ev_store ev_insert_if D_tasks task_rows.rows_append) (simp add: that)
  show ?thesis
    unfolding define_task_def Let_def
    by (intro ev_store ins) (simp_all add: task_row_valid_def new_task_row_def)
qed

lemma ev_update_task_state: "evolves W (update_task_state i s)"
  unfolding evolves_def update_task_state_def get_task_def
proof (intro allI at_fetch)
  fix w w' :: world and t
  assume row: "find_row t_id i (tasks (db w)) = Some t" and same: "db w' = db w"
  let ?ev = "\<lambda>_. case task_event s of None \<Rightarrow> ret ()
      | Some ty \<Rightarrow> bnd (wrap SQLError (define_new_system_event ty (TaskEvents i (t_creator t)))) (\<lambda>_. ret ())"
  show "W w' (snd (bnd (check_move (task_valid_next_state (t_state t) s))
      (\<lambda>_. bnd (wrap SQLError (change (set_task_state (t_id t) s))) ?ev) w'))"
  proof (cases "task_valid_next_state (t_state t) s")
    case (Inl e)
    then show ?thesis by (simp add: check_move_def W_def D_refl)
  next
    case (Inr u)
    then have mv: "moves_star task_transitions (t_state t) s"
      by (simp add: task_machine.valid_cases r_into_rtranclp split: if_splits)
    have "D (db w') (set_task_state (t_id t) s (db w'))"
      unfolding set_task_state_def same
      by (intro D_tasks task_rows.rows_update) (use row mv find_row_Some [OF row] in \<open>auto simp: task_adv_def\<close>)
    moreover have "evolves W (?ev a)" for a
      by (intro ev_store ev_define_new_system_event)
    ultimately show ?thesis
      using Inr by (simp add: check_move_def at_bnd at_change)
  qed
qed

lemma ev_update_task_deadline: "evolves W (update_task_deadline i t)"
  unfolding update_task_deadline_def get_task_def
  by (intro ev_store ev_change D_tasks task_rows.rows_update) (auto simp: task_adv_def)

lemma ev_define_exec:
  assumes "s \<in> {ExecDefined, ExecScheduled, ExecEnqueued}"
  shows "evolves W (define_exec t c s start parent)"
proof -
  have ins: "evolves W (insert_exec row)" if "new_exec_ok row" for row
    unfolding insert_exec_def
    by (intro ev_store ev_insert_if D_execs exec_rows.rows_append) (simp add: that)
  have "new_exec_ok (new_exec_row t c s start parent i now)"
    if "exec_row_valid (new_exec_row t c s start parent i zero_time)" for i now
    using that assms by (auto simp: new_exec_ok_def exec_ok_def exec_row_valid_def new_exec_row_def)
  then show ?thesis
    unfolding define_exec_def Let_def by (intro ev_store ins) simp_all
qed

lemma ev_define_new_task_exec_instance: "evolves W (define_new_task_exec_instance t)"
  unfolding define_new_task_exec_instance_def
  by (cases "t_class t") (simp_all add: ev_define_exec)

lemma ev_define_new_task_retry_exec_instance: "evolves W (define_new_task_retry_exec_instance t e start)"
  unfolding define_new_task_retry_exec_instance_def by (simp add: ev_define_exec)

lemma ev_update_task_execution_state: "evolves W (update_task_execution_state i s u)"
  unfolding evolves_def update_task_execution_state_def get_task_execution_def
proof (intro allI at_fetch)
  fix w w' :: world and e
  assume row: "find_row e_id i (execs (db w)) = Some e" and same: "db w' = db w"
  show "W w' (snd (bnd (check_move (exec_valid_next_state (e_state e) s))
      (\<lambda>_. if s = ExecAcquired \<and> eu_worker u = None then throw (leaf ConsistencyError)
        else bnd time_now (\<lambda>now. wrap SQLError (change (set_exec_state (e_id e) s u now)))) w'))"
  proof (cases "exec_valid_next_state (e_state e) s")
    case (Inl x)
    then show ?thesis by (simp add: check_move_def W_def D_refl)
  next
    case (Inr x)
    then have adv: "exec_adv e (exec_columns s u e\<lparr>e_updated := now\<rparr>)"
      if "\<not> (s = ExecAcquired \<and> eu_worker u = None)" for now
      using that by (intro exec_columns_adv) simp_all
    have "D (db w) (set_exec_state (e_id e) s u now (db w))"
      if "\<not> (s = ExecAcquired \<and> eu_worker u = None)" for now
      unfolding set_exec_state_def
      by (intro D_execs exec_rows.rows_update) (use row adv [OF that] find_row_Some [OF row] in auto)
    then have "W w' (snd (bnd time_now (\<lambda>now. wrap SQLError (change (set_exec_state (e_id e) s u now))) w'))"
      if "\<not> (s = ExecAcquired \<and> eu_worker u = None)"
      using that by (intro at_time at_change) (simp add: same)
    then show ?thesis
      using Inr by (simp add: check_move_def W_def D_refl)
  qed
qed

lemmas ev_tasks = ev_define_task ev_update_task_state ev_update_task_deadline
  ev_define_new_task_exec_instance ev_define_new_task_retry_exec_instance
  ev_update_task_execution_state ev_log

end

section \<open>The evolution of the task tables\<close>

definition task_tables_evolve :: "tables \<Rightarrow> tables \<Rightarrow> bool" where
  "task_tables_evolve d d' \<longleftrightarrow>
     rows_evolve t_id task_adv task_row_valid (tasks d) (tasks d') \<and>
     rows_evolve e_id exec_adv new_exec_ok (execs d) (execs d') \<and>
     same_workflow_tables d d' \<and> links d' = links d"

interpretation task_life: task_evolution task_tables_evolve
proof unfold_locales
  fix a b c :: tables
  show "task_tables_evolve a a"
    by (simp add: task_tables_evolve_def task_rows.rows_refl exec_rows.rows_refl same_workflow_tables_def)
  show "task_tables_evolve a b \<Longrightarrow> task_tables_evolve b c \<Longrightarrow> task_tables_evolve a c"
    by (auto simp: task_tables_evolve_def same_workflow_tables_def
        intro: task_rows.rows_trans exec_rows.rows_trans)
qed (simp add: task_tables_evolve_def)

lemmas task_lifeD = task_life.W_def task_tables_evolve_def

end
