(* ===== verification/Workflow_Store.thy ===== *)
theory Workflow_Store
  imports Task_Evolution Workflow_Model
begin

text \<open>
  \<open>db/workflow.go\<close>: workflows, their steps and dependency edges, and the links to the tasks that
  execute the steps.
\<close>

section \<open>Defining a workflow\<close>

definition workflow_row_valid :: "workflow_row \<Rightarrow> bool" where
  "workflow_row_valid w \<longleftrightarrow> w_id w \<noteq> [] \<and> w_name w \<noteq> [] \<and> w_creator w \<noteq> [] \<and> w_deadline w \<noteq> zero_time"

definition step_row_valid :: "step_row \<Rightarrow> bool" where
  "step_row_valid s \<longleftrightarrow> s_id s \<noteq> [] \<and> s_name s \<noteq> [] \<and> s_workflow s \<noteq> [] \<and> s_creator s \<noteq> [] \<and>
     s_type s \<noteq> [] \<and> valid_retry (s_retry s) \<and> s_deadline s \<noteq> zero_time"

definition new_workflow_row :: "new_workflow \<Rightarrow> string \<Rightarrow> ident \<Rightarrow> time \<Rightarrow> workflow_row" where
  "new_workflow_row p creator i t = \<lparr>w_id = i, w_name = nw_name p, w_creator = creator,
     w_state = WfPending, w_meta = marshal_payload (nw_metadata p), w_deadline = nw_deadline p,
     w_started = None, w_stopped = None, w_created = t, w_updated = t\<rparr>"

definition new_step_row ::
  "new_workflow \<Rightarrow> string \<Rightarrow> ident \<Rightarrow> new_step \<Rightarrow> ident \<Rightarrow> time \<Rightarrow> step_row"
where
  "new_step_row p creator wid s i t = \<lparr>s_id = i, s_name = ns_name s, s_workflow = wid,
     s_creator = creator, s_type = ns_type s, s_state = StepDefined, s_restarted = False,
     s_parents = ns_parents s, s_params = marshal_payload (ns_parameters s),
     s_meta = marshal_payload (ns_metadata s), s_retry = ns_retry s, s_deadline = nw_deadline p,
     s_started = None, s_stopped = None, s_created = t, s_updated = t\<rparr>"

definition build_step :: "new_workflow \<Rightarrow> string \<Rightarrow> ident \<Rightarrow> new_step \<Rightarrow> (world, step_row) m" where
  "build_step p creator wid s =
     bnd ulid_make (\<lambda>i.
     let row = new_step_row p creator wid s i zero_time in
     if \<not> step_row_valid row then throw (wrapped ValidationError (leaf ValidatorError))
     else ret row)"

text \<open>\<open>stepsByName\<close>: the last step of a name wins.\<close>

definition by_name :: "step_row list \<Rightarrow> string \<Rightarrow> step_row option" where
  "by_name rows = map_of (rev (map (\<lambda>s. (s_name s, s)) rows))"

text \<open>One link for each child and parent.\<close>

fun parent_links :: "step_row list \<Rightarrow> step_row \<Rightarrow> string list \<Rightarrow> goerr + (ident \<times> ident) list" where
  "parent_links rows child [] = Inr []"
| "parent_links rows child (p # ps) =
     (case by_name rows p of
        None \<Rightarrow> Inl (leaf ConsistencyError)
      | Some parent \<Rightarrow>
          (case parent_links rows child ps of
             Inl e \<Rightarrow> Inl e
           | Inr ls \<Rightarrow> Inr ((s_id child, s_id parent) # ls)))"

fun step_links :: "step_row list \<Rightarrow> step_row list \<Rightarrow> goerr + (ident \<times> ident) list" where
  "step_links rows [] = Inr []"
| "step_links rows (c # cs) =
     (case parent_links rows c (s_parents c) of
        Inl e \<Rightarrow> Inl e
      | Inr ls \<Rightarrow> (case step_links rows cs of Inl e \<Rightarrow> Inl e | Inr ks \<Rightarrow> Inr (ls @ ks)))"

definition lift_result :: "goerr + 'a \<Rightarrow> (world, 'a) m" where
  "lift_result r = (case r of Inl e \<Rightarrow> throw e | Inr x \<Rightarrow> ret x)"

definition insert_workflow :: "workflow_row \<Rightarrow> (world, unit) m" where
  "insert_workflow w =
     insert_if (\<lambda>d. w_id w \<notin> w_id ` set (workflows d)) (\<lambda>d. d\<lparr>workflows := workflows d @ [w]\<rparr>)"

text \<open>The primary key, the unique index on name and workflow, and the foreign key.\<close>

definition insert_steps :: "step_row list \<Rightarrow> (world, unit) m" where
  "insert_steps rows =
     insert_if (\<lambda>d. distinct (map s_id (steps d @ rows)) \<and>
         distinct (map (\<lambda>s. (s_name s, s_workflow s)) (steps d @ rows)) \<and>
         s_workflow ` set rows \<subseteq> w_id ` set (workflows d))
       (\<lambda>d. d\<lparr>steps := steps d @ rows\<rparr>)"

definition insert_deps :: "dep_row list \<Rightarrow> (world, unit) m" where
  "insert_deps rows =
     insert_if (\<lambda>d. distinct (map (\<lambda>r. (d_step r, d_on r)) (deps d @ rows)) \<and>
         d_step ` set rows \<union> d_on ` set rows \<subseteq> s_id ` set (steps d))
       (\<lambda>d. d\<lparr>deps := deps d @ rows\<rparr>)"

definition define_new_workflow :: "new_workflow \<Rightarrow> string \<Rightarrow> (world, workflow_row) m" where
  "define_new_workflow p creator =
     bnd (lift_result (is_valid p)) (\<lambda>_.
     bnd ulid_make (\<lambda>wid.
     if \<not> workflow_row_valid (new_workflow_row p creator wid zero_time)
     then throw (wrapped ValidationError (leaf ValidatorError))
     else
       bnd (collect (nw_steps p) (\<lambda>(_, s). build_step p creator wid s)) (\<lambda>rows.
       bnd (lift_result (step_links rows rows)) (\<lambda>ls.
       bnd time_now (\<lambda>t1.
       let row = new_workflow_row p creator wid t1 in
       bnd (wrap SQLError (insert_workflow row)) (\<lambda>_.
       bnd time_now (\<lambda>t2.
       bnd (wrap SQLError (insert_steps (map (\<lambda>s. s\<lparr>s_created := t2, s_updated := t2\<rparr>) rows))) (\<lambda>_.
       bnd (do_if (ls \<noteq> []) (bnd time_now (\<lambda>t3.
         wrap SQLError (insert_deps (map (\<lambda>(c, q).
           \<lparr>d_step = c, d_on = q, d_created = t3, d_updated = t3\<rparr>) ls))))) (\<lambda>_.
       bnd (wrap SQLError (define_new_system_event DefineWorkflow (WorkflowEvents wid creator))) (\<lambda>_.
       ret row))))))))))"

section \<open>Workflow states\<close>

definition get_workflow :: "ident \<Rightarrow> (world, workflow_row) m" where
  "get_workflow i = fetch_one (\<lambda>d. find_row w_id i (workflows d))"

fun workflow_event :: "workflow_state \<Rightarrow> event_type option" where
  "workflow_event WfRunning = Some WorkflowRunning"
| "workflow_event WfComplete = Some WorkflowComplete"
| "workflow_event WfFailed = Some WorkflowFailed"
| "workflow_event WfTimedOut = Some WorkflowTimedOut"
| "workflow_event WfCancelling = Some WorkflowCancelling"
| "workflow_event WfCancelled = Some WorkflowCancelled"
| "workflow_event WfPending = None"

text \<open>The columns of one update: the start time is recorded on the way from PENDING only.\<close>

definition workflow_columns ::
  "workflow_state \<Rightarrow> workflow_state \<Rightarrow> time \<Rightarrow> workflow_row \<Rightarrow> workflow_row"
where
  "workflow_columns old s t r =
     (case s of
        WfRunning \<Rightarrow> if old = WfPending then r\<lparr>w_state := s, w_started := Some t\<rparr> else r\<lparr>w_state := s\<rparr>
      | WfComplete \<Rightarrow> r\<lparr>w_state := s, w_stopped := Some t\<rparr>
      | WfCancelled \<Rightarrow> r\<lparr>w_state := s, w_stopped := Some t\<rparr>
      | _ \<Rightarrow> r\<lparr>w_state := s\<rparr>)"

definition set_workflow_state ::
  "ident \<Rightarrow> workflow_state \<Rightarrow> workflow_state \<Rightarrow> time \<Rightarrow> time \<Rightarrow> tables \<Rightarrow> tables"
where
  "set_workflow_state i old s t now d =
     d\<lparr>workflows := update_rows (\<lambda>r. w_id r = i)
         (\<lambda>r. workflow_columns old s t r\<lparr>w_updated := now\<rparr>) (workflows d)\<rparr>"

definition update_workflow_state :: "ident \<Rightarrow> workflow_state \<Rightarrow> time \<Rightarrow> (world, unit) m" where
  "update_workflow_state i s t =
     bnd (get_workflow i) (\<lambda>w.
     bnd (check_move (workflow_valid_next_state (w_state w) s)) (\<lambda>_.
     bnd time_now (\<lambda>now.
     bnd (wrap SQLError (change (set_workflow_state i (w_state w) s t now))) (\<lambda>_.
     case workflow_event s of
       None \<Rightarrow> ret ()
     | Some ty \<Rightarrow>
         bnd (wrap SQLError (define_new_system_event ty (WorkflowEvents i (w_creator w)))) (\<lambda>_. ret ())))))"

definition mark_workflow_pending :: "ident \<Rightarrow> time \<Rightarrow> (world, unit) m" where
  "mark_workflow_pending i = update_workflow_state i WfPending"

definition mark_workflow_running :: "ident \<Rightarrow> time \<Rightarrow> (world, unit) m" where
  "mark_workflow_running i = update_workflow_state i WfRunning"

definition mark_workflow_complete :: "ident \<Rightarrow> time \<Rightarrow> (world, unit) m" where
  "mark_workflow_complete i = update_workflow_state i WfComplete"

definition mark_workflow_failed :: "ident \<Rightarrow> time \<Rightarrow> (world, unit) m" where
  "mark_workflow_failed i = update_workflow_state i WfFailed"

definition mark_workflow_timed_out :: "ident \<Rightarrow> time \<Rightarrow> (world, unit) m" where
  "mark_workflow_timed_out i = update_workflow_state i WfTimedOut"

definition mark_workflow_cancelling :: "ident \<Rightarrow> time \<Rightarrow> (world, unit) m" where
  "mark_workflow_cancelling i = update_workflow_state i WfCancelling"

definition mark_workflow_cancelled :: "ident \<Rightarrow> time \<Rightarrow> (world, unit) m" where
  "mark_workflow_cancelled i = update_workflow_state i WfCancelled"

lemmas mark_workflow_defs = mark_workflow_pending_def mark_workflow_running_def
  mark_workflow_complete_def mark_workflow_failed_def mark_workflow_timed_out_def
  mark_workflow_cancelling_def mark_workflow_cancelled_def

record workflow_filter = page +
  wf_ids :: "ident list"
  wf_names :: "string list"
  wf_states :: "workflow_state list"
  wf_deadline :: "time option"

definition any_workflow :: workflow_filter where
  "any_workflow = \<lparr>pg_limit = None, pg_offset = None, wf_ids = [], wf_names = [], wf_states = [],
     wf_deadline = None\<rparr>"

definition workflow_matches :: "workflow_filter \<Rightarrow> workflow_row \<Rightarrow> bool" where
  "workflow_matches f w \<longleftrightarrow> in_or_any (wf_ids f) (w_id w) \<and> in_or_any (wf_names f) (w_name w) \<and>
     in_or_any (wf_states f) (w_state w) \<and>
     (case wf_deadline f of None \<Rightarrow> True | Some t \<Rightarrow> w_deadline w \<le> t)"

definition list_workflows :: "workflow_filter \<Rightarrow> (world, workflow_row list) m" where
  "list_workflows f =
     (if \<not> page_valid (page.truncate f) then throw (wrapped ValidationError (leaf ValidatorError))
      else wrap SQLError (select_all (\<lambda>d. page_rows (page.truncate f)
        (sort_key w_created (filter (workflow_matches f) (workflows d))))))"

section \<open>Listing the steps in topological order\<close>

definition children_of :: "step_row list \<Rightarrow> string \<Rightarrow> string list" where
  "children_of rows p =
     concat (map (\<lambda>s. map (\<lambda>_. s_name s) (filter (\<lambda>q. q = p) (s_parents s))) rows)"

definition step_degrees :: "step_row list \<Rightarrow> string degrees" where
  "step_degrees rows = rev (map (\<lambda>s. (s_name s, int (length (s_parents s)))) rows)"

definition root_names :: "step_row list \<Rightarrow> string list" where
  "root_names rows = map s_name (filter (\<lambda>s. s_parents s = []) rows)"

text \<open>The loop over one level: every step is emitted and its children that become free make up
  the next level.\<close>

fun run_level ::
  "('n \<Rightarrow> 'n list) \<Rightarrow> 'n degrees \<Rightarrow> 'n list \<Rightarrow> 'n list \<Rightarrow> 'n degrees \<times> 'n list"
where
  "run_level ch d [] nxt = (d, nxt)"
| "run_level ch d (s # ss) nxt =
     (case dec_children (ch s) d nxt of (d', nxt') \<Rightarrow> run_level ch d' ss nxt')"

lemma run_level_measure:
  "run_level ch d ss nxt = (d', nxt') \<Longrightarrow>
     length nxt' + card (waiting d') \<le> length nxt + card (waiting d)"
proof (induction ch d ss nxt rule: run_level.induct)
  case (2 ch d s ss nxt)
  obtain d1 n1 where one: "dec_children (ch s) d nxt = (d1, n1)" by (rule prod.exhaust)
  then show ?case
    using "2.IH" [OF one [symmetric]] "2.prems" dec_children_measure [OF one] by simp
qed simp

lemma run_level_case:
  "(case run_level ch d ss nxt of (d', nxt') \<Rightarrow> length nxt' + card (waiting d')) \<le>
     length nxt + card (waiting d)"
  by (auto split: prod.split dest: run_level_measure)

function (sequential) levels ::
  "('n :: linorder \<Rightarrow> 'n list) \<Rightarrow> 'n degrees \<Rightarrow> 'n list \<Rightarrow> 'n list"
where
  "levels ch d [] = []"
| "levels ch d (c # cs) =
     (let level = sort (c # cs) in
      case run_level ch d level [] of (d', nxt) \<Rightarrow> level @ levels ch d' nxt)"
  by pat_completeness auto
termination
  by (relation "measure (\<lambda>(ch, d, cur). length cur + card (waiting d))")
    (auto simp del: sort_key_simps intro!: le_less_trans [OF run_level_case])

definition topo_sort_steps :: "step_row list \<Rightarrow> goerr + step_row list" where
  "topo_sort_steps rows =
     (let names = levels (children_of rows) (step_degrees rows) (root_names rows) in
      if length names \<noteq> length rows then Inl (leaf ConsistencyError)
      else Inr (map (\<lambda>n. the (by_name rows n)) names))"

definition steps_of :: "ident \<Rightarrow> tables \<Rightarrow> step_row list" where
  "steps_of wid d = filter (\<lambda>s. s_workflow s = wid) (steps d)"

definition list_workflow_steps :: "ident \<Rightarrow> (world, step_row list) m" where
  "list_workflow_steps wid =
     bnd (wrap SQLError (select_all (steps_of wid))) (\<lambda>rows. lift_result (topo_sort_steps rows))"

section \<open>Steps\<close>

definition get_workflow_step :: "ident \<Rightarrow> (world, step_row) m" where
  "get_workflow_step i = fetch_one (\<lambda>d. find_row s_id i (steps d))"

text \<open>The joined query: DEFINED steps none of whose recorded parents is in another state than
  COMPLETE.\<close>

definition ready_to_run :: "tables \<Rightarrow> step_row \<Rightarrow> bool" where
  "ready_to_run d s \<longleftrightarrow> s_state s = StepDefined \<and>
     list_all (\<lambda>r. d_step r = s_id s \<longrightarrow>
       list_all (\<lambda>p. s_id p = d_on r \<longrightarrow> s_state p = StepComplete) (steps d)) (deps d)"

definition list_workflow_steps_ready_to_run :: "ident \<Rightarrow> (world, step_row list) m" where
  "list_workflow_steps_ready_to_run wid =
     wrap SQLError (select_all (\<lambda>d. filter (ready_to_run d) (steps_of wid d)))"

fun step_event :: "step_state \<Rightarrow> event_type" where
  "step_event StepDefined = WorkflowStepDefined"
| "step_event StepPending = WorkflowStepPending"
| "step_event StepRunning = WorkflowStepRunning"
| "step_event StepComplete = WorkflowStepComplete"
| "step_event StepFailed = WorkflowStepFailed"
| "step_event StepTimedOut = WorkflowStepTimedOut"
| "step_event StepCancelling = WorkflowStepCancelling"
| "step_event StepCancelled = WorkflowStepCancelled"

definition step_columns :: "step_state \<Rightarrow> time \<Rightarrow> step_row \<Rightarrow> step_row" where
  "step_columns s t r =
     (case s of
        StepDefined \<Rightarrow> r\<lparr>s_state := s, s_restarted := True\<rparr>
      | StepRunning \<Rightarrow> r\<lparr>s_state := s, s_started := Some t\<rparr>
      | StepComplete \<Rightarrow> r\<lparr>s_state := s, s_stopped := Some t\<rparr>
      | StepCancelled \<Rightarrow> r\<lparr>s_state := s, s_stopped := Some t\<rparr>
      | _ \<Rightarrow> r\<lparr>s_state := s\<rparr>)"

definition set_step_states ::
  "ident \<Rightarrow> ident list \<Rightarrow> step_state \<Rightarrow> time \<Rightarrow> time \<Rightarrow> tables \<Rightarrow> tables"
where
  "set_step_states wid ids s t now d =
     d\<lparr>steps := update_rows (\<lambda>r. s_id r \<in> set ids \<and> s_workflow r = wid)
         (\<lambda>r. step_columns s t r\<lparr>s_updated := now\<rparr>) (steps d)\<rparr>"

definition update_workflow_step_state ::
  "ident \<Rightarrow> ident list \<Rightarrow> step_state \<Rightarrow> time \<Rightarrow> (world, unit) m"
where
  "update_workflow_step_state wid step_ids s t =
     (let ids = remdups step_ids in
      bnd (wrap SQLError (select_all (\<lambda>d.
        filter (\<lambda>r. s_id r \<in> set ids \<and> s_workflow r = wid) (steps d)))) (\<lambda>rows.
      if length rows \<noteq> length ids then throw (leaf ConsistencyError)
      else
        bnd (for_each rows (\<lambda>r. check_move (step_valid_next_state (s_state r) s))) (\<lambda>_.
        bnd (do_if (ids \<noteq> []) (bnd time_now (\<lambda>now.
          wrap SQLError (change (set_step_states wid ids s t now))))) (\<lambda>_.
        for_each rows (\<lambda>r.
          bnd (wrap SQLError (define_new_system_event (step_event s)
            (StepEvents (s_id r) (s_workflow r) (s_creator r)))) (\<lambda>_. ret ()))))))"

definition mark_workflow_step_defined :: "ident \<Rightarrow> ident list \<Rightarrow> time \<Rightarrow> (world, unit) m" where
  "mark_workflow_step_defined wid ids = update_workflow_step_state wid ids StepDefined"

definition mark_workflow_step_pending :: "ident \<Rightarrow> ident list \<Rightarrow> time \<Rightarrow> (world, unit) m" where
  "mark_workflow_step_pending wid ids = update_workflow_step_state wid ids StepPending"

definition mark_workflow_step_running :: "ident \<Rightarrow> ident list \<Rightarrow> time \<Rightarrow> (world, unit) m" where
  "mark_workflow_step_running wid ids = update_workflow_step_state wid ids StepRunning"

definition mark_workflow_step_complete :: "ident \<Rightarrow> ident list \<Rightarrow> time \<Rightarrow> (world, unit) m" where
  "mark_workflow_step_complete wid ids = update_workflow_step_state wid ids StepComplete"

definition mark_workflow_step_failed :: "ident \<Rightarrow> ident list \<Rightarrow> time \<Rightarrow> (world, unit) m" where
  "mark_workflow_step_failed wid ids = update_workflow_step_state wid ids StepFailed"

definition mark_workflow_step_timed_out :: "ident \<Rightarrow> ident list \<Rightarrow> time \<Rightarrow> (world, unit) m" where
  "mark_workflow_step_timed_out wid ids = update_workflow_step_state wid ids StepTimedOut"

definition mark_workflow_step_cancelling :: "ident \<Rightarrow> ident list \<Rightarrow> time \<Rightarrow> (world, unit) m" where
  "mark_workflow_step_cancelling wid ids = update_workflow_step_state wid ids StepCancelling"

definition mark_workflow_step_cancelled :: "ident \<Rightarrow> ident list \<Rightarrow> time \<Rightarrow> (world, unit) m" where
  "mark_workflow_step_cancelled wid ids = update_workflow_step_state wid ids StepCancelled"

lemmas mark_step_defs = mark_workflow_step_defined_def mark_workflow_step_pending_def
  mark_workflow_step_running_def mark_workflow_step_complete_def mark_workflow_step_failed_def
  mark_workflow_step_timed_out_def mark_workflow_step_cancelling_def mark_workflow_step_cancelled_def

section \<open>Deadline and deletion\<close>

definition update_workflow_deadline :: "ident \<Rightarrow> time \<Rightarrow> (world, unit) m" where
  "update_workflow_deadline i t =
     bnd (get_workflow i) (\<lambda>w.
     bnd (wrap SQLError (change (\<lambda>d. d\<lparr>workflows :=
       update_rows (\<lambda>r. w_id r = i) (\<lambda>r. r\<lparr>w_deadline := t\<rparr>) (workflows d)\<rparr>))) (\<lambda>_.
     bnd (wrap SQLError (change (\<lambda>d. d\<lparr>steps :=
       update_rows (\<lambda>r. s_workflow r = i \<and> s_state r \<notin> {StepComplete, StepCancelled})
         (\<lambda>r. r\<lparr>s_deadline := t\<rparr>) (steps d)\<rparr>))) (\<lambda>_.
     bnd (wrap SQLError (define_new_system_event WorkflowDeadlineUpdate (WorkflowEvents i (w_creator w))))
       (\<lambda>_. ret ()))))"

definition is_terminal_workflow_state :: "workflow_state \<Rightarrow> bool" where
  "is_terminal_workflow_state s \<longleftrightarrow> s = WfComplete \<or> s = WfCancelled"

text \<open>Deleting a workflow cascades to its steps, their edges and their links.\<close>

definition cascade_workflow :: "ident \<Rightarrow> tables \<Rightarrow> tables" where
  "cascade_workflow i d =
     (let gone = s_id ` set (steps_of i d) in
      d\<lparr>workflows := filter (\<lambda>w. w_id w \<noteq> i) (workflows d),
        steps := filter (\<lambda>s. s_workflow s \<noteq> i) (steps d),
        deps := filter (\<lambda>r. d_step r \<notin> gone \<and> d_on r \<notin> gone) (deps d),
        links := filter (\<lambda>l. l_step l \<notin> gone) (links d)\<rparr>)"

definition delete_workflow :: "ident \<Rightarrow> (world, unit) m" where
  "delete_workflow i =
     bnd (get_workflow i) (\<lambda>w.
     if \<not> is_terminal_workflow_state (w_state w) then throw (leaf ConsistencyError)
     else
       bnd (list_workflow_steps i) (\<lambda>rows.
       bnd (do_if (rows \<noteq> []) (
         bnd (wrap SQLError (select_all (\<lambda>d. filter (\<lambda>l. l_step l \<in> s_id ` set rows) (links d)))) (\<lambda>ls.
         do_if (ls \<noteq> []) (wrap SQLError (change (cascade_tasks (\<lambda>x. x \<in> l_task ` set ls))))))) (\<lambda>_.
       bnd (wrap SQLError (change (cascade_workflow i))) (\<lambda>_.
       bnd (wrap SQLError (define_new_system_event DeleteWorkflow (WorkflowEvents i (w_creator w))))
         (\<lambda>_. ret ())))))"

section \<open>Links between steps and tasks\<close>

definition link_workflow_step_with_executor_task :: "ident \<Rightarrow> ident \<Rightarrow> (world, unit) m" where
  "link_workflow_step_with_executor_task s t =
     bnd time_now (\<lambda>now.
     wrap SQLError (insert_if (\<lambda>d. (s, t) \<notin> (\<lambda>l. (l_step l, l_task l)) ` set (links d) \<and>
         s \<in> s_id ` set (steps d) \<and> t \<in> t_id ` set (tasks d))
       (\<lambda>d. d\<lparr>links := links d @ [\<lparr>l_step = s, l_task = t, l_created = now, l_updated = now\<rparr>]\<rparr>)))"

text \<open>The tasks of a step, the latest first; a task ID breaks ties.\<close>

definition tasks_of_step :: "tables \<Rightarrow> ident \<Rightarrow> task_row list" where
  "tasks_of_step d s =
     rev (sort_key t_created (sort_key t_id
       (concat (map (\<lambda>l. if l_step l = s then filter (\<lambda>t. t_id t = l_task l) (tasks d) else []) (links d)))))"

definition get_workflow_step_and_executor_task ::
  "ident \<Rightarrow> bool \<Rightarrow> (world, step_row \<times> task_row list) m"
where
  "get_workflow_step_and_executor_task s active =
     bnd (get_workflow_step s) (\<lambda>row.
     bnd (wrap SQLError (select_all (\<lambda>d.
       filter (\<lambda>t. active \<longrightarrow> t_state t \<in> {TaskPending, TaskActive}) (tasks_of_step d s)))) (\<lambda>ts.
     ret (row, ts)))"

definition get_workflow_step_processed_by_task :: "ident \<Rightarrow> (world, step_row) m" where
  "get_workflow_step_processed_by_task t =
     fetch_one (\<lambda>d.
       case sort_key s_id (concat (map (\<lambda>l. if l_task l = t
           then filter (\<lambda>s. s_id s = l_step l) (steps d) else []) (links d))) of
         [] \<Rightarrow> None | s # _ \<Rightarrow> Some s)"

end
