(* ===== verification/Task_Client.thy ===== *)
theory Task_Client
  imports Task_Evolution
begin

text \<open>
  \<open>task/client.go\<close>: defining tasks, submitting them to the task scheduler and asking for their
  cancellation. Each operation may run in a transaction of the caller.
\<close>

record define_params =
  dp_name :: string
  dp_params :: "payload option"
  dp_meta :: "payload option"
  dp_creator :: "string option"
  dp_deadline :: "time option"
  dp_retry :: "retry_params option"

text \<open>The retry settings of the configuration by task name, the last entry of a name winning.\<close>

record retry_setting =
  rs_initial :: int
  rs_retries :: int
  rs_max :: "int option"

record task_client =
  tc_queue :: string
  tc_sender :: string
  tc_creator :: string
  tc_retry :: "string \<Rightarrow> retry_setting option"

definition define_params_valid :: "define_params \<Rightarrow> bool" where
  "define_params_valid p \<longleftrightarrow> dp_name p \<noteq> [] \<and> payload_valid (dp_params p) \<and>
     payload_valid (dp_meta p) \<and> (case dp_retry p of None \<Rightarrow> True | Some r \<Rightarrow> valid_retry r)"

definition resolve_creator :: "task_client \<Rightarrow> string option \<Rightarrow> string" where
  "resolve_creator c x = (case x of None \<Rightarrow> tc_creator c | Some s \<Rightarrow> s)"

definition resolve_retry :: "task_client \<Rightarrow> string \<Rightarrow> retry_params option \<Rightarrow> retry_params" where
  "resolve_retry c name override =
     (case override of
        Some r \<Rightarrow> r
      | None \<Rightarrow>
          (case tc_retry c name of
             None \<Rightarrow> default_retry
           | Some s \<Rightarrow> default_retry\<lparr>initial_delay_sec := rs_initial s, max_delay_sec := rs_max s,
               max_retries := rs_retries s\<rparr>))"

definition client_task :: "task_client \<Rightarrow> define_params \<Rightarrow> new_task" where
  "client_task c p = \<lparr>nt_name = dp_name p, nt_creator = resolve_creator c (dp_creator p),
     nt_params = dp_params p, nt_meta = dp_meta p,
     nt_retry = resolve_retry c (dp_name p) (dp_retry p), nt_deadline = dp_deadline p\<rparr>"

definition define_one_shot_task :: "bool \<Rightarrow> (world, task_row) m \<Rightarrow> (world, task_row) m" where
  "define_one_shot_task in_caller def =
     wrap TaskClientError (active_session in_caller (wrap PersistenceError def))"

definition define_immediate_one_shot_task ::
  "task_client \<Rightarrow> define_params \<Rightarrow> bool \<Rightarrow> (world, task_row) m"
where
  "define_immediate_one_shot_task c p in_caller =
     (if \<not> define_params_valid p then throw (wrapped BadInputError (leaf ValidatorError))
      else define_one_shot_task in_caller (define_new_one_shot_task (client_task c p)))"

definition define_scheduled_one_shot_task ::
  "task_client \<Rightarrow> define_params \<Rightarrow> time \<Rightarrow> bool \<Rightarrow> (world, task_row) m"
where
  "define_scheduled_one_shot_task c p target in_caller =
     (if \<not> define_params_valid p then throw (wrapped BadInputError (leaf ValidatorError))
      else if (case dp_deadline p of None \<Rightarrow> False | Some d \<Rightarrow> target > d)
      then throw (leaf BadInputError)
      else define_one_shot_task in_caller (define_new_scheduled_one_shot_task (client_task c p) target))"

definition submit_task :: "task_client \<Rightarrow> ident \<Rightarrow> (world, unit) m" where
  "submit_task c i =
     bnd time_now (\<lambda>now.
     wrap TaskClientError (send_new (tc_queue c) (\<lambda>u. prepare_new_pending_task u (tc_sender c) i now)))"

definition define_and_run_immediate :: "task_client \<Rightarrow> define_params \<Rightarrow> bool \<Rightarrow> (world, task_row) m" where
  "define_and_run_immediate c p in_caller =
     bnd (define_immediate_one_shot_task c p in_caller) (\<lambda>t.
     bnd (submit_task c (t_id t)) (\<lambda>_. ret t))"

definition define_and_run_scheduled ::
  "task_client \<Rightarrow> define_params \<Rightarrow> time \<Rightarrow> bool \<Rightarrow> (world, task_row) m"
where
  "define_and_run_scheduled c p target in_caller =
     bnd (define_scheduled_one_shot_task c p target in_caller) (\<lambda>t.
     bnd (submit_task c (t_id t)) (\<lambda>_. ret t))"

definition cancel_task :: "task_client \<Rightarrow> ident \<Rightarrow> bool \<Rightarrow> (world, unit) m" where
  "cancel_task c i in_caller =
     bnd (wrap TaskClientError (active_session in_caller (wrap PersistenceError (get_task i)))) (\<lambda>_.
     bnd time_now (\<lambda>now.
     wrap TaskClientError (send_new (tc_queue c) (\<lambda>u. prepare_cancel_task u (tc_sender c) i now))))"

text \<open>What the client needs of a relation on the tables: it admits new tasks.\<close>

locale client_evolution = log_evolution D for D :: "tables \<Rightarrow> tables \<Rightarrow> bool" +
  assumes new_task_admitted: "evolves W (define_task sc target p)"
begin

lemma ev_define_immediate: "evolves W (define_immediate_one_shot_task c p b)"
  unfolding define_immediate_one_shot_task_def define_one_shot_task_def define_new_one_shot_task_def
  by (intro new_task_admitted ev_log)

lemma ev_define_scheduled: "evolves W (define_scheduled_one_shot_task c p t b)"
  unfolding define_scheduled_one_shot_task_def define_one_shot_task_def
    define_new_scheduled_one_shot_task_def
  by (intro new_task_admitted ev_log)

lemma ev_submit_task: "evolves W (submit_task c i)"
  unfolding submit_task_def by (intro new_task_admitted ev_log)

lemma ev_cancel_request: "evolves W (cancel_task c i b)"
  unfolding cancel_task_def by (intro new_task_admitted ev_log)

lemmas ev_client = ev_define_immediate ev_define_scheduled ev_submit_task ev_cancel_request

end

sublocale task_evolution \<subseteq> client_evolution D
  by unfold_locales (rule ev_define_task)

end
