(* ===== verification/Task_Scheduler.thy ===== *)
theory Task_Scheduler
  imports Task_Evolution
begin

text \<open>
  The task scheduler: the handlers of \<open>task/scheduler_new_task.go\<close>, \<open>scheduler_task_exec.go\<close>,
  \<open>scheduler_cancel_task.go\<close> and \<open>scheduler_maintenance.go\<close>, and the processing of its queue
  (\<open>task/scheduler_ipc.go\<close>). Each handler is one transaction.
\<close>

text \<open>
  The configuration: the own queue, the execution queue of each task name, and the arithmetic of
  the back-off.
\<close>

record task_sched =
  ts_queue :: string
  ts_task_queue :: "string \<Rightarrow> string option"
  ts_backoff :: backoff

definition ts_name :: string where
  "ts_name = ''task-scheduler''"

section \<open>Handlers\<close>

text \<open>Look up the sender of the task and ask the workers to run the instance.\<close>

definition request_execution ::
  "task_sched \<Rightarrow> task_row \<Rightarrow> ident \<Rightarrow> (world, time) m \<Rightarrow> (world, unit) m"
where
  "request_execution c t i stamp =
     (case ts_task_queue c (t_name t) of
        None \<Rightarrow> throw (leaf ConsistencyError)
      | Some q \<Rightarrow>
          bnd stamp (\<lambda>at_time.
          wrap IPCMessageQueueError (send_new q (\<lambda>u. prepare_execution_requested u ts_name i at_time))))"

text \<open>The new instance of a task just activated, enqueued at once when it is immediate.\<close>

definition start_first_instance :: "task_sched \<Rightarrow> task_row \<Rightarrow> (world, unit) m" where
  "start_first_instance c t =
     bnd (wrap PersistenceError (define_new_task_exec_instance t)) (\<lambda>e.
     do_if (e_class e = ExecImmediate)
       (bnd (wrap PersistenceError (mark_task_exec_queued (e_id e))) (\<lambda>_.
        request_execution c t (e_id e) time_now)))"

definition process_new_pending_task :: "task_sched \<Rightarrow> ident \<Rightarrow> (world, unit) m" where
  "process_new_pending_task c i =
     wrap TaskSchedulerError (in_txn (
       bnd (wrap PersistenceError (get_task i)) (\<lambda>t.
       if t_state t \<noteq> TaskPending then ret ()
       else
         bnd (wrap PersistenceError (mark_task_active (t_id t))) (\<lambda>_.
         start_first_instance c t))))"

definition fetch_exec_instance_and_parent_task :: "ident \<Rightarrow> (world, exec_row \<times> task_row) m" where
  "fetch_exec_instance_and_parent_task i =
     bnd (wrap PersistenceError (get_task_execution i)) (\<lambda>e.
     bnd (wrap PersistenceError (get_task (e_task e))) (\<lambda>t. ret (e, t)))"

definition process_task_execution_starting :: "task_sched \<Rightarrow> ident \<Rightarrow> time \<Rightarrow> (world, unit) m" where
  "process_task_execution_starting c i stamp =
     wrap TaskSchedulerError (in_txn (
       bnd (fetch_exec_instance_and_parent_task i) (\<lambda>(e, t).
       if is_state_at_or_past (e_state e) ExecEnqueued then ret ()
       else
         bnd (wrap PersistenceError (mark_task_exec_queued (e_id e))) (\<lambda>_.
         request_execution c t (e_id e) (ret stamp)))))"

definition process_task_execution_complete :: "ident \<Rightarrow> (world, unit) m" where
  "process_task_execution_complete i =
     wrap TaskSchedulerError (in_txn (
       bnd (fetch_exec_instance_and_parent_task i) (\<lambda>(e, t).
       if is_state_at_or_past (e_state e) ExecFinalized then ret ()
       else
         bnd (wrap PersistenceError (mark_task_exec_finalized (e_id e))) (\<lambda>_.
         wrap PersistenceError (mark_task_complete (t_id t))))))"

text \<open>The delay, and whether to retry at all.\<close>

definition decide_execution_retry ::
  "backoff \<Rightarrow> exec_row \<Rightarrow> retry_params \<Rightarrow> nat \<Rightarrow> duration \<times> bool"
where
  "decide_execution_retry b e p failures =
     (if e_disposition e = Some NonRetryable then (0, False)
      else let d = next_delay b p (int failures - 1) in (d, d > 0))"

text \<open>A task that is still active is failed, or gets a retry instance.\<close>

definition retry_or_fail :: "task_sched \<Rightarrow> exec_row \<Rightarrow> task_row \<Rightarrow> time \<Rightarrow> (world, unit) m" where
  "retry_or_fail c e t stamp =
     bnd (wrap PersistenceError
         (list_task_executions (t_id t) (any_exec\<lparr>ef_terminals := [ExecFailed]\<rparr>))) (\<lambda>failed.
     case decide_execution_retry (ts_backoff c) e (t_retry t) (length failed) of
       (delay, retry) \<Rightarrow>
         if \<not> retry then wrap PersistenceError (mark_task_failed (t_id t))
         else bnd (wrap PersistenceError
             (define_new_task_retry_exec_instance t e (stamp + delay))) (\<lambda>_. ret ()))"

definition process_task_execution_failed :: "task_sched \<Rightarrow> ident \<Rightarrow> time \<Rightarrow> (world, unit) m" where
  "process_task_execution_failed c i stamp =
     wrap TaskSchedulerError (in_txn (
       bnd (fetch_exec_instance_and_parent_task i) (\<lambda>(e, t).
       if is_state_at_or_past (e_state e) ExecFinalized then ret ()
       else
         bnd (wrap PersistenceError (mark_task_exec_finalized (e_id e))) (\<lambda>_.
         do_if (t_state t = TaskActive) (retry_or_fail c e t stamp)))))"

definition process_task_execution_engine_failed :: "ident \<Rightarrow> (world, unit) m" where
  "process_task_execution_engine_failed i =
     wrap TaskSchedulerError (in_txn (
       bnd (fetch_exec_instance_and_parent_task i) (\<lambda>(e, t).
       if is_state_at_or_past (e_state e) ExecFinalized then ret ()
       else
         bnd (wrap PersistenceError (mark_task_exec_finalized (e_id e))) (\<lambda>_.
         bnd (wrap PersistenceError (mark_task_failed (t_id t))) (\<lambda>_.
         wrap PersistenceError (record_task_engine_failure t (e_id e)
           (''task engine failed to operate on execution instance '' @ e_id e)))))))"

definition live_exec_states :: "exec_state list" where
  "live_exec_states = [ExecDefined, ExecScheduled, ExecEnqueued, ExecAcquired, ExecProcessing]"

definition cancel_ongoing_exec_instances_of_task :: "task_row \<Rightarrow> time \<Rightarrow> (world, unit) m" where
  "cancel_ongoing_exec_instances_of_task t stamp =
     bnd (wrap PersistenceError (list_task_executions (t_id t) (any_exec\<lparr>ef_states := live_exec_states\<rparr>)))
       (\<lambda>es. for_each es (\<lambda>e.
         wrap PersistenceError (mark_task_exec_cancelled (e_id e) ''parent task cancelled'' stamp)))"

definition process_task_execution_timed_out :: "ident \<Rightarrow> time \<Rightarrow> (world, unit) m" where
  "process_task_execution_timed_out i stamp =
     wrap TaskSchedulerError (in_txn (
       bnd (fetch_exec_instance_and_parent_task i) (\<lambda>(e, t).
       if has_ended (e_state e) then ret ()
       else
         bnd (gets time_text) (\<lambda>tx.
         bnd (wrap PersistenceError
             (mark_task_exec_failed i (''timed out at '' @ tx stamp) None stamp)) (\<lambda>_.
         bnd (wrap PersistenceError (mark_task_exec_finalized (e_id e))) (\<lambda>_.
         bnd (wrap PersistenceError (mark_task_timed_out (t_id t))) (\<lambda>_.
         cancel_ongoing_exec_instances_of_task t stamp)))))))"

definition process_cancel_task :: "ident \<Rightarrow> time \<Rightarrow> (world, unit) m" where
  "process_cancel_task i stamp =
     wrap TaskSchedulerError (in_txn (
       bnd (wrap PersistenceError (get_task i)) (\<lambda>t.
       if t_state t \<notin> {TaskPending, TaskActive, TaskCancelling} then ret ()
       else
         bnd (do_if (t_state t \<noteq> TaskCancelling)
             (wrap PersistenceError (mark_task_cancelling (t_id t)))) (\<lambda>_.
         bnd (wrap PersistenceError (mark_task_cancelled (t_id t))) (\<lambda>_.
         cancel_ongoing_exec_instances_of_task t stamp)))))"

definition process_task_timeout :: "ident \<Rightarrow> time \<Rightarrow> (world, unit) m" where
  "process_task_timeout i stamp =
     wrap TaskSchedulerError (in_txn (
       bnd (wrap PersistenceError (get_task i)) (\<lambda>t.
       if t_state t \<noteq> TaskActive then ret ()
       else
         bnd (wrap PersistenceError (mark_task_timed_out (t_id t))) (\<lambda>_.
         cancel_ongoing_exec_instances_of_task t stamp))))"

section \<open>Maintenance\<close>

definition maintenance_list :: "(world, 'r list) m \<Rightarrow> (world, 'r list) m" where
  "maintenance_list p = wrap TaskMaintenanceError (in_txn (wrap PersistenceError p))"

definition perform_maintenance :: "task_sched \<Rightarrow> (world, unit) m" where
  "perform_maintenance c =
     bnd (maintenance_list (list_tasks (any_task\<lparr>tf_states := [TaskPending, TaskCancelling]\<rparr>))) (\<lambda>ts.
     bnd (for_each ts (\<lambda>t.
       case t_state t of
         TaskPending \<Rightarrow> logged (process_new_pending_task c (t_id t))
       | TaskCancelling \<Rightarrow> bnd time_now (\<lambda>now. logged (process_cancel_task (t_id t) now))
       | _ \<Rightarrow> ret ())) (\<lambda>_.
     bnd (maintenance_list (bnd time_now (\<lambda>now.
         list_tasks (any_task\<lparr>tf_states := [TaskActive], tf_deadline := Some now\<rparr>)))) (\<lambda>due.
     bnd (for_each due (\<lambda>t. bnd time_now (\<lambda>now. logged (process_task_timeout (t_id t) now)))) (\<lambda>_.
     bnd (maintenance_list (list_all_executions (any_exec\<lparr>ef_states := [ExecProcessed, ExecFailed]\<rparr>))) (\<lambda>ended.
     bnd (for_each ended (\<lambda>e.
       case e_state e of
         ExecProcessed \<Rightarrow> logged (process_task_execution_complete (e_id e))
       | ExecFailed \<Rightarrow> logged (process_task_execution_failed c (e_id e) (e_updated e))
       | _ \<Rightarrow> ret ())) (\<lambda>_.
     bnd (maintenance_list (bnd time_now (\<lambda>now.
         list_all_executions (any_exec\<lparr>ef_states := [ExecScheduled], ef_start := Some now\<rparr>)))) (\<lambda>sched.
     bnd (for_each sched (\<lambda>e.
       logged (process_task_execution_starting c (e_id e) (e_updated e)))) (\<lambda>_.
     bnd (maintenance_list (bnd time_now (\<lambda>now.
         list_all_executions (any_exec\<lparr>ef_states := live_exec_states, ef_deadline := Some now\<rparr>)))) (\<lambda>late.
     for_each late (\<lambda>e.
       bnd time_now (\<lambda>now. logged (process_task_execution_timed_out (e_id e) now))))))))))))"

section \<open>The queue\<close>

text \<open>What one read of the queue yields.\<close>

datatype received = ReadFailed | NoMessage | Unreadable | Payload json

fun go_type_name :: "ipc_msg \<Rightarrow> string" where
  "go_type_name (BaseMsg _) = ''models.BaseIPCMessage''"
| "go_type_name (SystemTask _ _) = ''models.IPCMessageSystemTask''"
| "go_type_name (ExecuteInstance _ _ _) = ''models.IPCMessageExecuteInstance''"
| "go_type_name (WorkflowMsg _ _) = ''models.IPCMessageWorkflow''"
| "go_type_name (StepMsg _ _) = ''models.IPCMessageWorkflowStep''"
| "go_type_name (StepExecUpdateMsg _ _ _) = ''models.IPCMessageWorkflowStepExecUpdate''"
| "go_type_name (StepTaskUpdateMsg _ _ _) = ''models.IPCMessageWorkflowStepTaskUpdate''"
| "go_type_name (ReviveMsg _ _ _) = ''models.IPCMessageWorkflowRevive''"

definition quoted :: "string \<Rightarrow> string \<Rightarrow> string" where
  "quoted what x = what @ '' '' @ [CHR 0x27] @ x @ [CHR 0x27]"

definition record_invalid_message :: "string \<Rightarrow> string \<Rightarrow> string \<Rightarrow> (world, unit) m" where
  "record_invalid_message receiver raw reason =
     logged (in_txn (record_invalid_task_ipc_message receiver raw reason))"

definition record_and_drop_invalid_message ::
  "string \<Rightarrow> string \<Rightarrow> string \<Rightarrow> string \<Rightarrow> (world, unit) m"
where
  "record_and_drop_invalid_message receiver q raw reason =
     bnd (record_invalid_message receiver raw reason) (\<lambda>_. logged (delete_buffered q))"

text \<open>The switch over the message: the handler, or the reason why the message is poison.\<close>

fun task_dispatch :: "task_sched \<Rightarrow> ipc_msg \<Rightarrow> string + (world, unit) m" where
  "task_dispatch c (SystemTask b i) =
     (case bm_type b of
        NewTask \<Rightarrow> Inr (process_new_pending_task c i)
      | CancelTask \<Rightarrow> Inr (process_cancel_task i (bm_time b))
      | ty \<Rightarrow> Inl (quoted ''unsupported system-task message type'' (ipc_type_name ty)))"
| "task_dispatch c (ExecuteInstance b i _) =
     (case bm_type b of
        ExecuteSucceeded \<Rightarrow> Inr (process_task_execution_complete i)
      | ExecuteFailed \<Rightarrow> Inr (process_task_execution_failed c i (bm_time b))
      | EngineFailed \<Rightarrow> Inr (process_task_execution_engine_failed i)
      | ty \<Rightarrow> Inl (quoted ''unsupported execute-instance message type'' (ipc_type_name ty)))"
| "task_dispatch c (BaseMsg b) =
     (case bm_type b of
        TaskMaintenance \<Rightarrow> Inr (perform_maintenance c)
      | ty \<Rightarrow> Inl (quoted ''unsupported base message type'' (ipc_type_name ty)))"
| "task_dispatch c m = Inl (quoted ''unsupported message type'' (go_type_name m))"

text \<open>A handler's error is returned after the message has left the buffer.\<close>

definition run_then_delete :: "string \<Rightarrow> (world, unit) m \<Rightarrow> (world, unit) m" where
  "run_then_delete q h w = (case h w of (r, w1) \<Rightarrow> (r, snd (logged (delete_buffered q) w1)))"

definition process_one_task_request :: "task_sched \<Rightarrow> received \<Rightarrow> (world, unit) m" where
  "process_one_task_request c msg =
     (case msg of
        ReadFailed \<Rightarrow> throw (wrapped TaskSchedulerError (wrapped IPCMessageQueueError (leaf RedisError)))
      | NoMessage \<Rightarrow> ret ()
      | Unreadable \<Rightarrow>
          record_and_drop_invalid_message ts_name (ts_queue c) [] ''unreadable payload''
      | Payload j \<Rightarrow>
          bnd (gets (\<lambda>w. text_of w j)) (\<lambda>raw.
          case parse_ipc_message j of
            Inl _ \<Rightarrow> record_and_drop_invalid_message ts_name (ts_queue c) raw ''unparsable message''
          | Inr m \<Rightarrow>
              (case task_dispatch c m of
                 Inl reason \<Rightarrow> record_and_drop_invalid_message ts_name (ts_queue c) raw reason
               | Inr h \<Rightarrow> run_then_delete (ts_queue c) h)))"

definition is_fatal_db_error :: "goerr \<Rightarrow> bool" where
  "is_fatal_db_error e \<longleftrightarrow> err_as SQLError e"

text \<open>
  The loop over the queue for the messages of one run; the result is the fault handed to the parent
  application, if any.
\<close>

fun process_task_queue :: "task_sched \<Rightarrow> received list \<Rightarrow> (world, goerr option) m" where
  "process_task_queue c [] w = (Inr None, w)"
| "process_task_queue c (msg # rest) w =
     (case process_one_task_request c msg w of
        (Inl e, w1) \<Rightarrow> if is_fatal_db_error e then (Inr (Some e), w1) else process_task_queue c rest w1
      | (Inr _, w1) \<Rightarrow> process_task_queue c rest w1)"

definition is_supported_task_message :: "ipc_msg \<Rightarrow> string option" where
  "is_supported_task_message m =
     (case m of
        SystemTask b _ \<Rightarrow>
          if bm_type b \<in> {NewTask, CancelTask} then None
          else Some (quoted ''unsupported system-task message type'' (ipc_type_name (bm_type b)))
      | ExecuteInstance b _ _ \<Rightarrow>
          if bm_type b \<in> {ExecuteSucceeded, ExecuteFailed, EngineFailed} then None
          else Some (quoted ''unsupported execute-instance message type'' (ipc_type_name (bm_type b)))
      | BaseMsg b \<Rightarrow>
          if bm_type b = TaskMaintenance then None
          else Some (quoted ''unsupported base message type'' (ipc_type_name (bm_type b)))
      | _ \<Rightarrow> Some (quoted ''unsupported message type'' (go_type_name m)))"

text \<open>Draining the buffer at start-up; the list is what the successive reads of the buffer yield.\<close>

fun recover_task_messages :: "task_sched \<Rightarrow> received list \<Rightarrow> (world, unit) m" where
  "recover_task_messages c [] = ret ()"
| "recover_task_messages c (ReadFailed # rest) = throw (wrapped TaskSchedulerError (wrapped IPCMessageQueueError (leaf RedisError)))"
| "recover_task_messages c (NoMessage # rest) = ret ()"
| "recover_task_messages c (Unreadable # rest) =
     bnd (record_invalid_message ts_name [] ''unreadable payload'') (\<lambda>_. recover_task_messages c rest)"
| "recover_task_messages c (Payload j # rest) =
     bnd (gets (\<lambda>w. text_of w j)) (\<lambda>raw.
     bnd (case parse_ipc_message j of
         Inl _ \<Rightarrow> record_invalid_message ts_name raw ''unparsable message''
       | Inr m \<Rightarrow>
           (case is_supported_task_message m of
              Some reason \<Rightarrow> record_invalid_message ts_name raw reason
            | None \<Rightarrow> wrap TaskSchedulerError (re_enqueue (ts_queue c) j)))
       (\<lambda>_. recover_task_messages c rest))"

text \<open>A tick of the maintenance timer, and \<open>Start\<close>: the buffer is drained before the loop begins.\<close>

definition task_maintenance_tick :: "task_sched \<Rightarrow> (world, unit) m" where
  "task_maintenance_tick c =
     bnd time_now (\<lambda>now.
     wrap TaskSchedulerError (send_new (ts_queue c) (\<lambda>u. prepare_task_maintenance u ts_name now)))"

definition start_task_scheduler ::
  "task_sched \<Rightarrow> received list \<Rightarrow> received list \<Rightarrow> (world, goerr option) m"
where
  "start_task_scheduler c buffered msgs =
     bnd (wrap TaskSchedulerError (recover_task_messages c buffered)) (\<lambda>_. process_task_queue c msgs)"

end
