(* ===== verification/Workflow_Scheduler.thy ===== *)
theory Workflow_Scheduler
  imports Workflow_Store Task_Client Task_Scheduler
begin

text \<open>
  The workflow scheduler (\<open>workflow/scheduler_*.go\<close>): the handlers of its events, the maintenance
  sweep, and the processing of its queue. Every handler writes in one transaction and sends its
  messages after the commit; a message that cannot be sent is only logged.
\<close>

record wf_sched =
  ws_queue :: string
  ws_client :: task_client

definition ws_name :: string where
  "ws_name = ''workflow-scheduler''"

text \<open>The messages of one kind after the commit, each logged on failure.\<close>

definition poke :: "wf_sched \<Rightarrow> (ident \<Rightarrow> ipc_msg) \<Rightarrow> (world, unit) m" where
  "poke c f = logged (send_new (ws_queue c) f)"

definition request_cancels :: "wf_sched \<Rightarrow> ident list \<Rightarrow> (world, unit) m" where
  "request_cancels c ts = for_each ts (\<lambda>t. logged (cancel_task (ws_client c) t False))"

section \<open>Process Workflow\<close>

definition hard_stop :: "workflow_state \<Rightarrow> bool" where
  "hard_stop s \<longleftrightarrow> s \<in> {WfTimedOut, WfCancelling, WfCancelled, WfComplete}"

definition fan_out :: "ident \<Rightarrow> time \<Rightarrow> (world, ident list) m" where
  "fan_out wid now =
     bnd (wrap PersistenceError (list_workflow_steps_ready_to_run wid)) (\<lambda>rows.
     if rows = [] then ret []
     else
       bnd (wrap PersistenceError (mark_workflow_step_pending wid (map s_id rows) now)) (\<lambda>_.
       ret (map s_id rows)))"

definition process_workflow :: "wf_sched \<Rightarrow> ident \<Rightarrow> (world, unit) m" where
  "process_workflow c wid =
     bnd time_now (\<lambda>now.
     bnd (wrap WorkflowSchedulerError (in_txn (
       bnd (wrap PersistenceError (get_workflow wid)) (\<lambda>w.
       if hard_stop (w_state w) then ret []
       else
         bnd (do_if (w_state w = WfPending)
           (wrap PersistenceError (mark_workflow_running (w_id w) now))) (\<lambda>_.
         fan_out (w_id w) now))))) (\<lambda>started.
     for_each started (\<lambda>i. poke c (\<lambda>u. prepare_wf_schedule_step u ws_name i now))))"

section \<open>Time out\<close>

definition timeable :: "step_state \<Rightarrow> bool" where
  "timeable s \<longleftrightarrow> s \<in> {StepDefined, StepPending, StepRunning}"

text \<open>The live tasks of the running steps of a list, in order.\<close>

definition live_tasks_of_running :: "step_row list \<Rightarrow> (world, ident list) m" where
  "live_tasks_of_running rows =
     bnd (collect (filter (\<lambda>s. s_state s = StepRunning) rows) (\<lambda>s.
       wrap PersistenceError (get_workflow_step_and_executor_task (s_id s) True))) (\<lambda>rs.
     ret (concat (map (\<lambda>(_, ts). map t_id ts) rs)))"

definition time_out_workflow_steps :: "workflow_row \<Rightarrow> time \<Rightarrow> (world, ident list) m" where
  "time_out_workflow_steps w now =
     bnd (wrap PersistenceError (list_workflow_steps (w_id w))) (\<lambda>rows.
     bnd (live_tasks_of_running rows) (\<lambda>cancels.
     let ids = map s_id (filter (\<lambda>s. timeable (s_state s)) rows) in
     bnd (do_if (ids \<noteq> []) (wrap PersistenceError (mark_workflow_step_timed_out (w_id w) ids now))) (\<lambda>_.
     bnd (do_if (w_state w \<noteq> WfTimedOut)
       (wrap PersistenceError (mark_workflow_timed_out (w_id w) now))) (\<lambda>_.
     ret cancels))))"

section \<open>Schedule Workflow Step\<close>

definition step_parameter :: "ident \<Rightarrow> payload" where
  "step_parameter i = \<lparr>pl_json = JObj [(''step_id'', JStr i)], pl_valid = (i \<noteq> [])\<rparr>"

definition step_task_params :: "step_row \<Rightarrow> ident \<Rightarrow> define_params" where
  "step_task_params s i = \<lparr>dp_name = wf_task_name, dp_params = Some (step_parameter i), dp_meta = None,
     dp_creator = Some wf_task_creator, dp_deadline = Some (s_deadline s), dp_retry = Some (s_retry s)\<rparr>"

text \<open>What the transaction decides: the task to submit, or the tasks to cancel.\<close>

definition dispatch_step :: "wf_sched \<Rightarrow> step_row \<Rightarrow> ident \<Rightarrow> time \<Rightarrow> (world, ident option \<times> ident list) m" where
  "dispatch_step c s i now =
     bnd (wrap PersistenceError
       (define_immediate_one_shot_task (ws_client c) (step_task_params s i) True)) (\<lambda>t.
     bnd (wrap PersistenceError (link_workflow_step_with_executor_task i (t_id t))) (\<lambda>_.
     bnd (wrap PersistenceError (mark_workflow_step_running (s_workflow s) [i] now)) (\<lambda>_.
     ret (Some (t_id t), []))))"

definition schedule_transaction :: "wf_sched \<Rightarrow> ident \<Rightarrow> time \<Rightarrow> (world, ident option \<times> ident list) m" where
  "schedule_transaction c i now =
     bnd (wrap PersistenceError (get_workflow_step_and_executor_task i True)) (\<lambda>(s, live).
     bnd (wrap PersistenceError (get_workflow (s_workflow s))) (\<lambda>w.
     if hard_stop (w_state w) then ret (None, [])
     else if s_state s \<noteq> StepPending then ret (None, [])
     else if live \<noteq> [] then ret (None, [])
     else if now > w_deadline w then
       bnd (time_out_workflow_steps w now) (\<lambda>cancels. ret (None, cancels))
     else dispatch_step c s i now))"

definition schedule_workflow_step :: "wf_sched \<Rightarrow> ident \<Rightarrow> (world, unit) m" where
  "schedule_workflow_step c i =
     bnd time_now (\<lambda>now.
     bnd (wrap WorkflowSchedulerError (in_txn (schedule_transaction c i now))) (\<lambda>(submit, cancels).
     bnd (case submit of None \<Rightarrow> ret () | Some t \<Rightarrow>
       do_if (t \<noteq> []) (logged (submit_task (ws_client c) t))) (\<lambda>_.
     request_cancels c cancels)))"

section \<open>Step Execution Update\<close>

definition is_terminal_step_state :: "step_state \<Rightarrow> bool" where
  "is_terminal_step_state s \<longleftrightarrow> s \<in> {StepComplete, StepFailed, StepTimedOut, StepCancelled}"

definition settle_workflow_if_done :: "workflow_row \<Rightarrow> time \<Rightarrow> (world, bool) m" where
  "settle_workflow_if_done w now =
     (if w_state w \<notin> {WfRunning, WfCancelling} then ret False
      else
        bnd (wrap PersistenceError (list_workflow_steps (w_id w))) (\<lambda>rows.
        if w_state w = WfRunning then
          if \<exists>s \<in> set rows. s_state s \<noteq> StepComplete then ret False
          else bnd (wrap PersistenceError (mark_workflow_complete (w_id w) now)) (\<lambda>_. ret True)
        else
          if \<exists>s \<in> set rows. s_state s \<in> {StepDefined, StepPending, StepRunning, StepCancelling}
          then ret False
          else bnd (wrap PersistenceError (mark_workflow_cancelled (w_id w) now)) (\<lambda>_. ret True)))"

text \<open>The outcome applied inside the transaction: the workflow to fan out, the tasks to cancel.\<close>

definition apply_outcome ::
  "workflow_row \<Rightarrow> ident \<Rightarrow> step_state \<Rightarrow> time \<Rightarrow> (world, ident option \<times> ident list) m"
where
  "apply_outcome w i new now =
     (case new of
        StepComplete \<Rightarrow>
          bnd (wrap PersistenceError (mark_workflow_step_complete (w_id w) [i] now)) (\<lambda>_.
          bnd (settle_workflow_if_done w now) (\<lambda>settled.
          ret (if settled then None else Some (w_id w), [])))
      | StepFailed \<Rightarrow>
          bnd (wrap PersistenceError (mark_workflow_step_failed (w_id w) [i] now)) (\<lambda>_.
          bnd (do_if (w_state w = WfRunning)
            (wrap PersistenceError (mark_workflow_failed (w_id w) now))) (\<lambda>_.
          ret (None, [])))
      | StepTimedOut \<Rightarrow>
          bnd (time_out_workflow_steps w now) (\<lambda>cancels. ret (None, cancels))
      | StepCancelled \<Rightarrow>
          bnd (wrap PersistenceError (mark_workflow_step_cancelled (w_id w) [i] now)) (\<lambda>_.
          bnd (settle_workflow_if_done w now) (\<lambda>_. ret (None, [])))
      | _ \<Rightarrow> ret (None, []))"

definition apply_step_execution_update :: "wf_sched \<Rightarrow> ident \<Rightarrow> step_state \<Rightarrow> (world, unit) m" where
  "apply_step_execution_update c i new =
     bnd time_now (\<lambda>now.
     if \<not> is_terminal_step_state new then throw (leaf WorkflowSchedulerError)
     else
       bnd (wrap WorkflowSchedulerError (in_txn (
         bnd (wrap PersistenceError (get_workflow_step i)) (\<lambda>s.
         bnd (wrap PersistenceError (get_workflow (s_workflow s))) (\<lambda>w.
         if w_state w \<in> {WfCancelling, WfCancelled} then
           bnd (do_if (\<not> is_terminal_step_state (s_state s))
             (wrap PersistenceError (mark_workflow_step_cancelled (w_id w) [i] now))) (\<lambda>_.
           bnd (settle_workflow_if_done w now) (\<lambda>_. ret (None, [])))
         else if is_terminal_step_state (s_state s) then ret (None, [])
         else apply_outcome w i new now))))) (\<lambda>(next, cancels).
       bnd (case next of None \<Rightarrow> ret () | Some wid \<Rightarrow>
         do_if (wid \<noteq> []) (poke c (\<lambda>u. prepare_wf_process u ws_name wid now))) (\<lambda>_.
       request_cancels c cancels)))"

definition apply_step_task_update :: "wf_sched \<Rightarrow> ident \<Rightarrow> step_state \<Rightarrow> (world, unit) m" where
  "apply_step_task_update c t new w =
     (case in_txn (wrap PersistenceError (get_workflow_step_processed_by_task t)) w of
        (Inl e, w1) \<Rightarrow>
          if err_as NotFoundError e then (Inr (), w1) else (Inl (wrapped WorkflowSchedulerError e), w1)
      | (Inr s, w1) \<Rightarrow> apply_step_execution_update c (s_id s) new w1)"

section \<open>Cancel and revive\<close>

definition cancel_workflow :: "wf_sched \<Rightarrow> ident \<Rightarrow> (world, unit) m" where
  "cancel_workflow c wid =
     bnd time_now (\<lambda>now.
     bnd (wrap WorkflowSchedulerError (in_txn (
       bnd (wrap PersistenceError (get_workflow wid)) (\<lambda>w.
       if w_state w \<in> {WfCancelling, WfCancelled, WfComplete} then ret []
       else
         bnd (wrap PersistenceError (mark_workflow_cancelling wid now)) (\<lambda>_.
         bnd (wrap PersistenceError (list_workflow_steps wid)) (\<lambda>rows.
         bnd (live_tasks_of_running rows) (\<lambda>cancels.
         let cancelling = map s_id (filter (\<lambda>s. s_state s = StepRunning) rows);
             cancelled = map s_id (filter (\<lambda>s. s_state s \<in>
               {StepDefined, StepPending, StepFailed, StepTimedOut}) rows) in
         bnd (do_if (cancelling \<noteq> [])
           (wrap PersistenceError (mark_workflow_step_cancelling wid cancelling now))) (\<lambda>_.
         bnd (do_if (cancelled \<noteq> [])
           (wrap PersistenceError (mark_workflow_step_cancelled wid cancelled now))) (\<lambda>_.
         bnd (settle_workflow_if_done (w\<lparr>w_state := WfCancelling\<rparr>) now) (\<lambda>_.
         ret cancels))))))))))
       (request_cancels c))"

text \<open>Why a revival is refused, if it is.\<close>

fun workflow_state_name :: "workflow_state \<Rightarrow> string" where
  "workflow_state_name WfPending = ''PENDING''"
| "workflow_state_name WfRunning = ''RUNNING''"
| "workflow_state_name WfComplete = ''COMPLETE''"
| "workflow_state_name WfFailed = ''FAILED''"
| "workflow_state_name WfTimedOut = ''TIMED_OUT''"
| "workflow_state_name WfCancelling = ''CANCELLING''"
| "workflow_state_name WfCancelled = ''CANCELLED''"

definition revive_refusal :: "workflow_row \<Rightarrow> ident \<Rightarrow> time option \<Rightarrow> time \<Rightarrow> string option" where
  "revive_refusal w wid deadline now =
     (if w_state w \<notin> {WfFailed, WfTimedOut} then
        Some (''cannot revive workflow '' @ wid @ quoted '' in state'' (workflow_state_name (w_state w)) @
          '' (only FAILED / TIMED_OUT are revivable)'')
      else if w_state w = WfTimedOut \<and> (case deadline of None \<Rightarrow> True | Some d \<Rightarrow> \<not> d > now) then
        Some (''cannot revive TIMED_OUT workflow '' @ wid @ '' without a future new deadline'')
      else if (case deadline of None \<Rightarrow> False | Some d \<Rightarrow> \<not> d > now) then
        Some (''cannot revive workflow '' @ wid @ '' under an already-passed new deadline'')
      else None)"

definition revive_steps :: "ident \<Rightarrow> time option \<Rightarrow> time \<Rightarrow> (world, unit) m" where
  "revive_steps wid deadline now =
     bnd (wrap PersistenceError (mark_workflow_running wid now)) (\<lambda>_.
     bnd (wrap PersistenceError (list_workflow_steps wid)) (\<lambda>rows.
     let reverted = map s_id (filter (\<lambda>s. s_state s \<in> {StepFailed, StepTimedOut}) rows) in
     bnd (do_if (reverted \<noteq> [])
       (wrap PersistenceError (mark_workflow_step_defined wid reverted now))) (\<lambda>_.
     case deadline of
       None \<Rightarrow> ret ()
     | Some d \<Rightarrow> wrap PersistenceError (update_workflow_deadline wid d))))"

text \<open>\<open>None\<close>: revived; \<open>Some\<close> reason: dropped.\<close>

definition revive_workflow :: "wf_sched \<Rightarrow> ident \<Rightarrow> time option \<Rightarrow> (world, string option) m" where
  "revive_workflow c wid deadline =
     bnd time_now (\<lambda>now.
     bnd (wrap WorkflowSchedulerError (in_txn (
       bnd (wrap PersistenceError (get_workflow wid)) (\<lambda>w.
       case revive_refusal w wid deadline now of
         Some reason \<Rightarrow> ret (Some reason)
       | None \<Rightarrow> bnd (revive_steps wid deadline now) (\<lambda>_. ret None))))) (\<lambda>refused.
     case refused of
       Some reason \<Rightarrow> ret (Some reason)
     | None \<Rightarrow> bnd (poke c (\<lambda>u. prepare_wf_process u ws_name wid now)) (\<lambda>_. ret None)))"

section \<open>Feedback from the task engine\<close>

fun map_task_event_to_step_state :: "event_type \<Rightarrow> step_state option" where
  "map_task_event_to_step_state CompleteTask = Some StepComplete"
| "map_task_event_to_step_state FailedTask = Some StepFailed"
| "map_task_event_to_step_state EngineFailedTask = Some StepFailed"
| "map_task_event_to_step_state TimedOutTask = Some StepTimedOut"
| "map_task_event_to_step_state CancelledTask = Some StepCancelled"
| "map_task_event_to_step_state _ = None"

definition on_notification :: "wf_sched \<Rightarrow> event_type \<Rightarrow> ident option \<Rightarrow> (world, unit) m" where
  "on_notification c ty subject =
     (case map_task_event_to_step_state ty of
        None \<Rightarrow> ret ()
      | Some s \<Rightarrow>
          (case subject of
             None \<Rightarrow> ret ()
           | Some t \<Rightarrow>
               if t = [] then ret ()
               else bnd time_now (\<lambda>now.
                 poke c (\<lambda>u. prepare_wf_step_task_update u ws_name t s now))))"

section \<open>The maintenance sweep\<close>

definition non_terminal_workflow_states :: "workflow_state list" where
  "non_terminal_workflow_states = [WfPending, WfRunning, WfFailed, WfTimedOut, WfCancelling]"

fun map_task_state_to_step_state :: "task_state \<Rightarrow> step_state option" where
  "map_task_state_to_step_state TaskComplete = Some StepComplete"
| "map_task_state_to_step_state TaskFailed = Some StepFailed"
| "map_task_state_to_step_state TaskTimeout = Some StepTimedOut"
| "map_task_state_to_step_state TaskCancelled = Some StepCancelled"
| "map_task_state_to_step_state _ = None"

definition task_live :: "task_row \<Rightarrow> bool" where
  "task_live t \<longleftrightarrow> map_task_state_to_step_state (t_state t) = None"

definition classify_running_step :: "step_row \<Rightarrow> (world, (ident \<times> step_state) option) m" where
  "classify_running_step s =
     bnd (wrap PersistenceError (get_workflow_step_and_executor_task (s_id s) False)) (\<lambda>(_, ts).
     ret (if \<exists>t \<in> set ts. task_live t then None
       else case ts of
         [] \<Rightarrow> Some (s_id s, StepFailed)
       | t # _ \<Rightarrow> Some (s_id s, the (map_task_state_to_step_state (t_state t)))))"

definition classify_cancelling_step ::
  "step_row \<Rightarrow> (world, (ident \<times> step_state) option \<times> ident list) m"
where
  "classify_cancelling_step s =
     bnd (wrap PersistenceError (get_workflow_step_and_executor_task (s_id s) False)) (\<lambda>(_, ts).
     let live = map t_id (filter task_live ts) in
     ret (if live \<noteq> [] then (None, live) else (Some (s_id s, StepCancelled), [])))"

record drives =
  dr_process :: bool
  dr_schedule :: "ident list"
  dr_updates :: "(ident \<times> step_state) list"
  dr_cancels :: "ident list"

definition no_drives :: drives where
  "no_drives = \<lparr>dr_process = False, dr_schedule = [], dr_updates = [], dr_cancels = []\<rparr>"

fun reconcile_steps :: "step_row list \<Rightarrow> drives \<Rightarrow> (world, drives) m" where
  "reconcile_steps [] r = ret r"
| "reconcile_steps (s # ss) r =
     (case s_state s of
        StepDefined \<Rightarrow> reconcile_steps ss (r\<lparr>dr_process := True\<rparr>)
      | StepPending \<Rightarrow> reconcile_steps ss (r\<lparr>dr_schedule := dr_schedule r @ [s_id s]\<rparr>)
      | StepRunning \<Rightarrow> bnd (classify_running_step s) (\<lambda>p.
          reconcile_steps ss (case p of None \<Rightarrow> r | Some u \<Rightarrow> r\<lparr>dr_updates := dr_updates r @ [u]\<rparr>))
      | StepCancelling \<Rightarrow> bnd (classify_cancelling_step s) (\<lambda>(p, ts).
          reconcile_steps ss
            ((case p of None \<Rightarrow> r | Some u \<Rightarrow> r\<lparr>dr_updates := dr_updates r @ [u]\<rparr>)
              \<lparr>dr_cancels := dr_cancels r @ ts\<rparr>))
      | _ \<Rightarrow> reconcile_steps ss r)"

definition reconcile_workflow :: "wf_sched \<Rightarrow> ident \<Rightarrow> (world, unit) m" where
  "reconcile_workflow c wid =
     bnd time_now (\<lambda>now.
     bnd (wrap WorkflowSchedulerError (in_txn (
       bnd (wrap PersistenceError (get_workflow wid)) (\<lambda>w.
       if \<not> w_deadline w > now then
         bnd (time_out_workflow_steps w now) (\<lambda>cancels. ret (no_drives\<lparr>dr_cancels := cancels\<rparr>))
       else
         bnd (wrap PersistenceError (list_workflow_steps wid)) (\<lambda>rows.
         bnd (reconcile_steps rows (no_drives\<lparr>dr_process := (w_state w = WfPending)\<rparr>)) (\<lambda>r.
         bnd (settle_workflow_if_done w now) (\<lambda>_. ret r))))))) (\<lambda>r.
     bnd (for_each (dr_updates r) (\<lambda>(i, s). poke c (\<lambda>u. prepare_wf_step_exec_update u ws_name i s now))) (\<lambda>_.
     bnd (for_each (dr_schedule r) (\<lambda>i. poke c (\<lambda>u. prepare_wf_schedule_step u ws_name i now))) (\<lambda>_.
     bnd (do_if (dr_process r) (poke c (\<lambda>u. prepare_wf_process u ws_name wid now))) (\<lambda>_.
     request_cancels c (dr_cancels r))))))"

definition run_maintenance_sweep :: "wf_sched \<Rightarrow> (world, unit) m" where
  "run_maintenance_sweep c =
     bnd (wrap WorkflowSchedulerError (in_txn (wrap PersistenceError
       (list_workflows (any_workflow\<lparr>wf_states := non_terminal_workflow_states\<rparr>))))) (\<lambda>ws.
     for_each ws (\<lambda>w. logged (reconcile_workflow c (w_id w))))"

section \<open>The queue\<close>

text \<open>The result of a handler is a reason to record and drop the message, if any.\<close>

definition handled :: "(world, unit) m \<Rightarrow> (world, string option) m" where
  "handled h = bnd h (\<lambda>_. ret None)"

fun workflow_dispatch :: "wf_sched \<Rightarrow> ipc_msg \<Rightarrow> string + (world, string option) m" where
  "workflow_dispatch c (WorkflowMsg b i) =
     (case bm_type b of
        WFProcessWorkflow \<Rightarrow> Inr (handled (process_workflow c i))
      | WFCancelWorkflow \<Rightarrow> Inr (handled (cancel_workflow c i))
      | ty \<Rightarrow> Inl (quoted ''unsupported workflow message type'' (ipc_type_name ty)))"
| "workflow_dispatch c (StepMsg b i) =
     (case bm_type b of
        WFScheduleStep \<Rightarrow> Inr (handled (schedule_workflow_step c i))
      | ty \<Rightarrow> Inl (quoted ''unsupported workflow-step message type'' (ipc_type_name ty)))"
| "workflow_dispatch c (StepExecUpdateMsg b i s) =
     (case bm_type b of
        WFStepExecUpdate \<Rightarrow> Inr (handled (apply_step_execution_update c i s))
      | ty \<Rightarrow> Inl (quoted ''unsupported workflow-step-exec-update message type'' (ipc_type_name ty)))"
| "workflow_dispatch c (StepTaskUpdateMsg b t s) =
     (case bm_type b of
        WFStepTaskUpdate \<Rightarrow> Inr (handled (apply_step_task_update c t s))
      | ty \<Rightarrow> Inl (quoted ''unsupported workflow-step-task-update message type'' (ipc_type_name ty)))"
| "workflow_dispatch c (ReviveMsg b i d) =
     (case bm_type b of
        WFReviveWorkflow \<Rightarrow> Inr (revive_workflow c i d)
      | ty \<Rightarrow> Inl (quoted ''unsupported workflow-revive message type'' (ipc_type_name ty)))"
| "workflow_dispatch c (BaseMsg b) =
     (case bm_type b of
        WFMaintenance \<Rightarrow> Inr (handled (run_maintenance_sweep c))
      | ty \<Rightarrow> Inl (quoted ''unsupported base message type'' (ipc_type_name ty)))"
| "workflow_dispatch c m = Inl (quoted ''unsupported message type'' (go_type_name m))"

definition run_workflow_handler ::
  "wf_sched \<Rightarrow> string \<Rightarrow> (world, string option) m \<Rightarrow> (world, unit) m"
where
  "run_workflow_handler c raw h w =
     (case h w of
        (Inr (Some reason), w1) \<Rightarrow> record_and_drop_invalid_message ws_name (ws_queue c) raw reason w1
      | (Inr None, w1) \<Rightarrow> (Inr (), snd (logged (delete_buffered (ws_queue c)) w1))
      | (Inl e, w1) \<Rightarrow> (Inl e, snd (logged (delete_buffered (ws_queue c)) w1)))"

definition process_one_workflow_request :: "wf_sched \<Rightarrow> received \<Rightarrow> (world, unit) m" where
  "process_one_workflow_request c msg =
     (case msg of
        ReadFailed \<Rightarrow> throw (wrapped WorkflowSchedulerError (wrapped IPCMessageQueueError (leaf RedisError)))
      | NoMessage \<Rightarrow> ret ()
      | Unreadable \<Rightarrow>
          record_and_drop_invalid_message ws_name (ws_queue c) [] ''unreadable payload''
      | Payload j \<Rightarrow>
          bnd (gets (\<lambda>w. text_of w j)) (\<lambda>raw.
          case parse_ipc_message j of
            Inl _ \<Rightarrow> record_and_drop_invalid_message ws_name (ws_queue c) raw ''unparsable message''
          | Inr m \<Rightarrow>
              (case workflow_dispatch c m of
                 Inl reason \<Rightarrow> record_and_drop_invalid_message ws_name (ws_queue c) raw reason
               | Inr h \<Rightarrow> run_workflow_handler c raw h)))"

fun process_workflow_queue :: "wf_sched \<Rightarrow> received list \<Rightarrow> (world, goerr option) m" where
  "process_workflow_queue c [] w = (Inr None, w)"
| "process_workflow_queue c (msg # rest) w =
     (case process_one_workflow_request c msg w of
        (Inl e, w1) \<Rightarrow> if is_fatal_db_error e then (Inr (Some e), w1) else process_workflow_queue c rest w1
      | (Inr _, w1) \<Rightarrow> process_workflow_queue c rest w1)"

section \<open>Start-up and the maintenance timer\<close>

definition is_supported_workflow_message :: "ipc_msg \<Rightarrow> string option" where
  "is_supported_workflow_message m =
     (case m of
        WorkflowMsg b _ \<Rightarrow>
          if bm_type b \<in> {WFProcessWorkflow, WFCancelWorkflow} then None
          else Some (quoted ''unsupported workflow message type'' (ipc_type_name (bm_type b)))
      | StepMsg b _ \<Rightarrow>
          if bm_type b = WFScheduleStep then None
          else Some (quoted ''unsupported workflow-step message type'' (ipc_type_name (bm_type b)))
      | StepExecUpdateMsg b _ _ \<Rightarrow>
          if bm_type b = WFStepExecUpdate then None
          else Some (quoted ''unsupported workflow-step-exec-update message type'' (ipc_type_name (bm_type b)))
      | StepTaskUpdateMsg b _ _ \<Rightarrow>
          if bm_type b = WFStepTaskUpdate then None
          else Some (quoted ''unsupported workflow-step-task-update message type'' (ipc_type_name (bm_type b)))
      | ReviveMsg b _ _ \<Rightarrow>
          if bm_type b = WFReviveWorkflow then None
          else Some (quoted ''unsupported workflow-revive message type'' (ipc_type_name (bm_type b)))
      | BaseMsg b \<Rightarrow>
          if bm_type b = WFMaintenance then None
          else Some (quoted ''unsupported base message type'' (ipc_type_name (bm_type b)))
      | _ \<Rightarrow> Some (quoted ''unsupported message type'' (go_type_name m)))"

text \<open>Draining the buffer; the list is what the successive reads of the buffer yield.\<close>

fun recover_workflow_messages :: "wf_sched \<Rightarrow> received list \<Rightarrow> (world, unit) m" where
  "recover_workflow_messages c [] = ret ()"
| "recover_workflow_messages c (ReadFailed # rest) =
     throw (wrapped WorkflowSchedulerError (wrapped IPCMessageQueueError (leaf RedisError)))"
| "recover_workflow_messages c (NoMessage # rest) = ret ()"
| "recover_workflow_messages c (Unreadable # rest) =
     bnd (record_invalid_message ws_name [] ''unreadable payload'') (\<lambda>_. recover_workflow_messages c rest)"
| "recover_workflow_messages c (Payload j # rest) =
     bnd (gets (\<lambda>w. text_of w j)) (\<lambda>raw.
     bnd (case parse_ipc_message j of
         Inl _ \<Rightarrow> record_invalid_message ws_name raw ''unparsable message''
       | Inr m \<Rightarrow>
           (case is_supported_workflow_message m of
              Some reason \<Rightarrow> record_invalid_message ws_name raw reason
            | None \<Rightarrow> wrap WorkflowSchedulerError (re_enqueue (ws_queue c) j)))
       (\<lambda>_. recover_workflow_messages c rest))"

definition workflow_maintenance_tick :: "wf_sched \<Rightarrow> (world, unit) m" where
  "workflow_maintenance_tick c =
     bnd time_now (\<lambda>now.
     wrap WorkflowSchedulerError (send_new (ws_queue c) (\<lambda>u. prepare_wf_maintenance u ws_name now)))"

text \<open>\<open>Start\<close>: the buffer is drained before the loop over the queue begins.\<close>

definition start_workflow_scheduler ::
  "wf_sched \<Rightarrow> received list \<Rightarrow> received list \<Rightarrow> (world, goerr option) m"
where
  "start_workflow_scheduler c buffered msgs =
     bnd (wrap WorkflowSchedulerError (recover_workflow_messages c buffered)) (\<lambda>_.
     process_workflow_queue c msgs)"

end
