(* ===== verification/Task_Outcomes.thy ===== *)
theory Task_Outcomes
  imports Task_Evolution
begin

text \<open>
  What a successful call has done. Each lemma reads the effect on the tables off the result of an
  operation, whatever else the world holds, so that a handler's postcondition is a chain of them;
  and, for worlds without faults, when the state changes succeed.
\<close>

named_theorems ok_dests \<open>effects of successful operations\<close>

lemma select_all_ok [ok_dests]: "select_all q w = (Inr x, w') \<Longrightarrow> x = q (db w) \<and> db w' = db w"
  by (auto simp: select_all_def sql_def Let_def split: if_splits)

lemma fetch_one_ok [ok_dests]: "fetch_one q w = (Inr x, w') \<Longrightarrow> q (db w) = Some x \<and> db w' = db w"
  by (auto simp: fetch_one_def select_first_def sql_def Let_def
      split: if_splits prod.splits sum.splits option.splits)

lemma change_ok [ok_dests]: "change f w = (Inr x, w') \<Longrightarrow> db w' = f (db w)"
  by (auto simp: change_def sql_def Let_def split: if_splits)

lemma insert_if_ok [ok_dests]: "insert_if ok f w = (Inr x, w') \<Longrightarrow> ok (db w) \<and> db w' = f (db w)"
  by (auto simp: insert_if_def sql_def Let_def split: if_splits)

lemma time_now_ok [ok_dests]: "time_now w = (Inr x, w') \<Longrightarrow> db w' = db w"
  by (auto simp: time_now_def)

lemma ulid_make_ok [ok_dests]: "ulid_make w = (Inr x, w') \<Longrightarrow> db w' = db w"
  by (auto simp: ulid_make_def)

lemma queue_call_db: "queue_call a w = (r, w') \<Longrightarrow> db w' = db w"
  by (auto simp: queue_call_def Let_def record_action_def split: if_splits)

lemma send_new_ok [ok_dests]: "send_new q f w = (Inr x, w') \<Longrightarrow> db w' = db w"
  by (auto simp: send_new_def send_msg_def ulid_make_def monad_results dest!: queue_call_db)

lemma check_move_ok [ok_dests]: "check_move r w = (Inr x, w') \<Longrightarrow> (\<exists>u. r = Inr u) \<and> w' = w"
  by (auto simp: check_move_def split: sum.splits)

lemma nop_ok: "sql (\<lambda>d. (Inr (), d)) w = (r, w') \<Longrightarrow> db w' = db w"
  by (auto simp: sql_def Let_def split: if_splits)

lemma in_txn_ok [ok_dests]:
  assumes "in_txn p w = (Inr a, w')"
  shows "\<exists>w1 w2. db w1 = db w \<and> p w1 = (Inr a, w2) \<and> db w' = db w2"
proof -
  obtain w1 w2 w3 where "sql (\<lambda>d. (Inr (), d)) w = (Inr (), w1)"
    and p: "p (record_action TxnBegin w1) = (Inr a, w2)"
    and "sql (\<lambda>d. (Inr (), d)) w2 = (Inr (), w3)" and w': "w' = record_action TxnCommit w3"
    using assms by (auto simp: in_txn_def split: prod.splits sum.splits)
  then have "db w1 = db w" "db w3 = db w2" by (auto dest: nop_ok)
  then show ?thesis
    using p w' by (intro exI [of _ "record_action TxnBegin w1"] exI [of _ w2])
      (simp add: record_action_def)
qed

lemma handler_ok:
  assumes "wrap k (in_txn (bnd p f)) w = (Inr u, w')"
  shows "\<exists>a w1 w2 w3. p w1 = (Inr a, w2) \<and> db w1 = db w \<and> f a w2 = (Inr u, w3) \<and> db w' = db w3"
proof -
  have "in_txn (bnd p f) w = (Inr u, w')" using assms by (simp add: wrap_result_Inr)
  from in_txn_ok [OF this] show ?thesis by (auto simp: bnd_result_Inr)
qed

lemma handler_error: "wrap k (in_txn p) w = (Inl e, w') \<Longrightarrow> db w' = db w"
  by (auto simp: wrap_result_Inl in_txn_def sql_def record_action_def Let_def
      split: prod.splits sum.splits if_splits)

lemma do_if_ok [ok_dests]: "do_if b p w = (Inr x, w') \<Longrightarrow> (if b then p w = (Inr x, w') else w' = w)"
  by (auto split: if_splits)

lemma define_new_system_event_ok [ok_dests]:
  "define_new_system_event ty m w = (Inr v, w') \<Longrightarrow>
     db w' = (db w)\<lparr>events := events (db w) @ [v]\<rparr> \<and> v_type v = ty \<and> v_meta v = meta_json m"
  by (auto simp: define_new_system_event_def Let_def monad_results new_event_def
      split: if_splits dest!: ok_dests)

lemma task_found: "find_row t_id i ts = Some t \<Longrightarrow> t_id t = i"
  and exec_found: "find_row e_id i es = Some e \<Longrightarrow> e_id e = i"
  by (auto dest: find_row_Some)

lemma update_task_state_ok [ok_dests]:
  assumes "update_task_state i s w = (Inr x, w')"
  shows "\<exists>t. find_row t_id i (tasks (db w)) = Some t \<and> moves task_transitions (t_state t) s \<and>
    tasks (db w') = tasks (set_task_state i s (db w)) \<and> execs (db w') = execs (db w) \<and>
    same_workflow_tables (db w) (db w') \<and> links (db w') = links (db w)"
  using assms
  by (auto simp: same_workflow_tables_def update_task_state_def get_task_def monad_results task_machine.valid_cases
      set_task_state_def task_found split: option.splits if_splits dest!: ok_dests intro: exI)

lemma update_task_execution_state_ok [ok_dests]:
  assumes "update_task_execution_state i s u w = (Inr x, w')"
  shows "\<exists>e now. find_row e_id i (execs (db w)) = Some e \<and> moves exec_transitions (e_state e) s \<and>
    db w' = set_exec_state i s u now (db w)"
  using assms
  by (auto simp: update_task_execution_state_def get_task_execution_def monad_results
      exec_machine.valid_cases exec_found split: if_splits dest!: ok_dests)

lemma define_exec_ok [ok_dests]:
  assumes "define_exec t c s start parent w = (Inr e, w')"
  shows "(\<exists>i now. e = new_exec_row t c s start parent i now) \<and> e_id e \<notin> e_id ` set (execs (db w)) \<and>
    db w' = (db w)\<lparr>execs := execs (db w) @ [e]\<rparr>"
  using assms
  by (auto simp: define_exec_def insert_exec_def monad_results Let_def split: if_splits dest!: ok_dests)

lemma list_all_executions_ok [ok_dests]:
  "list_all_executions f w = (Inr es, w') \<Longrightarrow> db w' = db w \<and>
     es = page_rows (page.truncate f) (sort_key e_created (filter (exec_matches f) (execs (db w))))"
  by (auto simp: list_all_executions_def monad_results split: if_splits dest!: ok_dests)

section \<open>Without faults\<close>

lemma update_task_execution_state_run:
  assumes "sql_faults w = []" "find_row e_id i (execs (db w)) = Some e"
    "moves exec_transitions (e_state e) s" "s = ExecAcquired \<longrightarrow> eu_worker u \<noteq> None"
  shows "update_task_execution_state i s u w =
    (Inr (), w\<lparr>ticks := Suc (ticks w), db := set_exec_state i s u (clock w (ticks w)) (db w)\<rparr>)"
proof -
  have "e_id e = i" using assms(2) by (auto dest: find_row_Some)
  then show ?thesis
    using assms by (simp add: update_task_execution_state_def get_task_execution_def check_move_def
        exec_machine.valid_cases)
qed

text \<open>The identifier and the event that a state change of a task writes are acceptable.\<close>

definition event_ready :: "world \<Rightarrow> ident \<Rightarrow> bool" where
  "event_ready w i \<longleftrightarrow> i \<noteq> [] \<and> ulid_of w (ulids w) \<noteq> [] \<and>
     ulid_of w (ulids w) \<notin> v_id ` set (events (db w))"

lemma update_task_state_run:
  assumes "sql_faults w = []" "find_row t_id i (tasks (db w)) = Some t"
    "moves task_transitions (t_state t) s" "t_creator t \<noteq> []" "event_ready w i"
  shows "update_task_state i s w =
    (Inr (), case task_event s of
       None \<Rightarrow> w\<lparr>db := set_task_state i s (db w)\<rparr>
     | Some ty \<Rightarrow>
         w\<lparr>ulids := Suc (ulids w), ticks := Suc (ticks w),
           db := (set_task_state i s (db w))\<lparr>events := events (db w) @
             [new_event (ulid_of w (ulids w)) ty (TaskEvents i (t_creator t)) (clock w (ticks w))]\<rparr>\<rparr>)"
proof -
  have "t_id t = i" using assms(2) by (auto dest: find_row_Some)
  then show ?thesis
    using assms
    by (simp add: update_task_state_def get_task_def check_move_def task_machine.valid_cases
        define_new_system_event_run set_task_state_def event_ready_def Let_def split: option.splits)
qed

end
