(* ===== verification/Task_Handlers.thy ===== *)
theory Task_Handlers
  imports Task_Scheduler Task_Outcomes
begin

text \<open>
  The properties of the task scheduler: whatever fails, the rows move along their state machines
  and the workflow tables stay as they are; what a handler leaves behind when it succeeds, and that it
  has no effect on what is behind it already.
\<close>

section \<open>Every handler stays within the state machines\<close>

context log_evolution
begin

lemma ev_case_task_state:
  "evolves W a \<Longrightarrow> evolves W b \<Longrightarrow> evolves W c \<Longrightarrow> evolves W d \<Longrightarrow> evolves W e \<Longrightarrow> evolves W f \<Longrightarrow>
   evolves W g \<Longrightarrow> evolves W (case_task_state a b c d e f g s)"
  by (cases s) simp_all

lemma ev_case_exec_state:
  "evolves W a \<Longrightarrow> evolves W b \<Longrightarrow> evolves W c \<Longrightarrow> evolves W d \<Longrightarrow> evolves W e \<Longrightarrow> evolves W f \<Longrightarrow>
   evolves W g \<Longrightarrow> evolves W h \<Longrightarrow> evolves W k \<Longrightarrow> evolves W (case_exec_state a b c d e f g h k s)"
  by (cases s) simp_all

lemma ev_record_invalid_message: "evolves W (record_invalid_message rc raw reason)"
  unfolding record_invalid_message_def by (intro ev_log)

lemma ev_record_and_drop: "evolves W (record_and_drop_invalid_message rc q raw reason)"
  unfolding record_and_drop_invalid_message_def by (intro ev_record_invalid_message ev_log)

end

context task_evolution
begin

lemmas ev_all = ev_case_task_state ev_case_exec_state ev_tasks

lemma ev_mark_task:
  "evolves W (mark_task_active i)" "evolves W (mark_task_complete i)"
  "evolves W (mark_task_failed i)" "evolves W (mark_task_cancelling i)"
  "evolves W (mark_task_cancelled i)" "evolves W (mark_task_timed_out i)"
  by (simp_all add: mark_task_defs ev_update_task_state)

lemma ev_request_execution: "evolves W p \<Longrightarrow> evolves W (request_execution c t i p)"
  unfolding request_execution_def by (intro ev_all)

lemma ev_start_first: "evolves W (start_first_instance c t)"
  unfolding start_first_instance_def mark_exec_defs by (intro ev_all ev_request_execution)

lemma ev_new_pending: "evolves W (process_new_pending_task c i)"
  unfolding process_new_pending_task_def mark_task_defs by (intro ev_start_first ev_all)

lemma ev_fetch_exec: "evolves W (fetch_exec_instance_and_parent_task i)"
  unfolding fetch_exec_instance_and_parent_task_def by (intro ev_all)

lemma ev_starting: "evolves W (process_task_execution_starting c i t)"
  unfolding process_task_execution_starting_def mark_exec_defs
  by (intro ev_fetch_exec ev_all ev_request_execution)

lemma ev_complete: "evolves W (process_task_execution_complete i)"
  unfolding process_task_execution_complete_def mark_task_defs mark_exec_defs
  by (intro ev_fetch_exec ev_all)

lemma ev_retry_or_fail: "evolves W (retry_or_fail c e t stamp)"
  unfolding retry_or_fail_def mark_task_defs by (intro ev_all)

lemma ev_failed: "evolves W (process_task_execution_failed c i t)"
  unfolding process_task_execution_failed_def mark_exec_defs
  by (intro ev_fetch_exec ev_retry_or_fail ev_all)

lemma ev_engine_failed: "evolves W (process_task_execution_engine_failed i)"
  unfolding process_task_execution_engine_failed_def mark_task_defs mark_exec_defs
  by (intro ev_fetch_exec ev_all)

lemma ev_cancel_ongoing: "evolves W (cancel_ongoing_exec_instances_of_task t stamp)"
  unfolding cancel_ongoing_exec_instances_of_task_def mark_exec_defs by (intro ev_all)

lemma ev_exec_timed_out: "evolves W (process_task_execution_timed_out i t)"
  unfolding process_task_execution_timed_out_def mark_task_defs mark_exec_defs
  by (intro ev_fetch_exec ev_cancel_ongoing ev_all)

lemma ev_cancel_task: "evolves W (process_cancel_task i t)"
  unfolding process_cancel_task_def mark_task_defs by (intro ev_cancel_ongoing ev_all)

lemma ev_task_timeout: "evolves W (process_task_timeout i t)"
  unfolding process_task_timeout_def mark_task_defs by (intro ev_cancel_ongoing ev_all)

lemmas ev_handlers = ev_new_pending ev_starting ev_complete ev_failed ev_engine_failed
  ev_exec_timed_out ev_cancel_task ev_task_timeout

end

section \<open>The scheduler over its handlers\<close>

text \<open>What the maintenance sweep and the queue rely on: each of the eight handlers evolves.\<close>

locale task_handlers = log_evolution D for D :: "tables \<Rightarrow> tables \<Rightarrow> bool" +
  assumes handler_new_pending: "evolves W (process_new_pending_task c i)"
    and handler_starting: "evolves W (process_task_execution_starting c i t)"
    and handler_complete: "evolves W (process_task_execution_complete i)"
    and handler_failed: "evolves W (process_task_execution_failed c i t)"
    and handler_engine_failed: "evolves W (process_task_execution_engine_failed i)"
    and handler_exec_timed_out: "evolves W (process_task_execution_timed_out i t)"
    and handler_cancel_task: "evolves W (process_cancel_task i t)"
    and handler_task_timeout: "evolves W (process_task_timeout i t)"
begin

lemmas handlers = handler_new_pending handler_starting handler_complete handler_failed
  handler_engine_failed handler_exec_timed_out handler_cancel_task handler_task_timeout

lemma ev_maintenance_list: "evolves W p \<Longrightarrow> evolves W (maintenance_list p)"
  unfolding maintenance_list_def by (intro ev_log)

lemma ev_perform_maintenance: "evolves W (perform_maintenance c)"
  unfolding perform_maintenance_def
  by (intro handlers ev_maintenance_list ev_case_task_state ev_case_exec_state ev_log)

lemma ev_run_then_delete:
  assumes "evolves W h"
  shows "evolves W (run_then_delete q h)"
proof (rule evolvesI)
  fix w r w'
  assume run: "run_then_delete q h w = (r, w')"
  obtain x w1 where h: "h w = (x, w1)" by (cases "h w")
  have "W w1 w'"
    using run h evolvesD [OF ev_logged [OF ev_delete_buffered [of q]], of w1 "Inr ()"]
    by (simp add: run_then_delete_def)
  then show "W w w'" by (rule R_trans [OF evolvesD [OF assms h]])
qed

lemma ev_task_dispatch: "task_dispatch c m = Inr h \<Longrightarrow> evolves W h"
  by (cases "(c, m)" rule: task_dispatch.cases)
    (auto split: ipc_type.splits intro: handlers ev_perform_maintenance)

lemma ev_task_request: "evolves W (process_one_task_request c msg)"
proof (cases msg)
  case (Payload j)
  have "evolves W (case task_dispatch c m of
      Inl reason \<Rightarrow> record_and_drop_invalid_message ts_name (ts_queue c) raw reason
    | Inr h \<Rightarrow> run_then_delete (ts_queue c) h)" for m raw
    by (auto split: sum.split intro: ev_record_and_drop ev_run_then_delete ev_task_dispatch)
  then show ?thesis
    unfolding Payload process_one_task_request_def received.case
    by (cases "parse_ipc_message j") (auto intro!: ev_bnd ev_gets ev_record_and_drop)
qed (simp_all add: process_one_task_request_def ev_throw ev_ret ev_record_and_drop)

lemma ev_task_queue: "W w (snd (process_task_queue c msgs w))"
proof (induction c msgs w rule: process_task_queue.induct)
  case (1 c w)
  then show ?case by (simp add: R_refl)
next
  case (2 c msg rest w)
  obtain x w1 where run: "process_one_task_request c msg w = (x, w1)"
    by (cases "process_one_task_request c msg w")
  have "W w w1" by (rule evolvesD [OF ev_task_request run])
  then show ?case using 2 run by (auto split: sum.splits intro: R_trans)
qed

end

sublocale task_evolution \<subseteq> task_handlers D
  by unfold_locales (rule ev_handlers)+

text \<open>C2. Whatever the task scheduler reads from its queue and whatever statement, commit or send
  fails, a run of it moves every task and every execution instance along its state machine only:
  no row disappears, identity and parameters stay, an outcome once recorded is never altered, new
  instances are born live, and no workflow, step or link is touched.\<close>

theorem task_scheduler_evolves:
  "task_tables_evolve (db w) (db (snd (process_task_queue c msgs w)))"
  using task_life.ev_task_queue [of w c msgs] by (simp add: task_life.W_def)

section \<open>Duplicate messages\<close>

lemma pending_never_again: "moves_star task_transitions s TaskPending \<Longrightarrow> s = TaskPending"
proof (induction rule: converse_rtranclp_induct)
  case (step y z)
  then show ?case by (cases y) (auto simp: moves_def succs_def)
qed simp

lemma finalized_stays: "moves_star exec_transitions ExecFinalized s \<Longrightarrow> s = ExecFinalized"
  by (erule converse_rtranclpE) (auto simp: moves_def succs_def)

lemma at_or_past_finalized: "is_state_at_or_past s ExecFinalized \<longleftrightarrow> s = ExecFinalized"
  by (auto simp: is_state_at_or_past_def at_or_past_in_iff dest: finalized_stays)

lemma get_task_reads: "get_task i w = (x, w') \<Longrightarrow> db w' = db w \<and> history w' = history w"
  by (auto simp: get_task_def fetch_one_def select_first_def sql_def Let_def
      split: if_splits prod.splits sum.splits option.splits)

lemma get_task_execution_reads: "get_task_execution i w = (x, w') \<Longrightarrow> db w' = db w \<and> history w' = history w"
  by (auto simp: get_task_execution_def fetch_one_def select_first_def sql_def Let_def
      split: if_splits prod.splits sum.splits option.splits)

lemma wrap_reads: "wrap k p w = (x, w') \<Longrightarrow> \<exists>y. p w = (y, w')"
  by (auto simp: wrap_def split: prod.splits sum.splits)

lemma fetch_exec_reads:
  "fetch_exec_instance_and_parent_task i w = (x, w') \<Longrightarrow> db w' = db w \<and> history w' = history w"
  by (auto simp: fetch_exec_instance_and_parent_task_def bnd_def
      split: prod.splits sum.splits dest!: wrap_reads get_task_reads get_task_execution_reads)

lemma get_task_ok [ok_dests]:
  "get_task i w = (Inr t, w') \<Longrightarrow> find_row t_id i (tasks (db w)) = Some t \<and> db w' = db w"
  by (auto simp: get_task_def dest!: fetch_one_ok)

lemma fetch_exec_ok [ok_dests]:
  "fetch_exec_instance_and_parent_task i w = (Inr (e, t), w') \<Longrightarrow>
     find_row e_id i (execs (db w)) = Some e \<and> find_row t_id (e_task e) (tasks (db w)) = Some t \<and>
     db w' = db w"
  by (auto simp: fetch_exec_instance_and_parent_task_def get_task_execution_def monad_results
      dest!: fetch_one_ok get_task_ok)

lemma get_task_still:
  "get_task i w = (Inr t, w') \<Longrightarrow>
     find_row t_id i (tasks (db w)) = Some t \<and> db w' = db w \<and> history w' = history w"
  by (blast dest: get_task_ok get_task_reads)

lemma fetch_exec_still:
  "fetch_exec_instance_and_parent_task i w = (Inr (e, t), w') \<Longrightarrow>
     find_row e_id i (execs (db w)) = Some e \<and> db w' = db w \<and> history w' = history w"
  by (blast dest: fetch_exec_ok fetch_exec_reads)

text \<open>A task that is not pending is left alone, an instance that is finalized too.\<close>

lemma new_pending_noop:
  assumes "find_row t_id i (tasks (db w)) = Some t" "t_state t \<noteq> TaskPending"
  shows "no_effect w (snd (process_new_pending_task c i w))"
  unfolding process_new_pending_task_def
  by (intro no_effect_wrap no_effect_txn, erule bnd_cases)
    (use assms in \<open>auto simp: monad_results dest!: wrap_reads get_task_still dest: get_task_reads\<close>)

interpretation task_write: keyed_update t_id "\<lambda>r. r\<lparr>t_state := s\<rparr>" for s
  by unfold_locales simp

lemma find_set_task_state:
  "find_row t_id j (tasks (set_task_state i s d)) =
     map_option (\<lambda>t. if j = i then t\<lparr>t_state := s\<rparr> else t) (find_row t_id j (tasks d))"
  unfolding set_task_state_def
  by (auto simp: task_write.find_update map_option_case dest: task_found split: option.splits)

lemma task_evolves_from:
  assumes "task_tables_evolve d d'" "find_row t_id i (tasks d) = Some t"
  shows "\<exists>t'. find_row t_id i (tasks d') = Some t' \<and> task_adv t t'"
  using assms by (auto simp: task_tables_evolve_def dest: task_rows.rows_advance)

lemma exec_evolves_from:
  assumes "task_tables_evolve d d'" "find_row e_id i (execs d) = Some e"
  shows "\<exists>e'. find_row e_id i (execs d') = Some e' \<and> exec_adv e e'"
  using assms by (auto simp: task_tables_evolve_def dest: exec_rows.rows_advance)

lemma not_pending_evolves:
  assumes "task_tables_evolve d d'" "find_row t_id i (tasks d) = Some t" "t_state t \<noteq> TaskPending"
  shows "\<exists>t'. find_row t_id i (tasks d') = Some t' \<and> t_state t' \<noteq> TaskPending"
  using task_evolves_from [OF assms(1,2)] assms(3) by (metis task_adv_def pending_never_again)

lemma new_pending_done:
  assumes "process_new_pending_task c i w = (Inr (), w')"
  shows "\<exists>t. find_row t_id i (tasks (db w')) = Some t \<and> t_state t \<noteq> TaskPending"
proof -
  obtain w0 w1 t w2 where "wrap PersistenceError (get_task i) w0 = (Inr t, w1)" "db w' = db w2"
    and run: "(if t_state t \<noteq> TaskPending then ret () else
      bnd (wrap PersistenceError (mark_task_active (t_id t))) (\<lambda>_. start_first_instance c t)) w1 = (Inr (), w2)"
    using handler_ok [OF assms [unfolded process_new_pending_task_def]] by blast
  then have t: "find_row t_id i (tasks (db w1)) = Some t" "db w2 = db w'"
    by (auto simp: wrap_result_Inr dest!: get_task_ok)
  show ?thesis
  proof (cases "t_state t = TaskPending")
    case True
    then have seq: "bnd (wrap PersistenceError (update_task_state i TaskActive))
        (\<lambda>_. start_first_instance c t) w1 = (Inr (), w2)"
      using run t by (simp add: mark_task_active_def task_found)
    obtain w3 where "update_task_state i TaskActive w1 = (Inr (), w3)"
      and later: "task_tables_evolve (db w3) (db w2)"
      using task_life.bnd_then [OF seq task_life.ev_start_first] by (auto simp: wrap_result_Inr)
    then have "\<exists>t'. find_row t_id i (tasks (db w3)) = Some t' \<and> t_state t' \<noteq> TaskPending"
      using t by (auto simp: find_set_task_state dest!: update_task_state_ok)
    then show ?thesis using not_pending_evolves [OF later] t by auto
  next
    case False
    then show ?thesis using run t by auto
  qed
qed

section \<open>The end of an instance\<close>

interpretation exec_write: keyed_update e_id "\<lambda>r. exec_columns s u r\<lparr>e_updated := now\<rparr>" for s u now
  by unfold_locales simp

lemma find_set_exec_state:
  "find_row e_id j (execs (set_exec_state i s u now d)) =
     map_option (\<lambda>e. if j = i then exec_columns s u e\<lparr>e_updated := now\<rparr> else e) (find_row e_id j (execs d))"
  unfolding set_exec_state_def
  by (auto simp: exec_write.find_update map_option_case dest: exec_found split: option.splits)

lemma set_exec_state_rest [simp]:
  "tasks (set_exec_state i s u now d) = tasks d" "links (set_exec_state i s u now d) = links d"
  "same_workflow_tables d (set_exec_state i s u now d)"
  by (simp_all add: set_exec_state_def same_workflow_tables_def)

lemma set_exec_state_keys [simp]:
  "map e_id (execs (set_exec_state i s u now d)) = map e_id (execs d)"
  "events (set_exec_state i s u now d) = events d"
  by (simp_all add: set_exec_state_def update_rows_def)

lemma set_task_state_rest [simp]:
  "execs (set_task_state i s d) = execs d" "links (set_task_state i s d) = links d"
  "events (set_task_state i s d) = events d"
  by (simp_all add: set_task_state_def)

text \<open>The three handlers that finalize an instance share their guard.\<close>

definition finalizing :: "task_sched \<Rightarrow> (ident \<Rightarrow> (world, unit) m) \<Rightarrow> bool" where
  "finalizing c h \<longleftrightarrow> h = process_task_execution_complete \<or>
     (\<exists>stamp. h = (\<lambda>i. process_task_execution_failed c i stamp)) \<or>
     h = process_task_execution_engine_failed"

definition finalize_with :: "(exec_row \<Rightarrow> task_row \<Rightarrow> (world, unit) m) \<Rightarrow> ident \<Rightarrow> (world, unit) m" where
  "finalize_with f i = wrap TaskSchedulerError (in_txn (
     bnd (fetch_exec_instance_and_parent_task i) (\<lambda>(e, t).
     if is_state_at_or_past (e_state e) ExecFinalized then ret ()
     else bnd (wrap PersistenceError (mark_task_exec_finalized (e_id e))) (\<lambda>_. f e t))))"

lemma finalizing_form:
  assumes "finalizing c h"
  shows "\<exists>f. (\<forall>e t. evolves task_life.W (f e t)) \<and> h = finalize_with f"
  using assms unfolding finalizing_def
proof (elim disjE exE)
  assume "h = process_task_execution_complete"
  then show ?thesis
    by (intro exI [of _ "\<lambda>e t. wrap PersistenceError (mark_task_complete (t_id t))"])
      (auto simp: fun_eq_iff process_task_execution_complete_def finalize_with_def
        intro!: task_life.ev_mark_task task_life.ev_all)
next
  fix stamp
  assume "h = (\<lambda>i. process_task_execution_failed c i stamp)"
  then show ?thesis
    by (intro exI [of _ "\<lambda>e t. do_if (t_state t = TaskActive) (retry_or_fail c e t stamp)"])
      (auto simp: fun_eq_iff process_task_execution_failed_def finalize_with_def
        intro!: task_life.ev_all task_life.ev_retry_or_fail)
next
  assume "h = process_task_execution_engine_failed"
  then show ?thesis
    by (intro exI [of _ "\<lambda>e t. bnd (wrap PersistenceError (mark_task_failed (t_id t))) (\<lambda>_.
         wrap PersistenceError (record_task_engine_failure t (e_id e)
           (''task engine failed to operate on execution instance '' @ e_id e)))"])
      (auto simp: fun_eq_iff process_task_execution_engine_failed_def finalize_with_def simp del: append.simps
        intro!: task_life.ev_mark_task task_life.ev_all)
qed

lemma finalized_noop:
  assumes "finalizing c h" "find_row e_id i (execs (db w)) = Some e" "e_state e = ExecFinalized"
  shows "no_effect w (snd (h i w))"
proof -
  have "no_effect w (snd (finalize_with f i w))" for f
    unfolding finalize_with_def
    by (intro no_effect_wrap no_effect_txn, erule bnd_cases)
      (use assms in \<open>auto simp: at_or_past_finalized dest!: fetch_exec_still dest: fetch_exec_reads\<close>)
  then show ?thesis using finalizing_form [OF assms(1)] by auto
qed

lemma finalize_then:
  assumes "finalize_with f i w = (Inr (), w')" "\<And>e t. evolves task_life.W (f e t)"
  shows "\<exists>e. find_row e_id i (execs (db w')) = Some e \<and> e_state e = ExecFinalized"
proof -
  obtain w0 w1 e t w2 where "fetch_exec_instance_and_parent_task i w0 = (Inr (e, t), w1)"
    and w2: "db w' = db w2"
    and run: "(if is_state_at_or_past (e_state e) ExecFinalized then ret () else
      bnd (wrap PersistenceError (mark_task_exec_finalized (e_id e))) (\<lambda>_. f e t)) w1 = (Inr (), w2)"
    using handler_ok [OF assms(1) [unfolded finalize_with_def]] by fastforce
  then have e: "find_row e_id i (execs (db w1)) = Some e" by (auto dest!: fetch_exec_ok)
  show ?thesis
  proof (cases "e_state e = ExecFinalized")
    case True
    then show ?thesis using run e w2 by (auto simp: at_or_past_finalized)
  next
    case False
    then have seq: "bnd (wrap PersistenceError (update_task_execution_state i ExecFinalized no_update))
        (\<lambda>_. f e t) w1 = (Inr (), w2)"
      using run e by (simp add: at_or_past_finalized mark_task_exec_finalized_def exec_found)
    obtain w3 where "update_task_execution_state i ExecFinalized no_update w1 = (Inr (), w3)"
      and later: "task_tables_evolve (db w3) (db w2)"
      using task_life.bnd_then [OF seq assms(2)] by (auto simp: wrap_result_Inr)
    then obtain e' where e': "find_row e_id i (execs (db w3)) = Some e'" "e_state e' = ExecFinalized"
      using e by (auto simp: find_set_exec_state dest!: update_task_execution_state_ok)
    show ?thesis
      using exec_evolves_from [OF later e'(1)] e'(2) w2
      by (auto simp: exec_adv_def dest!: finalized_stays)
  qed
qed

lemma finalizing_done:
  assumes "finalizing c h" "h i w = (Inr (), w')"
  shows "\<exists>e. find_row e_id i (execs (db w')) = Some e \<and> e_state e = ExecFinalized"
  using finalizing_form [OF assms(1)] assms(2) by (auto intro: finalize_then)

end
