(* ===== verification/Workflow_Evolution.thy ===== *)
theory Workflow_Evolution
  imports Workflow_Scheduler Task_Handlers
begin

text \<open>
  How the workflow tables may change: the contract of one workflow row and of one step row, the
  locale of all table relations that admit such changes, and the proof that every handler of the
  workflow scheduler stays within it, whatever fails.
\<close>

section \<open>One row\<close>

definition workflow_adv :: "workflow_row \<Rightarrow> workflow_row \<Rightarrow> bool" where
  "workflow_adv r r' \<longleftrightarrow> moves_star workflow_transitions (w_state r) (w_state r') \<and>
     r' = r\<lparr>w_state := w_state r', w_deadline := w_deadline r', w_started := w_started r',
       w_stopped := w_stopped r', w_updated := w_updated r'\<rparr> \<and>
     (w_state r \<noteq> WfPending \<longrightarrow> w_started r' = w_started r)"

definition step_adv :: "step_row \<Rightarrow> step_row \<Rightarrow> bool" where
  "step_adv r r' \<longleftrightarrow> moves_star step_transitions (s_state r) (s_state r') \<and>
     r' = r\<lparr>s_state := s_state r', s_restarted := s_restarted r', s_deadline := s_deadline r',
       s_started := s_started r', s_stopped := s_stopped r', s_updated := s_updated r'\<rparr> \<and>
     (s_restarted r \<longrightarrow> s_restarted r')"

lemma workflow_never_pending_again:
  "moves_star workflow_transitions s WfPending \<Longrightarrow> s = WfPending"
proof (induction rule: converse_rtranclp_induct)
  case (step y z)
  then show ?case by (cases y) (auto simp: moves_def succs_def)
qed simp

interpretation workflow_rows: row_evolution w_id workflow_adv "\<lambda>_. False"
proof unfold_locales
  fix a b c :: workflow_row
  show "workflow_adv a a" by (simp add: workflow_adv_def)
  assume ab: "workflow_adv a b" and bc: "workflow_adv b c"
  have "w_state a \<noteq> WfPending \<Longrightarrow> w_state b \<noteq> WfPending"
    using ab workflow_never_pending_again by (metis workflow_adv_def)
  then show "workflow_adv a c"
    using ab bc by (cases a; cases b; cases c) (auto simp: workflow_adv_def intro: rtranclp_trans)
qed simp

interpretation step_rows: row_evolution s_id step_adv "\<lambda>_. False"
proof unfold_locales
  fix a b c :: step_row
  show "step_adv a a" by (simp add: step_adv_def)
  show "step_adv a b \<Longrightarrow> step_adv b c \<Longrightarrow> step_adv a c"
    by (cases a; cases b; cases c) (auto simp: step_adv_def)
qed simp

lemma workflow_columns_adv:
  assumes "workflow_valid_next_state (w_state r) s = Inr ()"
  shows "workflow_adv r (workflow_columns (w_state r) s t r\<lparr>w_updated := now\<rparr>)"
proof -
  have "moves workflow_transitions (w_state r) s"
    using assms by (simp add: workflow_machine.valid_cases split: if_splits)
  then show ?thesis
    by (cases r; cases s) (auto simp: workflow_adv_def workflow_columns_def r_into_rtranclp)
qed

lemma step_columns_adv:
  assumes "step_valid_next_state (s_state r) s = Inr ()"
  shows "step_adv r (step_columns s t r\<lparr>s_updated := now\<rparr>)"
proof -
  have "moves step_transitions (s_state r) s"
    using assms by (simp add: step_machine.valid_cases split: if_splits)
  then show ?thesis
    by (cases r; cases s) (auto simp: step_adv_def step_columns_def r_into_rtranclp)
qed

text \<open>The checks of a group of steps: no effect, and all of them passed on success.\<close>

lemma for_each_check_ok:
  "for_each rows (\<lambda>r. check_move (step_valid_next_state (s_state r) s)) w = (x, w') \<Longrightarrow>
    w' = w \<and> (\<forall>u. x = Inr u \<longrightarrow> (\<forall>r \<in> set rows. step_valid_next_state (s_state r) s = Inr ()))"
  by (induction rows arbitrary: x)
    (auto simp: check_move_def bnd_def split: sum.splits prod.splits)

section \<open>Reads\<close>

context log_evolution
begin

lemma ev_get_workflow: "evolves W (get_workflow i)"
  unfolding get_workflow_def by (rule ev_fetch_one)

lemma ev_get_workflow_step: "evolves W (get_workflow_step i)"
  unfolding get_workflow_step_def by (rule ev_fetch_one)

lemma ev_lift_result: "evolves W (lift_result r)"
  unfolding lift_result_def by (intro ev_store)

lemma ev_list_workflow_steps: "evolves W (list_workflow_steps i)"
  unfolding list_workflow_steps_def by (intro ev_store ev_lift_result)

lemma ev_list_workflows: "evolves W (list_workflows f)"
  unfolding list_workflows_def by (intro ev_store)

lemma ev_ready_to_run: "evolves W (list_workflow_steps_ready_to_run i)"
  unfolding list_workflow_steps_ready_to_run_def by (intro ev_store)

lemma ev_step_and_task: "evolves W (get_workflow_step_and_executor_task i b)"
  unfolding get_workflow_step_and_executor_task_def by (intro ev_get_workflow_step ev_store)

lemma ev_step_by_task: "evolves W (get_workflow_step_processed_by_task t)"
  unfolding get_workflow_step_processed_by_task_def by (rule ev_fetch_one)

lemmas ev_workflow_reads = ev_get_workflow ev_get_workflow_step ev_list_workflow_steps
  ev_list_workflows ev_ready_to_run ev_step_and_task ev_step_by_task

end

section \<open>Relations that admit the writes of the workflow store\<close>

locale workflow_evolution = client_evolution D for D :: "tables \<Rightarrow> tables \<Rightarrow> bool" +
  assumes workflow_writes: "rows_evolve w_id workflow_adv (\<lambda>_. False) (workflows d) (workflows d') \<Longrightarrow>
      rows_evolve s_id step_adv (\<lambda>_. False) (steps d) (steps d') \<Longrightarrow>
      deps d' = deps d \<Longrightarrow> tasks d' = tasks d \<Longrightarrow> execs d' = execs d \<Longrightarrow>
      (\<exists>ls. links d' = links d @ ls) \<Longrightarrow> D d d'"
begin

lemma D_workflows: "rows_evolve w_id workflow_adv (\<lambda>_. False) (workflows d) ws \<Longrightarrow> D d (d\<lparr>workflows := ws\<rparr>)"
  by (rule workflow_writes) (simp_all add: step_rows.rows_refl)

lemma D_steps: "rows_evolve s_id step_adv (\<lambda>_. False) (steps d) ss \<Longrightarrow> D d (d\<lparr>steps := ss\<rparr>)"
  by (rule workflow_writes) (simp_all add: workflow_rows.rows_refl)

lemma D_links: "D d (d\<lparr>links := links d @ ls\<rparr>)"
  by (rule workflow_writes) (simp_all add: workflow_rows.rows_refl step_rows.rows_refl)

lemma ev_link: "evolves W (link_workflow_step_with_executor_task s t)"
  unfolding link_workflow_step_with_executor_task_def by (intro ev_store ev_insert_if D_links)

lemma ev_update_workflow_deadline: "evolves W (update_workflow_deadline i t)"
  unfolding update_workflow_deadline_def
  by (intro ev_get_workflow ev_define_new_system_event ev_store ev_change D_workflows D_steps
      workflow_rows.rows_update step_rows.rows_update)
    (auto simp: workflow_adv_def step_adv_def)

lemma ev_update_workflow_state: "evolves W (update_workflow_state i s t)"
  unfolding evolves_def update_workflow_state_def get_workflow_def
proof (intro allI at_fetch)
  fix w w' :: world and r
  assume row: "find_row w_id i (workflows (db w)) = Some r" and same: "db w' = db w"
  let ?ev = "\<lambda>_. case workflow_event s of None \<Rightarrow> ret ()
      | Some ty \<Rightarrow> bnd (wrap SQLError (define_new_system_event ty (WorkflowEvents i (w_creator r)))) (\<lambda>_. ret ())"
  show "W w' (snd (bnd (check_move (workflow_valid_next_state (w_state r) s)) (\<lambda>_.
      bnd time_now (\<lambda>now. bnd (wrap SQLError (change (set_workflow_state i (w_state r) s t now))) ?ev)) w'))"
  proof (cases "workflow_valid_next_state (w_state r) s")
    case (Inl e)
    then show ?thesis by (simp add: check_move_def W_def D_refl)
  next
    case (Inr u)
    then have adv: "workflow_adv r (workflow_columns (w_state r) s t r\<lparr>w_updated := now\<rparr>)" for now
      by (intro workflow_columns_adv) simp
    have key: "w_id (workflow_columns old s t x) = w_id x" for old x
      by (cases s) (simp_all add: workflow_columns_def)
    have "D (db w) (set_workflow_state i (w_state r) s t now (db w))" for now
      unfolding set_workflow_state_def
      by (intro D_workflows workflow_rows.rows_update) (use row adv find_row_Some [OF row] key in auto)
    moreover have "evolves W (?ev a)" for a
      by (intro ev_store ev_define_new_system_event)
    ultimately have "W w' (snd (bnd time_now (\<lambda>now.
        bnd (wrap SQLError (change (set_workflow_state i (w_state r) s t now))) ?ev) w'))"
      by (intro at_time at_bnd at_change) (simp_all add: same)
    then show ?thesis using Inr by (simp add: check_move_def)
  qed
qed

lemma ev_update_workflow_step_state: "evolves W (update_workflow_step_state wid ids s t)"
proof (rule evolvesI)
  fix w r w'
  assume run: "update_workflow_step_state wid ids s t w = (r, w')"
  have "W w (snd (update_workflow_step_state wid ids s t w))"
    unfolding update_workflow_step_state_def Let_def
  proof (rule at_read, goal_cases)
    case (1 x w1)
    then show ?case
      by (auto simp: select_all_def sql_def Let_def wrap_def split: if_splits prod.splits sum.splits)
  next
    case (2 rows w1)
    then have rows: "rows = filter (\<lambda>r. s_id r \<in> set (remdups ids) \<and> s_workflow r = wid) (steps (db w1))"
      by (auto simp: select_all_def sql_def Let_def wrap_def split: if_splits prod.splits sum.splits)
    let ?upd = "bnd (do_if (remdups ids \<noteq> []) (bnd time_now (\<lambda>now.
          wrap SQLError (change (set_step_states wid (remdups ids) s t now))))) (\<lambda>_.
        for_each rows (\<lambda>r. bnd (wrap SQLError (define_new_system_event (step_event s)
            (StepEvents (s_id r) (s_workflow r) (s_creator r)))) (\<lambda>_. ret ())))"
    have upd: "W w1 (snd (?upd w1))" if ok: "\<forall>r \<in> set rows. step_valid_next_state (s_state r) s = Inr ()"
    proof (rule at_bnd)
      have key: "s_id (step_columns s t x) = s_id x" for x
        by (cases s) (simp_all add: step_columns_def)
      have "D (db w1) (set_step_states wid (remdups ids) s t now (db w1))" for now
        unfolding set_step_states_def
        by (intro D_steps step_rows.rows_update)
          (use key ok rows in \<open>auto intro!: step_columns_adv dest: find_row_Some\<close>)
      then have "W w1 (snd (bnd time_now (\<lambda>now.
          wrap SQLError (change (set_step_states wid (remdups ids) s t now))) w1))"
        by (intro at_time at_change) simp
      then show "W w1 (snd (do_if (remdups ids \<noteq> []) (bnd time_now (\<lambda>now.
          wrap SQLError (change (set_step_states wid (remdups ids) s t now)))) w1))"
        by (cases "ids = []") (simp_all add: W_def D_refl)
    qed (intro ev_store ev_define_new_system_event)
    show ?case
    proof (cases "length rows \<noteq> length (remdups ids)")
      case False
      moreover obtain y w2 where chk:
        "for_each rows (\<lambda>r. check_move (step_valid_next_state (s_state r) s)) w1 = (y, w2)"
        by (rule prod.exhaust)
      ultimately show ?thesis
        using for_each_check_ok [OF chk] upd by (cases y) (simp_all add: W_def D_refl)
    qed (simp add: W_def D_refl)
  qed
  then show "W w w'" using run by simp
qed

lemmas ev_workflow_store = ev_link ev_update_workflow_deadline ev_update_workflow_state
  ev_update_workflow_step_state ev_workflow_reads new_task_admitted ev_client ev_log

lemma ev_fan_out: "evolves W (fan_out i t)"
  unfolding fan_out_def mark_step_defs by (intro ev_workflow_store)

lemma ev_settle: "evolves W (settle_workflow_if_done w t)"
  unfolding settle_workflow_if_done_def mark_workflow_defs by (intro ev_workflow_store)

lemma ev_revive_steps: "evolves W (revive_steps i d t)"
  unfolding revive_steps_def Let_def mark_workflow_defs mark_step_defs by (intro ev_workflow_store)

lemma ev_live_tasks_of: "evolves W (live_tasks_of_running rows)"
  unfolding live_tasks_of_running_def by (intro ev_workflow_store)

lemma ev_schedule_transaction: "evolves W (schedule_transaction c i t)"
  unfolding schedule_transaction_def time_out_workflow_steps_def dispatch_step_def Let_def
    mark_workflow_defs mark_step_defs
  by (intro ev_live_tasks_of ev_workflow_store)

end

section \<open>The scheduler over its critical sections\<close>

text \<open>
  What the handlers rely on: the parts of their transactions that read something and act on it, and
  the state changes that need no check of their own. Only successful runs matter, since an error
  rolls the transaction back.
\<close>

locale workflow_sections = client_evolution D for D :: "tables \<Rightarrow> tables \<Rightarrow> bool" +
  assumes section_workflow: "s \<notin> {WfComplete, WfCancelled} \<Longrightarrow> evolves_ok W (update_workflow_state i s t)"
    and section_steps: "new \<notin> {StepDefined, StepPending} \<Longrightarrow>
      evolves_ok W (update_workflow_step_state i ids new t)"
    and section_fan_out: "evolves_ok W (fan_out i t)"
    and section_settle: "evolves_ok W (settle_workflow_if_done w t)"
    and section_revive: "evolves_ok W (revive_steps i d t)"
    and section_schedule: "evolves_ok W (schedule_transaction c i t)"
begin

lemmas ev_reads = ev_workflow_reads ev_client ev_log

lemmas ok_reads = ok_ev [OF ev_get_workflow] ok_ev [OF ev_get_workflow_step]
  ok_ev [OF ev_list_workflow_steps] ok_ev [OF ev_step_and_task] ok_rules

lemma ok_mark_workflow:
  "evolves_ok W (mark_workflow_running i t)" "evolves_ok W (mark_workflow_failed i t)"
  "evolves_ok W (mark_workflow_timed_out i t)" "evolves_ok W (mark_workflow_cancelling i t)"
  by (simp_all add: mark_workflow_defs section_workflow)

lemma ok_mark_step:
  "evolves_ok W (mark_workflow_step_complete i is t)" "evolves_ok W (mark_workflow_step_failed i is t)"
  "evolves_ok W (mark_workflow_step_timed_out i is t)"
  "evolves_ok W (mark_workflow_step_cancelling i is t)"
  "evolves_ok W (mark_workflow_step_cancelled i is t)"
  by (simp_all add: mark_step_defs section_steps)

lemmas ok_sections = ok_mark_workflow ok_mark_step section_fan_out section_settle section_revive
  section_schedule ok_reads

lemma ev_poke: "evolves W (poke c f)"
  unfolding poke_def by (intro ev_reads)

lemma ev_request_cancels: "evolves W (request_cancels c ts)"
  unfolding request_cancels_def by (intro ev_reads)

lemma ev_process_workflow: "evolves W (process_workflow c i)"
  unfolding process_workflow_def
  by (intro ev_time_now ev_bnd ev_wrap ok_in_txn ev_for_each ev_poke) (intro ok_sections)

lemma ev_live_tasks: "evolves W (live_tasks_of_running rows)"
  unfolding live_tasks_of_running_def by (intro ev_reads)

lemma ok_time_out: "evolves_ok W (time_out_workflow_steps w t)"
  unfolding time_out_workflow_steps_def Let_def by (intro ok_ev [OF ev_live_tasks] ok_sections)

lemma ev_schedule_step: "evolves W (schedule_workflow_step c i)"
  unfolding schedule_workflow_step_def
  by (intro ok_in_txn section_schedule ev_request_cancels ev_reads)

lemma ok_apply_outcome: "evolves_ok W (apply_outcome w i s t)"
  unfolding apply_outcome_def by (cases s) (simp; intro ok_time_out ok_sections)+

lemma ev_step_update: "evolves W (apply_step_execution_update c i s)"
  unfolding apply_step_execution_update_def
  by (intro ev_time_now ev_bnd ev_if ev_throw ev_wrap ok_in_txn ev_case_prod ev_case_option ev_ret
      ev_do_if ev_poke ev_request_cancels)
    (intro ok_apply_outcome ok_sections)

lemma ev_step_task_update: "evolves W (apply_step_task_update c t s)"
proof (rule evolvesI)
  fix w r w'
  assume run: "apply_step_task_update c t s w = (r, w')"
  obtain x w1 where look: "in_txn (wrap PersistenceError (get_workflow_step_processed_by_task t)) w = (x, w1)"
    by (rule prod.exhaust)
  have "evolves W (in_txn (wrap PersistenceError (get_workflow_step_processed_by_task t)))"
    by (intro ev_reads)
  then have first: "W w w1" using look by (auto simp: evolves_def dest!: spec [of _ w])
  show "W w w'"
  proof (cases x)
    case (Inl e)
    then show ?thesis using run look first by (auto simp: apply_step_task_update_def split: if_splits)
  next
    case (Inr row)
    then have "apply_step_execution_update c (s_id row) s w1 = (r, w')"
      using run look by (simp add: apply_step_task_update_def)
    then have "W w1 w'" by (metis evolves_def ev_step_update snd_conv)
    with first show ?thesis by (rule R_trans)
  qed
qed

lemma ev_cancel_workflow: "evolves W (cancel_workflow c i)"
  unfolding cancel_workflow_def Let_def
  by (intro ev_time_now ev_bnd ev_wrap ok_in_txn ev_request_cancels)
    (intro ok_ev [OF ev_live_tasks] ok_sections)

lemma ev_revive: "evolves W (revive_workflow c i d)"
  unfolding revive_workflow_def
  by (intro ev_time_now ev_bnd ev_wrap ok_in_txn ev_case_option ev_ret ev_poke) (intro ok_sections)

lemma ev_classify: "evolves W (classify_running_step s)" "evolves W (classify_cancelling_step s)"
  unfolding classify_running_step_def classify_cancelling_step_def Let_def by (intro ev_reads)+

lemma ev_reconcile_steps: "evolves W (reconcile_steps ss r)"
proof (induction ss r rule: reconcile_steps.induct)
  case (1 r)
  show ?case unfolding reconcile_steps.simps by (rule ev_ret)
next
  case (2 s ss r)
  then show ?case
    by (cases "s_state s") (simp_all, (intro ev_classify ev_bnd ev_case_prod; simp)+)
qed

lemma ev_reconcile: "evolves W (reconcile_workflow c i)"
  unfolding reconcile_workflow_def
  by (intro ev_time_now ev_bnd ev_wrap ok_in_txn ev_for_each ev_case_prod ev_do_if ev_poke
      ev_request_cancels)
    (intro ok_time_out ok_ev [OF ev_reconcile_steps] ok_sections)

lemma ev_sweep: "evolves W (run_maintenance_sweep c)"
  unfolding run_maintenance_sweep_def by (intro ev_reconcile ev_reads)

lemma ev_on_notification: "evolves W (on_notification c ty subject)"
  unfolding on_notification_def by (intro ev_poke ev_reads)

lemma ev_handled: "evolves W h \<Longrightarrow> evolves W (handled h)"
  unfolding handled_def by (intro ev_reads)

lemma ev_workflow_dispatch: "workflow_dispatch c m = Inr h \<Longrightarrow> evolves W h"
  by (cases "(c, m)" rule: workflow_dispatch.cases)
    (auto split: ipc_type.splits intro: ev_handled ev_process_workflow ev_cancel_workflow
      ev_schedule_step ev_step_update ev_step_task_update ev_revive ev_sweep)

lemma ev_run_workflow_handler:
  assumes "evolves W h"
  shows "evolves W (run_workflow_handler c raw h)"
proof (rule evolvesI)
  fix w r w'
  assume run: "run_workflow_handler c raw h w = (r, w')"
  obtain x w1 where h: "h w = (x, w1)" by (cases "h w")
  have del: "W w1 (snd (logged (delete_buffered (ws_queue c)) w1))"
    using ev_logged [OF ev_delete_buffered [of "ws_queue c"]] by (simp add: evolves_def)
  have "W w1 w'"
    using run h del evolvesD [OF ev_record_and_drop]
    by (auto simp: run_workflow_handler_def split: sum.splits option.splits)
  then show "W w w'" by (rule R_trans [OF evolvesD [OF assms h]])
qed

lemma ev_workflow_request: "evolves W (process_one_workflow_request c msg)"
proof (cases msg)
  case (Payload j)
  have "evolves W (case workflow_dispatch c m of
      Inl reason \<Rightarrow> record_and_drop_invalid_message ws_name (ws_queue c) raw reason
    | Inr h \<Rightarrow> run_workflow_handler c raw h)" for m raw
    by (auto split: sum.split intro: ev_record_and_drop ev_run_workflow_handler ev_workflow_dispatch)
  then show ?thesis
    unfolding Payload process_one_workflow_request_def received.case
    by (cases "parse_ipc_message j") (auto intro!: ev_bnd ev_gets ev_record_and_drop)
qed (simp_all add: process_one_workflow_request_def ev_throw ev_ret ev_record_and_drop)

lemma ev_workflow_queue: "W w (snd (process_workflow_queue c msgs w))"
proof (induction c msgs w rule: process_workflow_queue.induct)
  case (1 c w)
  then show ?case by (simp add: R_refl)
next
  case (2 c msg rest w)
  obtain x w1 where run: "process_one_workflow_request c msg w = (x, w1)"
    by (cases "process_one_workflow_request c msg w")
  have "W w w1" by (rule evolvesD [OF ev_workflow_request run])
  then show ?case using 2 run by (auto split: sum.splits intro: R_trans)
qed

end

sublocale workflow_evolution \<subseteq> workflow_sections D
  by unfold_locales (simp_all add: ok_ev ev_update_workflow_state ev_update_workflow_step_state
      ev_fan_out ev_settle ev_revive_steps ev_schedule_transaction)

section \<open>The evolution of all tables\<close>

definition lifecycle :: "tables \<Rightarrow> tables \<Rightarrow> bool" where
  "lifecycle d d' \<longleftrightarrow>
     rows_evolve t_id task_adv task_row_valid (tasks d) (tasks d') \<and>
     rows_evolve e_id exec_adv new_exec_ok (execs d) (execs d') \<and>
     rows_evolve w_id workflow_adv (\<lambda>_. False) (workflows d) (workflows d') \<and>
     rows_evolve s_id step_adv (\<lambda>_. False) (steps d) (steps d') \<and>
     deps d' = deps d \<and> (\<exists>ls. links d' = links d @ ls)"

interpretation life: task_evolution lifecycle
proof unfold_locales
  fix a b c :: tables
  show "lifecycle a a"
    by (simp add: lifecycle_def task_rows.rows_refl exec_rows.rows_refl workflow_rows.rows_refl
        step_rows.rows_refl)
  show "lifecycle a b \<Longrightarrow> lifecycle b c \<Longrightarrow> lifecycle a c"
    unfolding lifecycle_def
    by (auto intro: task_rows.rows_trans exec_rows.rows_trans workflow_rows.rows_trans
        step_rows.rows_trans)
qed (auto simp: lifecycle_def same_workflow_tables_def task_rows.rows_refl exec_rows.rows_refl
    workflow_rows.rows_refl step_rows.rows_refl)

interpretation life: workflow_evolution lifecycle
  by unfold_locales (auto simp: lifecycle_def task_rows.rows_refl exec_rows.rows_refl)

text \<open>C1. Whatever the workflow scheduler reads from its queue and whatever statement, commit or
  send fails, a run of it moves every workflow, step, task and execution instance along its state
  machine only; it never creates or deletes a workflow or a step, never touches a dependency edge,
  and only ever adds links between steps and tasks.\<close>

theorem workflow_scheduler_evolves:
  "lifecycle (db w) (db (snd (process_workflow_queue c msgs w)))"
  using life.ev_workflow_queue [of w c msgs] by (simp add: life.W_def)

end
