(* ===== verification/Workflow_Outcomes.thy ===== *)
theory Workflow_Outcomes
  imports Workflow_Evolution
begin

text \<open>
  What a successful call of \<open>db/workflow.go\<close> has done to the tables, in the form in which the
  properties of the workflow scheduler use it.
\<close>

section \<open>Calls that at most write events\<close>

interpretation quiet: log_evolution "\<lambda>d d'. d' = d\<lparr>events := events d'\<rparr>"
proof unfold_locales
  fix a b c :: tables
  assume "b = a\<lparr>events := events b\<rparr>" "c = b\<lparr>events := events c\<rparr>"
  then show "c = a\<lparr>events := events c\<rparr>" by (cases a; cases b; cases c) simp
qed simp_all

lemma quietD:
  assumes "evolves quiet.W p" "p w = (r, w')"
  shows "tasks (db w') = tasks (db w)" "execs (db w') = execs (db w)" "workflows (db w') = workflows (db w)"
    "steps (db w') = steps (db w)" "deps (db w') = deps (db w)" "links (db w') = links (db w)"
proof -
  have "db w' = (db w)\<lparr>events := events (db w')\<rparr>"
    using evolvesD [OF assms] by (simp add: quiet.W_def)
  then obtain vs where "db w' = (db w)\<lparr>events := vs\<rparr>" by blast
  then show "tasks (db w') = tasks (db w)" "execs (db w') = execs (db w)" "workflows (db w') = workflows (db w)"
    "steps (db w') = steps (db w)" "deps (db w') = deps (db w)" "links (db w') = links (db w)" by simp_all
qed

definition only_workflows :: "tables \<Rightarrow> tables \<Rightarrow> bool" where
  "only_workflows d d' \<longleftrightarrow> tasks d' = tasks d \<and> execs d' = execs d \<and> steps d' = steps d \<and>
     deps d' = deps d \<and> links d' = links d"

definition only_steps :: "tables \<Rightarrow> tables \<Rightarrow> bool" where
  "only_steps d d' \<longleftrightarrow> tasks d' = tasks d \<and> execs d' = execs d \<and> workflows d' = workflows d \<and>
     deps d' = deps d \<and> links d' = links d"

section \<open>Reads\<close>

lemma get_workflow_ok:
  "get_workflow i w = (Inr x, w') \<Longrightarrow> find_row w_id i (workflows (db w)) = Some x \<and> db w' = db w"
  by (auto simp: get_workflow_def dest!: fetch_one_ok)

lemma get_workflow_step_ok:
  "get_workflow_step i w = (Inr x, w') \<Longrightarrow> find_row s_id i (steps (db w)) = Some x \<and> db w' = db w"
  by (auto simp: get_workflow_step_def dest!: fetch_one_ok)

lemma list_workflow_steps_ok:
  "list_workflow_steps i w = (Inr rows, w') \<Longrightarrow>
     topo_sort_steps (steps_of i (db w)) = Inr rows \<and> db w' = db w"
  by (cases "topo_sort_steps (steps_of i (db w))")
    (auto simp: list_workflow_steps_def lift_result_def monad_results dest!: select_all_ok)

lemma ready_ok:
  "list_workflow_steps_ready_to_run i w = (Inr rows, w') \<Longrightarrow>
     rows = filter (ready_to_run (db w)) (steps_of i (db w)) \<and> db w' = db w"
  by (auto simp: list_workflow_steps_ready_to_run_def monad_results dest!: select_all_ok)

lemma step_and_task_ok:
  "get_workflow_step_and_executor_task i b w = (Inr (s, ts), w') \<Longrightarrow>
     find_row s_id i (steps (db w)) = Some s \<and> db w' = db w \<and>
     ts = filter (\<lambda>t. b \<longrightarrow> t_state t \<in> {TaskPending, TaskActive}) (tasks_of_step (db w) i)"
  by (auto simp: get_workflow_step_and_executor_task_def monad_results
      dest!: select_all_ok get_workflow_step_ok)

lemma live_tasks_ok: "live_tasks_of_running rows w = (Inr ts, w') \<Longrightarrow> db w' = db w"
proof -
  assume run: "live_tasks_of_running rows w = (Inr ts, w')"
  have "evolves unchanged.W (live_tasks_of_running rows)"
    unfolding live_tasks_of_running_def get_workflow_step_and_executor_task_def get_workflow_step_def
    by (intro unchanged.ev_store)
  from evolvesD [OF this run] show ?thesis by (simp add: unchanged.W_def)
qed

section \<open>Writes\<close>

lemma update_workflow_state_ok:
  assumes "update_workflow_state i s t w = (Inr x, w')"
  shows "\<exists>r now. find_row w_id i (workflows (db w)) = Some r \<and> moves workflow_transitions (w_state r) s \<and>
    workflows (db w') = workflows (set_workflow_state i (w_state r) s t now (db w)) \<and>
    only_workflows (db w) (db w')"
proof -
  obtain r w1 u w2 now w3 v w4 where r: "find_row w_id i (workflows (db w)) = Some r" "db w1 = db w"
    and chk: "check_move (workflow_valid_next_state (w_state r) s) w1 = (Inr u, w2)"
    and now: "time_now w2 = (Inr now, w3)"
    and chg: "change (set_workflow_state i (w_state r) s t now) w3 = (Inr v, w4)"
    and ev: "(case workflow_event s of None \<Rightarrow> ret ()
     | Some ty \<Rightarrow> bnd (wrap SQLError (define_new_system_event ty (WorkflowEvents i (w_creator r)))) (\<lambda>_. ret ()))
       w4 = (Inr x, w')"
    using assms by (auto simp: update_workflow_state_def monad_results dest!: get_workflow_ok)
  have "evolves quiet.W (case workflow_event s of None \<Rightarrow> ret ()
     | Some ty \<Rightarrow> bnd (wrap SQLError (define_new_system_event ty (WorkflowEvents i (w_creator r)))) (\<lambda>_. ret ()))"
    by (intro quiet.ev_log)
  note same = quietD [OF this ev]
  have "moves workflow_transitions (w_state r) s"
    using check_move_ok [OF chk] by (auto simp: workflow_machine.valid_cases split: if_splits)
  moreover have "db w4 = set_workflow_state i (w_state r) s t now (db w)"
    using check_move_ok [OF chk] time_now_ok [OF now] change_ok [OF chg] r(2) by simp
  ultimately show ?thesis
    using r(1) same
    by (intro exI [of _ r] exI [of _ now]) (simp add: only_workflows_def set_workflow_state_def)
qed

lemma update_workflow_step_state_ok:
  assumes "update_workflow_step_state wid ids s t w = (Inr x, w')"
  shows "\<exists>now. (\<forall>r \<in> set (steps (db w)). s_id r \<in> set ids \<and> s_workflow r = wid \<longrightarrow>
      moves step_transitions (s_state r) s) \<and>
    length (filter (\<lambda>r. s_id r \<in> set ids \<and> s_workflow r = wid) (steps (db w))) = card (set ids) \<and>
    steps (db w') = steps (set_step_states wid ids s t now (db w)) \<and> only_steps (db w) (db w')"
proof -
  let ?match = "\<lambda>r. s_id r \<in> set ids \<and> s_workflow r = wid"
  let ?rows = "filter ?match (steps (db w))"
  let ?upd = "do_if (remdups ids \<noteq> []) (bnd time_now (\<lambda>now.
          wrap SQLError (change (set_step_states wid (remdups ids) s t now))))"
  let ?ev = "for_each ?rows (\<lambda>r. bnd (wrap SQLError (define_new_system_event (step_event s)
            (StepEvents (s_id r) (s_workflow r) (s_creator r)))) (\<lambda>_. ret ()))"
  obtain w1 w2 w3 where w1: "db w1 = db w" and len: "length ?rows = length (remdups ids)"
    and chk: "for_each ?rows (\<lambda>r. check_move (step_valid_next_state (s_state r) s)) w1 = (Inr (), w2)"
    and upd: "?upd w2 = (Inr (), w3)" and ev: "?ev w3 = (Inr x, w')"
    using assms
    by (auto simp: update_workflow_step_state_def Let_def monad_results split: if_splits
        dest!: select_all_ok)
  have ok: "\<forall>r \<in> set ?rows. moves step_transitions (s_state r) s" and w2: "w2 = w1"
    using for_each_check_ok [OF chk] by (auto simp: step_machine.valid_cases split: if_splits)
  obtain now where d: "db w3 = set_step_states wid ids s t now (db w)"
  proof (cases "ids = []")
    case True
    then have "db w3 = set_step_states wid ids s t 0 (db w)"
      using upd w1 w2 by (simp add: set_step_states_def update_rows_def)
    then show ?thesis by (rule that)
  next
    case False
    then show ?thesis
      using upd w1 w2 that
      by (auto simp: monad_results set_step_states_def dest!: change_ok time_now_ok)
  qed
  have "evolves quiet.W ?ev" by (intro quiet.ev_log)
  note same = quietD [OF this ev]
  have "length ?rows = card (set ids)" using len by (metis length_remdups_card_conv)
  then show ?thesis
    using ok d same
    by (intro exI [of _ now]) (simp add: only_steps_def set_step_states_def)
qed

lemma update_workflow_deadline_ok:
  assumes "update_workflow_deadline i t w = (Inr x, w')"
  shows "workflows (db w') = update_rows (\<lambda>r. w_id r = i) (\<lambda>r. r\<lparr>w_deadline := t\<rparr>) (workflows (db w)) \<and>
    steps (db w') = update_rows (\<lambda>r. s_workflow r = i \<and> s_state r \<notin> {StepComplete, StepCancelled})
      (\<lambda>r. r\<lparr>s_deadline := t\<rparr>) (steps (db w)) \<and>
    tasks (db w') = tasks (db w) \<and> execs (db w') = execs (db w) \<and> deps (db w') = deps (db w) \<and>
    links (db w') = links (db w)"
  using assms
  by (auto simp: update_workflow_deadline_def monad_results
      dest!: get_workflow_ok change_ok define_new_system_event_ok)

lemma link_ok:
  "link_workflow_step_with_executor_task s t w = (Inr x, w') \<Longrightarrow>
     s \<in> s_id ` set (steps (db w)) \<and> t \<in> t_id ` set (tasks (db w)) \<and>
     (\<exists>now. db w' = (db w)\<lparr>links := links (db w) @ [\<lparr>l_step = s, l_task = t, l_created = now, l_updated = now\<rparr>]\<rparr>)"
  by (auto simp: link_workflow_step_with_executor_task_def monad_results dest!: insert_if_ok time_now_ok)

lemma define_task_ok:
  assumes "define_task c target p w = (Inr t, w')"
  shows "t_id t \<notin> t_id ` set (tasks (db w)) \<and> t_state t = TaskPending \<and>
    db w' = (db w)\<lparr>tasks := tasks (db w) @ [t]\<rparr>"
  using assms
  by (auto simp: define_task_def insert_task_def monad_results Let_def new_task_row_def
      split: if_splits dest!: ulid_make_ok time_now_ok insert_if_ok)

end
