(* ===== verification/Workflow_Steps.thy ===== *)
theory Workflow_Steps
  imports Workflow_Outcomes "HOL-Library.Multiset"
begin

text \<open>
  \<open>ListWorkflowSteps\<close> returns a topological order exactly when the recorded parents form a DAG, and
  \<open>updateWorkflowStepState\<close> moves a group of steps all or none.
\<close>

section \<open>The level-by-level sort\<close>

lemma dec_children_append:
  "dec_children cs d (a @ q) = (case dec_children cs d q of (d', q') \<Rightarrow> (d', a @ q'))"
proof (induction cs arbitrary: d q)
  case (Cons c cs)
  show ?case using Cons [of "(c, deg d c - 1) # d" "if deg d c = 1 then q @ [c] else q"]
    by (auto simp: Let_def split: prod.splits)
qed simp

lemma run_level_kahn:
  assumes "graph_ok nodes par ch" "kahn_inv nodes par p (ss @ nxt) d" "run_level ch d ss nxt = (d', nxt')"
  shows "kahn_inv nodes par (p @ ss) nxt' d'"
  using assms(2,3)
proof (induction ss arbitrary: p nxt d)
  case (Cons s ss)
  obtain d1 n1 where one: "dec_children (ch s) d nxt = (d1, n1)" by (rule prod.exhaust)
  then have "dec_children (ch s) d (ss @ nxt) = (d1, ss @ n1)" by (simp add: dec_children_append)
  then have "kahn_inv nodes par (p @ [s]) (ss @ n1) d1"
    using kahn_inv_step [OF assms(1)] Cons.prems(1) by simp
  from Cons.IH [OF this] show ?case using one Cons.prems(2) by simp
qed simp

lemma levels_kahn:
  assumes "graph_ok nodes par ch" "kahn_inv nodes par p cur d"
  shows "\<exists>d'. kahn_inv nodes par (p @ levels ch d cur) [] d'"
  using assms
proof (induction ch d cur arbitrary: p rule: levels.induct)
  case (1 ch d)
  then show ?case by auto
next
  case (2 ch d c cs)
  obtain d1 n1 where one: "run_level ch d (sort (c # cs)) [] = (d1, n1)" by (rule prod.exhaust)
  have "kahn_inv nodes par p (sort (c # cs)) d"
    by (rule kahn_inv_perm [OF "2.prems"(2)])
      (use "2.prems"(2) in \<open>simp_all add: kahn_inv_def del: sort_key_simps\<close>)
  then have "kahn_inv nodes par p (sort (c # cs) @ []) d" by simp
  from run_level_kahn [OF "2.prems"(1) this one]
  have "kahn_inv nodes par (p @ sort (c # cs)) n1 d1" .
  from "2.IH" [OF refl one [symmetric] "2.prems"(1) this] show ?case
    using one by (simp add: Let_def del: sort_key_simps)
qed

section \<open>The rows as a graph\<close>

text \<open>What the store guarantees of the steps of one workflow: names are unique, the parents of a
  step are distinct steps of the same workflow.\<close>

definition step_rows_ok :: "step_row list \<Rightarrow> bool" where
  "step_rows_ok rows \<longleftrightarrow> distinct (map s_name rows) \<and>
     (\<forall>s \<in> set rows. distinct (s_parents s) \<and> set (s_parents s) \<subseteq> s_name ` set rows)"

definition row_parents :: "step_row list \<Rightarrow> string \<Rightarrow> string set" where
  "row_parents rows n = (case by_name rows n of None \<Rightarrow> {} | Some s \<Rightarrow> set (s_parents s))"

definition rows_acyclic :: "step_row list \<Rightarrow> bool" where
  "rows_acyclic rows \<longleftrightarrow> acyclic (dep_edges (s_name ` set rows) (row_parents rows))"

lemma by_name_row: "distinct (map s_name rows) \<Longrightarrow> s \<in> set rows \<Longrightarrow> by_name rows (s_name s) = Some s"
  unfolding by_name_def by (rule map_of_is_SomeI) (auto simp: comp_def rev_map [symmetric])

lemma by_name_SomeD: "by_name rows n = Some s \<Longrightarrow> s \<in> set rows \<and> s_name s = n"
  by (auto simp: by_name_def dest!: map_of_SomeD)

lemma map_filter_eq:
  "distinct ps \<Longrightarrow> map (\<lambda>_. n) (filter (\<lambda>q. q = p) ps) = (if p \<in> set ps then [n] else [])"
  by (induction ps) (auto simp: filter_empty_conv)

lemma children_of_rows:
  "\<forall>s \<in> set rows. distinct (s_parents s) \<Longrightarrow>
     children_of rows p = map s_name (filter (\<lambda>s. p \<in> set (s_parents s)) rows)"
  by (induction rows) (auto simp: children_of_def map_filter_eq)

lemma row_parents_row:
  "distinct (map s_name rows) \<Longrightarrow> s \<in> set rows \<Longrightarrow> row_parents rows (s_name s) = set (s_parents s)"
  by (simp add: row_parents_def by_name_row)

lemma rows_graph_ok:
  assumes "step_rows_ok rows"
  shows "graph_ok (s_name ` set rows) (row_parents rows) (children_of rows)"
proof -
  have d: "distinct (map s_name rows)" and p: "\<forall>s \<in> set rows. distinct (s_parents s)"
    using assms by (auto simp: step_rows_ok_def)
  have "set (children_of rows q) = {n \<in> s_name ` set rows. q \<in> row_parents rows n}" for q
    using row_parents_row [OF d] by (auto simp: children_of_rows [OF p])
  moreover have "row_parents rows n \<subseteq> s_name ` set rows" if "n \<in> s_name ` set rows" for n
    using that assms row_parents_row [OF d] by (auto simp: step_rows_ok_def) blast
  moreover have "distinct (children_of rows q)" for q
    using d by (simp add: children_of_rows [OF p] distinct_map_filter)
  ultimately show ?thesis by (simp add: graph_ok_def)
qed

lemma rows_start:
  assumes "step_rows_ok rows"
  shows "kahn_inv (s_name ` set rows) (row_parents rows) [] (root_names rows) (step_degrees rows)"
proof (rule kahn_inv_start)
  have d: "distinct (map s_name rows)" using assms by (simp add: step_rows_ok_def)
  note row = by_name_row [OF d]
  show "finite (s_name ` set rows)" by simp
  show "finite (row_parents rows n)" for n by (simp add: row_parents_def split: option.splits)
  show "deg (step_degrees rows) n = int (card (row_parents rows n))" if "n \<in> s_name ` set rows" for n
  proof -
    from that obtain s where s: "s \<in> set rows" "n = s_name s" by auto
    have "map_of (step_degrees rows) n = Some (int (length (s_parents s)))"
      unfolding step_degrees_def s(2)
      by (rule map_of_is_SomeI) (use d s in \<open>auto simp: comp_def rev_map [symmetric]\<close>)
    then show ?thesis
      using s row assms by (simp add: deg_def row_parents_def step_rows_ok_def distinct_card)
  qed
  show "distinct (root_names rows)" using d by (simp add: root_names_def distinct_map_filter)
  show "set (root_names rows) = {n \<in> s_name ` set rows. row_parents rows n = {}}"
    using row by (auto simp: root_names_def row_parents_def)
qed

text \<open>A listing that succeeds holds every step.\<close>

lemma levels_all:
  assumes "step_rows_ok rows"
    and "length (levels (children_of rows) (step_degrees rows) (root_names rows)) = length rows"
  shows "set (levels (children_of rows) (step_degrees rows) (root_names rows)) = s_name ` set rows"
proof -
  let ?nodes = "s_name ` set rows"
  obtain d' where inv: "kahn_inv ?nodes (row_parents rows)
      (levels (children_of rows) (step_degrees rows) (root_names rows)) [] d'"
    using levels_kahn [OF rows_graph_ok rows_start] assms(1) by fastforce
  have "card ?nodes = length rows"
    using assms(1) by (metis distinct_card length_map set_map step_rows_ok_def)
  then show ?thesis
    using kahn_end [OF rows_graph_ok [OF assms(1)] inv] kahn_end_acyclic [OF rows_graph_ok [OF assms(1)] inv]
      assms(2) by simp
qed

lemma topo_sort_set:
  assumes "step_rows_ok rows" "topo_sort_steps rows = Inr ss"
  shows "set ss = set rows"
proof -
  have "distinct (map s_name rows)" using assms(1) by (simp add: step_rows_ok_def)
  note row = by_name_row [OF this]
  have "ss = map (\<lambda>n. the (by_name rows n)) (levels (children_of rows) (step_degrees rows) (root_names rows))"
    and "length (levels (children_of rows) (step_degrees rows) (root_names rows)) = length rows"
    using assms(2) by (simp_all add: topo_sort_steps_def Let_def split: if_splits)
  then show ?thesis
    using levels_all [OF assms(1)] row by (auto simp: image_image)
qed

text \<open>C13. Listing the steps of a workflow succeeds exactly when their recorded parents form a DAG;
  the result holds each step once, and every step comes after all its parents.\<close>

theorem topo_sort_steps_correct:
  assumes "step_rows_ok rows"
  shows "case topo_sort_steps rows of
      Inl e \<Rightarrow> e = leaf ConsistencyError \<and> \<not> rows_acyclic rows
    | Inr ss \<Rightarrow> rows_acyclic rows \<and> mset ss = mset rows \<and>
        (\<forall>i < length ss. set (s_parents (ss ! i)) \<subseteq> s_name ` set (take i ss))"
proof -
  let ?names = "levels (children_of rows) (step_degrees rows) (root_names rows)"
  let ?nodes = "s_name ` set rows" and ?par = "row_parents rows"
  have d: "distinct (map s_name rows)" using assms by (simp add: step_rows_ok_def)
  have ok: "graph_ok ?nodes ?par (children_of rows)" by (rule rows_graph_ok [OF assms])
  obtain d' where inv: "kahn_inv ?nodes ?par ?names [] d'"
    using levels_kahn [OF ok rows_start [OF assms]] by auto
  have card: "card ?nodes = length rows" using d by (metis distinct_card length_map set_map)
  have iff: "length ?names = length rows \<longleftrightarrow> rows_acyclic rows"
    using kahn_end [OF ok inv] card by (simp add: rows_acyclic_def)
  show ?thesis
  proof (cases "rows_acyclic rows")
    case False
    then show ?thesis using iff by (simp add: topo_sort_steps_def)
  next
    case True
    let ?ss = "map (\<lambda>n. the (by_name rows n)) ?names"
    have names: "set ?names = ?nodes" "distinct ?names" and topo: "topo ?par ?names"
      using kahn_end_acyclic [OF ok inv] True inv by (auto simp: rows_acyclic_def kahn_inv_def)
    have found: "\<exists>s \<in> set rows. n = s_name s \<and> the (by_name rows n) = s" if "n \<in> set ?names" for n
      using that names by_name_row [OF d] by auto
    have again: "map s_name ?ss = ?names"
      using found by (auto simp: map_idI comp_def intro!: map_idI)
    have "distinct ?ss" using again names(2) by (metis distinct_map)
    moreover have "set ?ss = set rows"
      using names by_name_row [OF d] by (auto simp: image_image)
    moreover have "distinct rows" using d by (simp add: distinct_map)
    ultimately have "mset ?ss = mset rows"
      using set_eq_iff_mset_eq_distinct [of ?ss rows] by blast
    moreover have "set (s_parents (?ss ! i)) \<subseteq> s_name ` set (take i ?ss)" if i: "i < length ?ss" for i
    proof -
      have n: "?names ! i \<in> set ?names" using i by simp
      from found [OF n] obtain s where s: "s \<in> set rows" "?names ! i = s_name s"
        "the (by_name rows (?names ! i)) = s" by blast
      then have "?ss ! i = s" using i by simp
      then have "?par (?names ! i) = set (s_parents (?ss ! i))"
        using row_parents_row [OF d s(1)] s(2) by simp
      moreover have "s_name ` set (take i ?ss) = set (take i ?names)"
        using again by (metis set_map take_map)
      moreover have "?par (?names ! i) \<subseteq> set (take i ?names)" using topo i by (simp add: topo_def)
      ultimately show ?thesis by (simp only:)
    qed
    ultimately show ?thesis using True iff by (simp add: topo_sort_steps_def)
  qed
qed

definition sample_step_row :: "ident \<Rightarrow> string list \<Rightarrow> step_state \<Rightarrow> step_row" where
  "sample_step_row i ps s = \<lparr>s_id = i, s_name = i, s_workflow = ''w'', s_creator = ''c'', s_type = ''y'',
     s_state = s, s_restarted = False, s_parents = ps, s_params = JNull, s_meta = JNull,
     s_retry = default_retry, s_deadline = 5000, s_started = None, s_stopped = None, s_created = 0,
     s_updated = 0\<rparr>"

theorem topo_sort_steps_correct_witness:
  "let rows = [sample_step_row ''b'' [''a''] StepDefined, sample_step_row ''a'' [] StepDefined] in
   case topo_sort_steps rows of
      Inl e \<Rightarrow> e = leaf ConsistencyError \<and> \<not> rows_acyclic rows
    | Inr ss \<Rightarrow> rows_acyclic rows \<and> mset ss = mset rows \<and>
        (\<forall>i < length ss. set (s_parents (ss ! i)) \<subseteq> s_name ` set (take i ss))"
  unfolding Let_def
  by (rule topo_sort_steps_correct) (simp add: step_rows_ok_def sample_step_row_def)

end
