(* ===== verification/Task_Results.thy ===== *)
theory Task_Results
  imports Task_Handlers
begin

text \<open>
  What the handlers of the task scheduler achieve: the retry decision, the outcome of completions,
  failures, timeouts and cancellations, and the inputs on which a handler can never succeed.
\<close>

section \<open>Samples\<close>

definition sample_sched :: task_sched where
  "sample_sched = \<lparr>ts_queue = ''tasks'', ts_task_queue = (\<lambda>_. Some ''work''), ts_backoff = exact_backoff\<rparr>"

definition sample_task :: "task_state \<Rightarrow> task_row" where
  "sample_task s = \<lparr>t_id = ''t'', t_name = ''n'', t_creator = ''c'', t_class = ImmediateOneShot,
     t_state = s, t_params = JNull, t_meta = JNull, t_target = None, t_deadline = None,
     t_retry = default_retry, t_created = 0, t_updated = 0\<rparr>"

definition sample_exec :: "ident \<Rightarrow> exec_state \<Rightarrow> exec_state option \<Rightarrow> exec_row" where
  "sample_exec i s x = \<lparr>e_id = i, e_task = ''t'', e_class = ExecImmediate, e_state = s, e_terminal = x,
     e_terminated = None, e_execute_at = None, e_worker = None, e_parent = None, e_error = None,
     e_disposition = None, e_deadline = None, e_created = 0, e_updated = 0\<rparr>"

definition sample_tables :: "task_state \<Rightarrow> exec_row list \<Rightarrow> tables" where
  "sample_tables s es = no_tables\<lparr>tasks := [sample_task s], execs := es\<rparr>"

lemmas samples = sample_sched_def sample_task_def sample_exec_def sample_tables_def sample_world_def
  no_tables_def

lemma run_fst: "fst p = Inr () \<Longrightarrow> p = (Inr (), snd p)"
  by (cases p) simp

section \<open>The retry decision\<close>

lemma initial_delay_small:
  "valid_retry p \<Longrightarrow> initial_delay_sec p \<le> 9223372036 \<Longrightarrow> initial_delay p = second * initial_delay_sec p"
  unfolding initial_delay_def by (rule wrap64_id) (auto simp: valid_retry_def)

text \<open>What is relied on of the float expression: for a delay of at least one nanosecond and a factor of
  at least one it is at least one, or \<open>+Inf\<close>. Rounding to the nearest \<open>float64\<close> keeps this, and the
  exact expression has it.\<close>

definition growing :: "backoff \<Rightarrow> bool" where
  "growing b \<longleftrightarrow> (\<forall>d f r x. 1 \<le> d \<longrightarrow> 1 \<le> f \<longrightarrow> 0 \<le> r \<longrightarrow> b d f r = Some x \<longrightarrow> 1 \<le> x)"

lemma exact_growing: "growing exact_backoff"
  unfolding growing_def
proof (intro allI impI)
  fix d r :: int and f x :: rat
  assume d: "1 \<le> d" "1 \<le> f" "0 \<le> r" and x: "exact_backoff d f r = Some x"
  have "1 * 1 \<le> (of_int d :: rat) * f ^ nat r" using d by (intro mult_mono) simp_all
  then show "1 \<le> x" using x d(3) by (auto simp: exact_backoff_def)
qed

lemma infinite_growing: "growing (\<lambda>_ _ _. None)"
  by (simp add: growing_def)

lemma next_delay_positive:
  assumes "growing b" "valid_retry p" "initial_delay_sec p \<le> 9223372036" "r \<ge> 0"
    "max_retries p < 0 \<or> r < max_retries p"
  shows "next_delay b p r > 0"
proof -
  have "1 \<le> initial_delay p" "1 \<le> factor p"
    using initial_delay_small [OF assms(2,3)] assms(2) by (simp_all add: valid_retry_def)
  then have "1 \<le> x" if "b (initial_delay p) (factor p) r = Some x" for x
    using assms(1,4) that unfolding growing_def by blast
  moreover have "1 \<le> trunc x" if "1 \<le> x" for x using trunc_mono [OF that] by (simp add: trunc_def)
  ultimately show ?thesis
    using assms(5) delay_ceiling_pos [of p] by (fastforce simp: next_delay_def split: option.split)
qed

text \<open>C23. A failed execution is retried exactly when its failure was not marked non-retryable and
  the number of failures so far is at most the number of retries allowed (or that is unlimited);
  the delay is then positive and never above the smaller of the task's maximum and five minutes.
  The initial delay must fit a 64-bit nanosecond count; the
  back-off is any that meets \<open>growing\<close>, the one that overflows to \<open>+Inf\<close> included.\<close>

theorem retry_decision:
  assumes "growing b" "valid_retry p" "initial_delay_sec p \<le> 9223372036" "n \<ge> 1"
  shows "(snd (decide_execution_retry b e p n) \<longleftrightarrow>
      e_disposition e \<noteq> Some NonRetryable \<and> (max_retries p = -1 \<or> int n \<le> max_retries p)) \<and>
    fst (decide_execution_retry b e p n) \<le> delay_ceiling p"
proof -
  have "next_delay b p (int n - 1) > 0 \<longleftrightarrow> max_retries p = -1 \<or> int n \<le> max_retries p"
  proof
    assume "next_delay b p (int n - 1) > 0"
    then show "max_retries p = -1 \<or> int n \<le> max_retries p"
      using assms(2) by (auto simp: next_delay_def valid_retry_def split: if_splits)
  next
    assume "max_retries p = -1 \<or> int n \<le> max_retries p"
    then show "next_delay b p (int n - 1) > 0"
      using assms by (intro next_delay_positive) auto
  qed
  moreover have "0 \<le> delay_ceiling p" using delay_ceiling_pos [of p] by simp
  ultimately show ?thesis
    by (simp add: decide_execution_retry_def Let_def next_delay_le_ceiling)
qed

theorem retry_decision_witness:
  "snd (decide_execution_retry exact_backoff (sample_exec ''e'' ExecFailed (Some ExecFailed)) default_retry 5) \<and>
   snd (decide_execution_retry (\<lambda>_ _ _. None) (sample_exec ''e'' ExecFailed (Some ExecFailed)) default_retry 5)"
  using retry_decision [OF exact_growing, of default_retry 5 "sample_exec ''e'' ExecFailed (Some ExecFailed)"]
    retry_decision [OF infinite_growing, of default_retry 5 "sample_exec ''e'' ExecFailed (Some ExecFailed)"]
  by (simp add: default_retry_def valid_retry_def sample_exec_def)

lemma overflowing_delay: "wrap64 (second * 9223372037) = - 9223372036709551616"
  by (simp add: wrap64_def signed_take_bit_eq_take_bit_shift take_bit_eq_mod)

text \<open>An initial delay of 9223372037 seconds or more wraps around to a negative duration: the
  parameters pass validation and allow retries without limit, yet the failure is not retried.\<close>

theorem retry_lost_on_overflow:
  "let p = \<lparr>max_retries = -1, initial_delay_sec = 9223372037, max_delay_sec = Some 30, factor = 2\<rparr>
   in valid_retry p \<and> initial_delay p < 0 \<and>
      \<not> snd (decide_execution_retry exact_backoff (sample_exec ''e'' ExecFailed (Some ExecFailed)) p 1)"
  using overflowing_delay
  by (simp add: Let_def valid_retry_def initial_delay_def decide_execution_retry_def sample_exec_def
      next_delay_def exact_backoff_def delay_ceiling_def max_delay_def max_retry_delay_def trunc_def
      wrap64_id)

section \<open>Running a handler without faults\<close>

lemma get_task_run [simp]:
  "sql_faults w = [] \<Longrightarrow> find_row t_id i (tasks (db w)) = Some t \<Longrightarrow> get_task i w = (Inr t, w)"
  by (simp add: get_task_def)

lemma fetch_exec_run [simp]:
  "sql_faults w = [] \<Longrightarrow> find_row e_id i (execs (db w)) = Some e \<Longrightarrow>
     find_row t_id (e_task e) (tasks (db w)) = Some t \<Longrightarrow>
     fetch_exec_instance_and_parent_task i w = (Inr (e, t), w)"
  by (simp add: fetch_exec_instance_and_parent_task_def get_task_execution_def)

section \<open>Cancelling the instances of a task\<close>

abbreviation cancel_each :: "time \<Rightarrow> exec_row list \<Rightarrow> (world, unit) m" where
  "cancel_each stamp es \<equiv> for_each es (\<lambda>e.
     wrap PersistenceError (mark_task_exec_cancelled (e_id e) ''parent task cancelled'' stamp))"

lemma cancel_each_ok:
  assumes "cancel_each stamp es w = (Inr u, w')"
  shows "tasks (db w') = tasks (db w) \<and> (\<forall>r \<in> set (execs (db w')).
    e_id r \<in> e_id ` set es \<and> e_state r = ExecCancelled \<or>
    e_id r \<notin> e_id ` set es \<and> r \<in> set (execs (db w)))"
  using assms
proof (induction es arbitrary: w)
  case (Cons e es)
  then obtain w1 where step: "update_task_execution_state (e_id e) ExecCancelled
      (no_update\<lparr>eu_error := Some ''parent task cancelled'', eu_at := Some stamp\<rparr>) w = (Inr (), w1)"
    and rest: "cancel_each stamp es w1 = (Inr u, w')"
    by (auto simp: monad_results mark_task_exec_cancelled_def)
  from step obtain u now where d: "db w1 = set_exec_state (e_id e) ExecCancelled u now (db w)"
    by (auto dest!: update_task_execution_state_ok)
  show ?case
    using Cons.IH [OF rest] unfolding d by (fastforce simp: set_exec_state_def update_rows_def)
qed simp

lemma cancel_each_run:
  assumes "sql_faults w = []" "distinct (map e_id es)"
    and "\<And>e. e \<in> set es \<Longrightarrow> \<exists>r. find_row e_id (e_id e) (execs (db w)) = Some r \<and>
      moves exec_transitions (e_state r) ExecCancelled"
  shows "\<exists>w'. cancel_each stamp es w = (Inr (), w') \<and> sql_faults w' = []"
  using assms
proof (induction es arbitrary: w)
  case (Cons e es)
  obtain r where r: "find_row e_id (e_id e) (execs (db w)) = Some r"
    "moves exec_transitions (e_state r) ExecCancelled" using Cons.prems(3) by auto
  let ?u = "no_update\<lparr>eu_error := Some ''parent task cancelled'', eu_at := Some stamp\<rparr>"
  let ?w = "w\<lparr>ticks := Suc (ticks w),
      db := set_exec_state (e_id e) ExecCancelled ?u (clock w (ticks w)) (db w)\<rparr>"
  have step: "wrap PersistenceError (mark_task_exec_cancelled (e_id e) ''parent task cancelled'' stamp) w
      = (Inr (), ?w)"
    using update_task_execution_state_run [OF Cons.prems(1) r] by (simp add: mark_task_exec_cancelled_def)
  have "\<exists>w'. cancel_each stamp es ?w = (Inr (), w') \<and> sql_faults w' = []"
  proof (rule Cons.IH)
    fix x
    assume x: "x \<in> set es"
    then have "e_id x \<noteq> e_id e" using Cons.prems(2) by (auto simp: image_iff)
    then show "\<exists>r. find_row e_id (e_id x) (execs (db ?w)) = Some r \<and>
        moves exec_transitions (e_state r) ExecCancelled"
      using Cons.prems(3) [of x] x by (auto simp: find_set_exec_state)
  qed (use Cons.prems in simp_all)
  then show ?case using step by simp
qed simp

definition live_exec :: "exec_row \<Rightarrow> bool" where
  "live_exec e \<longleftrightarrow> e_state e \<in> set live_exec_states"

lemma live_cancellable: "live_exec e \<Longrightarrow> moves exec_transitions (e_state e) ExecCancelled"
  by (cases "e_state e") (simp_all add: live_exec_def live_exec_states_def moves_def succs_def)

lemma listed_live:
  "set (page_rows (page.truncate (any_exec\<lparr>ef_states := live_exec_states, ef_task := Some i\<rparr>))
     (sort_key e_created (filter (exec_matches (any_exec\<lparr>ef_states := live_exec_states, ef_task := Some i\<rparr>)) es)))
   = {e \<in> set es. e_task e = i \<and> live_exec e}"
  by (auto simp: page_rows_def page.defs any_exec_def exec_matches_def in_or_any_def due_by_def live_exec_def
      live_exec_states_def)

lemma cancel_ongoing_ok:
  assumes "cancel_ongoing_exec_instances_of_task t stamp w = (Inr u, w')"
  shows "tasks (db w') = tasks (db w) \<and>
    (\<forall>e \<in> set (execs (db w')). e_task e = t_id t \<longrightarrow> \<not> live_exec e) \<and>
    (\<forall>e \<in> set (execs (db w')). e \<in> set (execs (db w)) \<or> e_state e = ExecCancelled)"
proof -
  obtain es w1 where es: "set es = {e \<in> set (execs (db w)). e_task e = t_id t \<and> live_exec e}"
    and w1: "db w1 = db w" and run: "cancel_each stamp es w1 = (Inr u, w')"
    using assms listed_live [of "t_id t" "execs (db w)"]
    by (auto simp: cancel_ongoing_exec_instances_of_task_def list_task_executions_def monad_results
        dest!: list_all_executions_ok)
  show ?thesis
    using cancel_each_ok [OF run] es w1 by (fastforce simp: live_exec_def live_exec_states_def)
qed

lemma cancel_ongoing_run:
  assumes "sql_faults w = []" "distinct (map e_id (execs (db w)))"
  shows "\<exists>w'. cancel_ongoing_exec_instances_of_task t stamp w = (Inr (), w') \<and> sql_faults w' = []"
proof -
  let ?f = "any_exec\<lparr>ef_states := live_exec_states, ef_task := Some (t_id t)\<rparr>"
  let ?es = "sort_key e_created (filter (exec_matches ?f) (execs (db w)))"
  have page: "page_rows (page.truncate ?f) xs = xs" "page_valid (page.truncate ?f)" for xs :: "exec_row list"
    by (simp_all add: page_rows_def page_valid_def page.defs any_exec_def)
  have set: "set ?es = {e \<in> set (execs (db w)). e_task e = t_id t \<and> live_exec e}"
    using listed_live [of "t_id t" "execs (db w)"] unfolding page .
  have "distinct (map e_id ?es)"
    using assms(2) by (simp add: distinct_map inj_on_def)
  then have "\<exists>w'. cancel_each stamp ?es w = (Inr (), w') \<and> sql_faults w' = []"
    using assms set
    by (intro cancel_each_run) (auto intro!: find_row_distinct live_cancellable)
  then show ?thesis
    using assms page
    by (simp add: cancel_ongoing_exec_instances_of_task_def list_task_executions_def list_all_executions_def)
qed

lemma task_state_set:
  "find_row t_id i (tasks d) = Some t \<Longrightarrow>
     find_row t_id i (tasks (set_task_state i s d)) = Some (t\<lparr>t_state := s\<rparr>)"
  by (simp add: find_set_task_state)

section \<open>Outcomes\<close>

text \<open>C20. Cancelling a task that still runs or waits succeeds when no statement fails, leaves it
  CANCELLED, and leaves none of its execution instances live, so that no worker starts one and no
  retry is scheduled for it.\<close>

theorem cancel_task_achieves:
  assumes "sql_faults w = []" "distinct (map e_id (execs (db w)))"
    and "find_row t_id i (tasks (db w)) = Some t" "t_state t \<in> {TaskPending, TaskActive, TaskCancelling}"
    and "t_creator t \<noteq> []" "event_ready w i"
  shows "\<exists>w' t'. process_cancel_task i stamp w = (Inr (), w') \<and>
    find_row t_id i (tasks (db w')) = Some t' \<and> t_state t' = TaskCancelled \<and>
    (\<forall>e \<in> set (execs (db w')). e_task e = i \<longrightarrow> \<not> live_exec e)"
proof -
  let ?w0 = "record_action TxnBegin w"
  let ?w1 = "if t_state t = TaskCancelling then ?w0
    else ?w0\<lparr>db := set_task_state i TaskCancelling (db w)\<rparr>"
  let ?t1 = "if t_state t = TaskCancelling then t else t\<lparr>t_state := TaskCancelling\<rparr>"
  have i: "t_id t = i" using assms(3) by (rule task_found)
  have ready: "event_ready ?w0 i" "event_ready ?w1 i"
    using assms(6) by (simp_all add: event_ready_def record_action_def)
  have one: "do_if (t_state t \<noteq> TaskCancelling) (wrap PersistenceError (mark_task_cancelling (t_id t))) ?w0
      = (Inr (), ?w1)"
    using assms(1,3-5) ready i update_task_state_run [of ?w0 i t TaskCancelling]
    by (auto simp: mark_task_cancelling_def moves_def succs_def)
  have t1: "find_row t_id i (tasks (db ?w1)) = Some ?t1"
    using assms(3) by (simp add: task_state_set)
  define w2 where "w2 = snd (mark_task_cancelled i ?w1)"
  have two: "mark_task_cancelled i ?w1 = (Inr (), w2)" and f2: "sql_faults w2 = []"
    and t2: "find_row t_id i (tasks (db w2)) = Some (?t1\<lparr>t_state := TaskCancelled\<rparr>)"
    and e2: "execs (db w2) = execs (db w)"
    using update_task_state_run [of ?w1 i ?t1 TaskCancelled] t1 ready(2) assms(1,4,5)
    by (auto simp: mark_task_cancelled_def w2_def moves_def succs_def find_set_task_state)
  obtain w3 where three: "cancel_ongoing_exec_instances_of_task t stamp w2 = (Inr (), w3)"
    and f3: "sql_faults w3 = []"
    using cancel_ongoing_run [OF f2] assms(2) e2 by auto
  have "process_cancel_task i stamp w = (Inr (), record_action TxnCommit w3)"
    unfolding process_cancel_task_def
    by (rule wrap_Inr, rule in_txn_run) (use assms one two three f3 i in \<open>auto simp: bnd_def\<close>)
  then show ?thesis
    using cancel_ongoing_ok [OF three] t2 i by (auto simp: record_action_def)
qed

theorem cancel_task_achieves_witness:
  "\<exists>w' t'. process_cancel_task ''t'' 9 (sample_world (sample_tables TaskActive
       [sample_exec ''d'' ExecFinalized (Some ExecFailed), sample_exec ''e'' ExecProcessing None]) []) =
     (Inr (), w') \<and> find_row t_id ''t'' (tasks (db w')) = Some t' \<and> t_state t' = TaskCancelled \<and>
     (\<forall>e \<in> set (execs (db w')). e_task e = ''t'' \<longrightarrow> \<not> live_exec e)"
  by (rule cancel_task_achieves [where t = "sample_task TaskActive"])
    (simp_all add: samples event_ready_def)

text \<open>C21. Timing out an instance that a worker has or will have succeeds when no statement fails:
  the instance is FINALIZED with the outcome FAILED, the task is TIMED_OUT, and no other instance
  of the task stays live.\<close>

theorem exec_timeout_achieves:
  assumes "sql_faults w = []" "distinct (map e_id (execs (db w)))"
    and "find_row e_id i (execs (db w)) = Some e"
    and "e_state e \<in> {ExecEnqueued, ExecAcquired, ExecProcessing}"
    and "find_row t_id (e_task e) (tasks (db w)) = Some t" "t_state t = TaskActive"
    and "t_creator t \<noteq> []" "event_ready w (e_task e)"
  shows "\<exists>w' e' t'. process_task_execution_timed_out i stamp w = (Inr (), w') \<and>
    find_row e_id i (execs (db w')) = Some e' \<and> e_state e' = ExecFinalized \<and>
    e_terminal e' = Some ExecFailed \<and> e_terminated e' = Some stamp \<and>
    find_row t_id (e_task e) (tasks (db w')) = Some t' \<and> t_state t' = TaskTimeout \<and>
    (\<forall>x \<in> set (execs (db w')). e_task x = e_task e \<longrightarrow> \<not> live_exec x)"
proof -
  let ?w0 = "record_action TxnBegin w"
  let ?msg = "''timed out at '' @ time_text w stamp"
  let ?u = "no_update\<lparr>eu_error := Some ?msg, eu_disposition := None, eu_at := Some stamp\<rparr>"
  have ids: "e_id e = i" "t_id t = e_task e" using assms(3,5) by (auto dest: exec_found task_found)
  let ?e1 = "exec_columns ExecFailed ?u e\<lparr>e_updated := clock w (ticks w)\<rparr>"
  define w1 where "w1 = snd (mark_task_exec_failed i ?msg None stamp ?w0)"
  have one: "mark_task_exec_failed i ?msg None stamp ?w0 = (Inr (), w1)"
    and e1: "find_row e_id i (execs (db w1)) = Some ?e1"
    and w1: "sql_faults w1 = []" "tasks (db w1) = tasks (db w)" "event_ready w1 (e_task e)"
      "map e_id (execs (db w1)) = map e_id (execs (db w))"
    using update_task_execution_state_run [of ?w0 i e ExecFailed ?u] assms(1,3,4,8)
    by (auto simp: mark_task_exec_failed_def w1_def moves_def succs_def find_set_exec_state event_ready_def)
  let ?e2 = "exec_columns ExecFinalized no_update ?e1\<lparr>e_updated := clock w1 (ticks w1)\<rparr>"
  define w2 where "w2 = snd (mark_task_exec_finalized i w1)"
  have two: "mark_task_exec_finalized i w1 = (Inr (), w2)"
    and e2: "find_row e_id i (execs (db w2)) = Some ?e2"
    and w2: "sql_faults w2 = []" "tasks (db w2) = tasks (db w)" "event_ready w2 (e_task e)"
      "map e_id (execs (db w2)) = map e_id (execs (db w))"
    using update_task_execution_state_run [of w1 i ?e1 ExecFinalized no_update] e1 w1
    by (auto simp: mark_task_exec_finalized_def w2_def moves_def succs_def find_set_exec_state event_ready_def)
  define w3 where "w3 = snd (mark_task_timed_out (e_task e) w2)"
  have three: "mark_task_timed_out (e_task e) w2 = (Inr (), w3)" and f3: "sql_faults w3 = []"
    and t3: "find_row t_id (e_task e) (tasks (db w3)) = Some (t\<lparr>t_state := TaskTimeout\<rparr>)"
    and x3: "execs (db w3) = execs (db w2)"
    using update_task_state_run [of w2 "e_task e" t TaskTimeout] assms(5-7) w2
    by (auto simp: mark_task_timed_out_def w3_def moves_def succs_def find_set_task_state)
  obtain w4 where four: "cancel_ongoing_exec_instances_of_task t stamp w3 = (Inr (), w4)"
    and f4: "sql_faults w4 = []"
    using cancel_ongoing_run [OF f3] assms(2) x3 w2(4) by auto
  have "\<not> has_ended (e_state e)"
    using assms(4) by (auto simp: has_ended_values)
  then have run: "process_task_execution_timed_out i stamp w = (Inr (), record_action TxnCommit w4)"
    unfolding process_task_execution_timed_out_def
    by (intro wrap_Inr in_txn_run) (use assms one two three four f4 ids in \<open>auto simp: bnd_def\<close>)
  have later: "task_tables_evolve (db w3) (db w4)"
    using evolvesD [OF task_life.ev_cancel_ongoing four] by (simp add: task_life.W_def)
  have "find_row e_id i (execs (db w3)) = Some ?e2" using e2 x3 by simp
  from exec_evolves_from [OF later this]
  obtain e4 where e4: "find_row e_id i (execs (db w4)) = Some e4" "exec_adv ?e2 e4" by blast
  then have "e_state e4 = ExecFinalized \<and> e_terminal e4 = Some ExecFailed \<and> e_terminated e4 = Some stamp"
    by (auto simp: exec_adv_def exec_ok_def same_outcome_def dest!: finalized_stays)
  then show ?thesis
    using run e4 t3 cancel_ongoing_ok [OF four] ids by auto
qed

theorem exec_timeout_achieves_witness:
  "\<exists>w' e' t'. process_task_execution_timed_out ''e'' 9 (sample_world (sample_tables TaskActive
       [sample_exec ''e'' ExecProcessing None]) []) = (Inr (), w') \<and>
     find_row e_id ''e'' (execs (db w')) = Some e' \<and> e_state e' = ExecFinalized \<and>
     e_terminal e' = Some ExecFailed \<and> e_terminated e' = Some 9 \<and>
     find_row t_id ''t'' (tasks (db w')) = Some t' \<and> t_state t' = TaskTimeout \<and>
     (\<forall>x \<in> set (execs (db w')). e_task x = ''t'' \<longrightarrow> \<not> live_exec x)"
  using exec_timeout_achieves [where t = "sample_task TaskActive" and e = "sample_exec ''e'' ExecProcessing None"
      and i = "''e''" and stamp = 9 and w = "sample_world (sample_tables TaskActive
       [sample_exec ''e'' ExecProcessing None]) []"]
  by (simp add: samples event_ready_def)

text \<open>An instance that is still DEFINED or SCHEDULED when its deadline passes can never be
  timed out: the handler asks for a transition the state machine does not have, so it fails and
  changes nothing, in every world.\<close>

theorem early_exec_timeout_never_succeeds:
  assumes "find_row e_id i (execs (db w)) = Some e" "e_state e \<in> {ExecDefined, ExecScheduled}"
  shows "\<exists>err w'. process_task_execution_timed_out i stamp w = (Inl err, w') \<and> db w' = db w"
proof -
  obtain r w' where run: "process_task_execution_timed_out i stamp w = (r, w')"
    by (cases "process_task_execution_timed_out i stamp w")
  show ?thesis
  proof (cases r)
    case (Inl err)
    then show ?thesis
      using run handler_error by (auto simp: process_task_execution_timed_out_def)
  next
    case (Inr u)
    obtain w0 w1 w2 e' t where f: "fetch_exec_instance_and_parent_task i w0 = (Inr (e', t), w1)" "db w0 = db w"
      and body: "(if has_ended (e_state e') then ret () else bnd (gets time_text) (\<lambda>tx.
         bnd (wrap PersistenceError (mark_task_exec_failed i (''timed out at '' @ tx stamp) None stamp)) (\<lambda>_.
         bnd (wrap PersistenceError (mark_task_exec_finalized (e_id e'))) (\<lambda>_.
         bnd (wrap PersistenceError (mark_task_timed_out (t_id t))) (\<lambda>_.
         cancel_ongoing_exec_instances_of_task t stamp))))) w1 = (Inr u, w2)"
      using handler_ok [OF run [unfolded process_task_execution_timed_out_def Inr]] by fastforce
    then have e': "e' = e" "db w1 = db w" using assms(1) by (auto dest!: fetch_exec_ok)
    have "\<not> has_ended (e_state e)" using assms(2) by (auto simp: has_ended_values)
    then show ?thesis
      using body e' assms
      by (auto simp: monad_results mark_task_exec_failed_def moves_def succs_def
          dest!: update_task_execution_state_ok)
  qed
qed

theorem early_exec_timeout_never_succeeds_witness:
  "\<exists>err w'. process_task_execution_timed_out ''e'' 9
     (sample_world (sample_tables TaskActive [sample_exec ''e'' ExecScheduled None]) []) = (Inl err, w') \<and>
     db w' = sample_tables TaskActive [sample_exec ''e'' ExecScheduled None]"
  using early_exec_timeout_never_succeeds [of "''e''" "sample_world (sample_tables TaskActive
      [sample_exec ''e'' ExecScheduled None]) []" "sample_exec ''e'' ExecScheduled None" 9]
  by (simp add: samples)

lemma exec_complete_run:
  assumes "sql_faults w = []" "find_row e_id i (execs (db w)) = Some e" "e_state e = ExecProcessed"
    and "find_row t_id (e_task e) (tasks (db w)) = Some t" "t_state t = TaskActive"
    and "t_creator t \<noteq> []" "event_ready w (e_task e)"
  shows "\<exists>w' e'. process_task_execution_complete i w = (Inr (), w') \<and>
    find_row e_id i (execs (db w')) = Some e' \<and> e_state e' = ExecFinalized \<and> same_outcome e e' \<and>
    find_row t_id (e_task e) (tasks (db w')) = Some (t\<lparr>t_state := TaskComplete\<rparr>)"
proof -
  let ?w0 = "record_action TxnBegin w"
  have ids: "e_id e = i" "t_id t = e_task e" using assms(2,4) by (auto dest: exec_found task_found)
  let ?e1 = "exec_columns ExecFinalized no_update e\<lparr>e_updated := clock w (ticks w)\<rparr>"
  define w1 where "w1 = snd (mark_task_exec_finalized i ?w0)"
  have one: "mark_task_exec_finalized i ?w0 = (Inr (), w1)"
    and e1: "find_row e_id i (execs (db w1)) = Some ?e1"
    and w1: "sql_faults w1 = []" "tasks (db w1) = tasks (db w)" "event_ready w1 (e_task e)"
    using update_task_execution_state_run [of ?w0 i e ExecFinalized no_update] assms
    by (auto simp: mark_task_exec_finalized_def w1_def moves_def succs_def find_set_exec_state event_ready_def)
  define w2 where "w2 = snd (mark_task_complete (e_task e) w1)"
  have two: "mark_task_complete (e_task e) w1 = (Inr (), w2)" and f2: "sql_faults w2 = []"
    and t2: "find_row t_id (e_task e) (tasks (db w2)) = Some (t\<lparr>t_state := TaskComplete\<rparr>)"
    and e2: "execs (db w2) = execs (db w1)"
    using update_task_state_run [of w1 "e_task e" t TaskComplete] assms(4-6) w1
    by (auto simp: mark_task_complete_def w2_def moves_def succs_def find_set_task_state)
  have "process_task_execution_complete i w = (Inr (), record_action TxnCommit w2)"
    unfolding process_task_execution_complete_def
    by (intro wrap_Inr in_txn_run)
      (use assms one two f2 ids in \<open>auto simp: bnd_def at_or_past_finalized\<close>)
  then show ?thesis
    using t2 e1 e2 by (auto simp: same_outcome_def)
qed

text \<open>C22. A processed instance of an active task completes it: when no statement fails the instance
  is FINALIZED with its outcome kept and the task is COMPLETE.\<close>

theorem exec_complete_achieves:
  assumes "sql_faults w = []" "find_row e_id i (execs (db w)) = Some e" "e_state e = ExecProcessed"
    and "find_row t_id (e_task e) (tasks (db w)) = Some t" "t_state t = TaskActive"
    and "t_creator t \<noteq> []" "event_ready w (e_task e)"
  shows "\<exists>w' e'. process_task_execution_complete i w = (Inr (), w') \<and>
    find_row e_id i (execs (db w')) = Some e' \<and> e_state e' = ExecFinalized \<and> same_outcome e e' \<and>
    find_row t_id (e_task e) (tasks (db w')) = Some (t\<lparr>t_state := TaskComplete\<rparr>)"
  by (rule exec_complete_run) fact+

theorem exec_complete_achieves_witness:
  "\<exists>w' e'. process_task_execution_complete ''e'' (sample_world (sample_tables TaskActive
       [sample_exec ''e'' ExecProcessed (Some ExecProcessed)]) []) = (Inr (), w') \<and>
     find_row e_id ''e'' (execs (db w')) = Some e' \<and> e_state e' = ExecFinalized \<and>
     same_outcome (sample_exec ''e'' ExecProcessed (Some ExecProcessed)) e' \<and>
     find_row t_id ''t'' (tasks (db w')) = Some (sample_task TaskActive\<lparr>t_state := TaskComplete\<rparr>)"
  using exec_complete_achieves [where t = "sample_task TaskActive" and i = "''e''"
      and e = "sample_exec ''e'' ExecProcessed (Some ExecProcessed)"
      and w = "sample_world (sample_tables TaskActive [sample_exec ''e'' ExecProcessed (Some ExecProcessed)]) []"]
  by (simp add: samples event_ready_def)

text \<open>C40. A processed instance whose task is no longer active, say because the task was cancelled
  while the worker finished, can never be completed: the handler insists on the move to COMPLETE,
  fails and rolls back, in every world, so the maintenance sweep repeats it without end.\<close>

theorem exec_complete_stuck_without_active_task:
  assumes "find_row e_id i (execs (db w)) = Some e" "e_state e = ExecProcessed"
    and "find_row t_id (e_task e) (tasks (db w)) = Some t" "t_state t \<noteq> TaskActive"
  shows "\<exists>err w'. process_task_execution_complete i w = (Inl err, w') \<and> db w' = db w"
proof -
  obtain r w' where run: "process_task_execution_complete i w = (r, w')"
    by (cases "process_task_execution_complete i w")
  show ?thesis
  proof (cases r)
    case (Inl err)
    then show ?thesis using run handler_error by (auto simp: process_task_execution_complete_def)
  next
    case (Inr u)
    obtain w0 w1 w2 e' t' where f: "fetch_exec_instance_and_parent_task i w0 = (Inr (e', t'), w1)" "db w0 = db w"
      and body: "(if is_state_at_or_past (e_state e') ExecFinalized then ret () else
         bnd (wrap PersistenceError (mark_task_exec_finalized (e_id e'))) (\<lambda>_.
         wrap PersistenceError (mark_task_complete (t_id t')))) w1 = (Inr u, w2)"
      using handler_ok [OF run [unfolded process_task_execution_complete_def Inr]] by fastforce
    then have "e' = e" "t' = t" "db w1 = db w" using assms(1,3) by (auto dest!: fetch_exec_ok)
    moreover have "\<not> moves task_transitions (t_state t) TaskComplete"
      using assms(4) by (cases "t_state t") (auto simp: moves_def succs_def)
    ultimately show ?thesis
      using body assms
      by (auto simp: monad_results mark_task_exec_finalized_def mark_task_complete_def
          at_or_past_finalized task_found dest!: update_task_execution_state_ok update_task_state_ok)
  qed
qed

theorem exec_complete_stuck_without_active_task_witness:
  "\<exists>err w'. process_task_execution_complete ''e'' (sample_world (sample_tables TaskCancelled
       [sample_exec ''e'' ExecProcessed (Some ExecProcessed)]) []) = (Inl err, w') \<and>
     db w' = sample_tables TaskCancelled [sample_exec ''e'' ExecProcessed (Some ExecProcessed)]"
  using exec_complete_stuck_without_active_task [where t = "sample_task TaskCancelled" and i = "''e''"
      and e = "sample_exec ''e'' ExecProcessed (Some ExecProcessed)"
      and w = "sample_world (sample_tables TaskCancelled [sample_exec ''e'' ExecProcessed (Some ExecProcessed)]) []"]
  by (simp add: samples)

section \<open>The queue\<close>

text \<open>The filter that decides which stranded messages are replayed at start-up agrees with the
  live path: a message is put back on the queue exactly when the live path has a handler for it, and
  otherwise both record the same reason.\<close>

theorem task_recovery_agrees_with_dispatch:
  "is_supported_task_message m = (case task_dispatch c m of Inl reason \<Rightarrow> Some reason | Inr _ \<Rightarrow> None)"
  by (cases m) (auto simp: is_supported_task_message_def split: ipc_type.splits)

end
