(* ===== verification/Task_Consistency.thy ===== *)
theory Task_Consistency
  imports Task_Results
begin

text \<open>
  The invariant of the task tables: the rows are well formed, a task has at most one open execution
  instance, a pending task has none, a task that has ended has no instance a worker could still pick
  up, and the failed attempts stay within the retry budget. Every handler of the task scheduler keeps
  it across its transaction.
\<close>

section \<open>The invariant\<close>

definition ended_task :: "task_state \<Rightarrow> bool" where
  "ended_task s \<longleftrightarrow> s \<in> {TaskComplete, TaskFailed, TaskCancelled, TaskTimeout}"

definition open_exec :: "exec_row \<Rightarrow> bool" where
  "open_exec e \<longleftrightarrow> e_state e \<notin> {ExecFinalized, ExecCancelled}"

definition one_open :: "exec_row list \<Rightarrow> bool" where
  "one_open es \<longleftrightarrow> (\<forall>e \<in> set es. \<forall>e' \<in> set es.
     e_task e = e_task e' \<longrightarrow> open_exec e \<longrightarrow> open_exec e' \<longrightarrow> e_id e = e_id e')"

text \<open>The tasks of \<open>X\<close> are those a handler is just ending.\<close>

definition fits :: "ident set \<Rightarrow> task_row list \<Rightarrow> exec_row \<Rightarrow> bool" where
  "fits X ts e \<longleftrightarrow> (case find_row t_id (e_task e) ts of
     None \<Rightarrow> False
   | Some t \<Rightarrow> t_state t \<noteq> TaskPending \<and> (ended_task (t_state t) \<longrightarrow> e_task e \<notin> X \<longrightarrow> \<not> live_exec e))"

text \<open>The attempts that failed or still may: their number stays within the budget of the task.\<close>

definition may_fail :: "exec_row \<Rightarrow> bool" where
  "may_fail e \<longleftrightarrow> e_terminal e = None \<or> e_terminal e = Some ExecFailed"

definition attempts :: "exec_row list \<Rightarrow> ident \<Rightarrow> nat" where
  "attempts es i = length (filter (\<lambda>e. e_task e = i \<and> may_fail e) es)"

definition in_budget :: "exec_row list \<Rightarrow> task_row \<Rightarrow> bool" where
  "in_budget es t \<longleftrightarrow> max_retries (t_retry t) = -1 \<or> int (attempts es (t_id t)) \<le> max_retries (t_retry t) + 1"

definition rows_sound :: "tables \<Rightarrow> bool" where
  "rows_sound d \<longleftrightarrow> (\<forall>t \<in> set (tasks d). task_row_valid t \<and> in_budget (execs d) t) \<and>
     (\<forall>e \<in> set (execs d). new_exec_ok e)"

definition task_consistent_but :: "ident set \<Rightarrow> tables \<Rightarrow> bool" where
  "task_consistent_but X d \<longleftrightarrow> distinct (map t_id (tasks d)) \<and> distinct (map e_id (execs d)) \<and>
     one_open (execs d) \<and> (\<forall>e \<in> set (execs d). fits X (tasks d) e) \<and> rows_sound d"

definition task_consistent :: "tables \<Rightarrow> bool" where
  "task_consistent = task_consistent_but {}"

lemma live_open: "live_exec e \<Longrightarrow> open_exec e"
  by (auto simp: live_exec_def live_exec_states_def open_exec_def)

text \<open>No move leaves a closed state, none enters a live one from outside.\<close>

lemma moves_open: "moves exec_transitions s s' \<Longrightarrow> s \<notin> {ExecFinalized, ExecCancelled}"
  by (cases s) (auto simp: moves_def succs_def)

lemma moves_live:
  "moves exec_transitions s s' \<Longrightarrow> s' \<in> set live_exec_states \<Longrightarrow> s \<in> set live_exec_states"
  by (cases s) (auto simp: moves_def succs_def live_exec_states_def)

lemma consistentD:
  assumes "task_consistent_but X d"
  shows "distinct (map t_id (tasks d))" "distinct (map e_id (execs d))" "one_open (execs d)"
    "e \<in> set (execs d) \<Longrightarrow> fits X (tasks d) e" "rows_sound d"
  using assms by (simp_all add: task_consistent_but_def)

lemma closed_outcome: "new_exec_ok e \<Longrightarrow> \<not> open_exec e \<Longrightarrow> e_terminal e \<noteq> None"
  by (cases "e_state e") (auto simp: new_exec_ok_def exec_ok_def open_exec_def)

lemma attempts_less:
  assumes "\<And>e. e \<in> set es \<Longrightarrow> e_task (f e) = e_task e \<and> (may_fail (f e) \<longrightarrow> may_fail e)"
  shows "attempts (map f es) i \<le> attempts es i"
  using assms by (induction es) (auto simp: attempts_def)

lemma attempts_filter: "attempts (filter p es) i \<le> attempts es i"
  by (induction es) (auto simp: attempts_def)

lemma in_budget_less: "in_budget es t \<Longrightarrow> attempts es' (t_id t) \<le> attempts es (t_id t) \<Longrightarrow> in_budget es' t"
  by (auto simp: in_budget_def)

lemma no_attempts: "\<forall>e \<in> set es. e_task e \<noteq> i \<Longrightarrow> attempts es i = 0"
  by (simp add: attempts_def filter_empty_conv)

lemma fresh_in_budget: "valid_retry (t_retry t) \<Longrightarrow> attempts es (t_id t) = 0 \<Longrightarrow> in_budget es t"
  by (auto simp: in_budget_def valid_retry_def)

section \<open>The writes\<close>

lemma consistent_cong:
  "tasks d' = tasks d \<Longrightarrow> execs d' = execs d \<Longrightarrow> task_consistent_but X d' = task_consistent_but X d"
  by (simp add: task_consistent_but_def rows_sound_def)

lemma one_open_image:
  assumes "one_open es" "set es' \<subseteq> f ` set es"
    and "\<And>e. e \<in> set es \<Longrightarrow> e_id (f e) = e_id e \<and> e_task (f e) = e_task e \<and> (open_exec (f e) \<longrightarrow> open_exec e)"
  shows "one_open es'"
  unfolding one_open_def
proof (intro ballI impI)
  fix x y
  assume xy: "x \<in> set es'" "y \<in> set es'" "e_task x = e_task y" "open_exec x" "open_exec y"
  then obtain a b where ab: "a \<in> set es" "x = f a" "b \<in> set es" "y = f b" using assms(2) by blast
  note fa = assms(3) [OF ab(1)] and fb = assms(3) [OF ab(3)]
  have "e_task a = e_task b" "open_exec a" "open_exec b" using xy ab fa fb by metis+
  then have "e_id a = e_id b" using assms(1) ab(1,3) unfolding one_open_def by blast
  then show "e_id x = e_id y" using ab fa fb by simp
qed

lemma consistent_set_exec:
  assumes "task_consistent_but X d" "find_row e_id i (execs d) = Some e0" "moves exec_transitions (e_state e0) s"
    "s = ExecAcquired \<longrightarrow> eu_worker u \<noteq> None"
  shows "task_consistent_but X (set_exec_state i s u now d)"
proof -
  let ?f = "\<lambda>e. if e_id e = i then exec_columns s u e\<lparr>e_updated := now\<rparr> else e"
  note old = consistentD [OF assms(1)]
  have the_row: "e = e0" if "e \<in> set (execs d)" "e_id e = i" for e
    using find_row_distinct [OF old(2) that(1)] that(2) assms(2) by simp
  have op: "open_exec (?f e) \<longrightarrow> open_exec e" and lv: "live_exec (?f e) \<longrightarrow> live_exec e"
    if "e \<in> set (execs d)" for e
    using the_row [OF that] moves_open [OF assms(3)] moves_live [OF assms(3)]
    by (auto simp add: open_exec_def live_exec_def)
  have rows: "set (execs (set_exec_state i s u now d)) = ?f ` set (execs d)"
    by (simp add: set_exec_state_def update_rows_def)
  have "one_open (execs (set_exec_state i s u now d))"
    by (rule one_open_image [OF old(3), of _ ?f]) (use rows op in simp_all)
  moreover have fit: "fits X (tasks d) (?f e)" if "e \<in> set (execs d)" for e
    using old(4) [OF that] lv [OF that] by (auto simp: fits_def split: option.splits)
  have "\<forall>x \<in> set (execs (set_exec_state i s u now d)). fits X (tasks d) x"
    unfolding rows using fit by blast
  moreover have "rows_sound (set_exec_state i s u now d)"
    unfolding rows_sound_def
  proof (intro conjI ballI)
    have adv: "exec_adv e (?f e)" if "e \<in> set (execs d)" for e
      using the_row [OF that] assms(3,4) exec_columns_adv [of e0 s u]
      by (auto simp: exec_machine.valid_cases exec_rows.adv_refl)
    have sound: "new_exec_ok e" if "e \<in> set (execs d)" for e
      using old(5) that by (simp add: rows_sound_def)
    fix t assume t: "t \<in> set (tasks (set_exec_state i s u now d))"
    then show "task_row_valid t" using old(5) by (simp add: rows_sound_def set_exec_state_def)
    have "may_fail e" if "e \<in> set (execs d)" "may_fail (?f e)" for e
      using adv [OF that(1)] sound [OF that(1)] that(2)
      by (auto simp: exec_adv_def new_exec_ok_def may_fail_def same_outcome_def simp del: exec_columns.simps)
    then have "attempts (execs (set_exec_state i s u now d)) (t_id t) \<le> attempts (execs d) (t_id t)"
      unfolding set_exec_state_def update_rows_def by (simp add: attempts_less)
    then show "in_budget (execs (set_exec_state i s u now d)) t"
      using old(5) t by (auto simp: rows_sound_def set_exec_state_def intro: in_budget_less)
  next
    fix e assume "e \<in> set (execs (set_exec_state i s u now d))"
    then obtain x where "x \<in> set (execs d)" "e = ?f x" unfolding rows by blast
    then show "new_exec_ok e"
      using old(5) the_row assms(3,4) exec_columns_adv [of e0 s u now]
      by (auto simp: rows_sound_def exec_machine.valid_cases intro: exec_rows.ini_adv)
  qed
  ultimately show ?thesis using old by (simp add: task_consistent_but_def)
qed

lemma consistent_set_task:
  assumes "task_consistent_but X d" "s \<noteq> TaskPending" "X \<subseteq> Y"
    and "ended_task s \<Longrightarrow> i \<in> Y \<or> (\<forall>e \<in> set (execs d). e_task e = i \<longrightarrow> \<not> live_exec e)"
  shows "task_consistent_but Y (set_task_state i s d)"
proof -
  note old = consistentD [OF assms(1)]
  have "map t_id (tasks (set_task_state i s d)) = map t_id (tasks d)"
    by (simp add: set_task_state_def)
  moreover have "fits Y (tasks (set_task_state i s d)) e" if "e \<in> set (execs d)" for e
    using old(4) [OF that] assms(2-4) that
    by (auto simp: fits_def find_set_task_state split: option.splits)
  moreover have "rows_sound (set_task_state i s d)"
    using old(5) by (auto simp: rows_sound_def set_task_state_def update_rows_def task_row_valid_def in_budget_def)
  ultimately show ?thesis using old by (simp add: task_consistent_but_def)
qed

lemma consistent_new_task:
  assumes "task_consistent_but X d" "t_id t \<notin> t_id ` set (tasks d)" "task_row_valid t"
  shows "task_consistent_but X (d\<lparr>tasks := tasks d @ [t]\<rparr>)"
proof -
  note old = consistentD [OF assms(1)]
  have "fits X (tasks d @ [t]) e" if "e \<in> set (execs d)" for e
    using old(4) [OF that] by (auto simp: fits_def find_row_append split: option.splits)
  moreover have "e_task e \<noteq> t_id t" if "e \<in> set (execs d)" for e
    using old(4) [OF that] assms(2) find_row_Some [of t_id "e_task e" "tasks d"]
    by (auto simp: fits_def image_iff split: option.splits)
  then have "in_budget (execs d) t"
    using assms(3) by (intro fresh_in_budget no_attempts) (simp_all add: task_row_valid_def)
  ultimately show ?thesis using old assms(2,3) by (simp add: task_consistent_but_def rows_sound_def)
qed

lemma consistent_new_exec:
  assumes "task_consistent_but X d" "e_id e \<notin> e_id ` set (execs d)"
    and "find_row t_id (e_task e) (tasks d) = Some t" "t_state t = TaskActive"
    and "\<forall>x \<in> set (execs d). e_task x = e_task e \<longrightarrow> \<not> open_exec x" "new_exec_ok e"
    and "max_retries (t_retry t) = -1 \<or> int (attempts (execs d) (e_task e)) \<le> max_retries (t_retry t)"
  shows "task_consistent_but X (d\<lparr>execs := execs d @ [e]\<rparr>)"
proof -
  note old = consistentD [OF assms(1)]
  have "one_open (execs d @ [e])"
    using old(3) assms(5) unfolding one_open_def by (metis Un_iff empty_set list.simps(15) set_append singletonD)
  moreover have "fits X (tasks d) e" using assms(3,4) by (simp add: fits_def ended_task_def)
  moreover have "in_budget (execs d @ [e]) x" if x: "x \<in> set (tasks d)" for x
  proof (cases "t_id x = e_task e")
    case True
    then have "x = t" using find_row_distinct [OF old(1) x] assms(3) by simp
    moreover have "attempts (execs d @ [e]) i \<le> Suc (attempts (execs d) i)" for i
      by (simp add: attempts_def)
    then have "int (attempts (execs d @ [e]) i) \<le> int (attempts (execs d) i) + 1" for i
      by (metis of_nat_Suc of_nat_le_iff add.commute)
    ultimately show ?thesis using assms(7) True unfolding in_budget_def by (metis add_right_mono order_trans)
  next
    case False
    then show ?thesis using old(5) x by (simp add: rows_sound_def in_budget_def attempts_def)
  qed
  then have "rows_sound (d\<lparr>execs := execs d @ [e]\<rparr>)"
    using old(5) assms(6) by (simp add: rows_sound_def)
  ultimately show ?thesis using old assms(2) by (simp add: task_consistent_but_def)
qed

lemma consistent_less:
  assumes "task_consistent_but X d" "\<And>e. e \<in> set (execs d) \<Longrightarrow> e_task e \<in> X \<Longrightarrow> \<not> live_exec e"
  shows "task_consistent d"
  using assms by (auto simp: task_consistent_def task_consistent_but_def fits_def split: option.splits)

section \<open>The handlers\<close>

lemma update_task_execution_state_worker:
  "update_task_execution_state i s u w = (Inr x, w') \<Longrightarrow> s = ExecAcquired \<longrightarrow> eu_worker u \<noteq> None"
  by (auto simp: update_task_execution_state_def monad_results split: if_splits)

lemma define_exec_valid: "define_exec t c s start parent w = (Inr e, w') \<Longrightarrow> exec_row_valid e"
  by (auto simp: define_exec_def monad_results Let_def exec_row_valid_def new_exec_row_def split: if_splits)

definition keeps_task :: "tables \<Rightarrow> tables \<Rightarrow> bool" where
  "keeps_task d d' \<longleftrightarrow> (task_consistent d \<longrightarrow> task_consistent d')"

interpretation keep: log_evolution keeps_task
  by unfold_locales
    (auto simp: keeps_task_def task_consistent_def elim: consistent_cong [THEN iffD2, rotated 2])

lemma keep_txn:
  assumes "\<And>w a w'. task_consistent (db w) \<Longrightarrow> p w = (Inr a, w') \<Longrightarrow> task_consistent (db w')"
  shows "evolves keep.W (wrap k (in_txn p))"
  by (intro keep.ev_wrap keep.ok_in_txn evolves_okI) (simp add: keep.W_def keeps_task_def assms)

lemma upd_exec:
  assumes "update_task_execution_state i s u w = (Inr x, w')" "task_consistent_but X (db w)"
  shows "task_consistent_but X (db w')"
  using assms update_task_execution_state_worker [OF assms(1)]
  by (auto dest!: update_task_execution_state_ok intro!: consistent_set_exec)

lemma upd_task:
  assumes "update_task_state i s w = (Inr x, w')" "task_consistent_but X (db w)" "s \<noteq> TaskPending" "X \<subseteq> Y"
    and "ended_task s \<Longrightarrow> i \<in> Y \<or> (\<forall>e \<in> set (execs (db w)). e_task e = i \<longrightarrow> \<not> live_exec e)"
  shows "task_consistent_but Y (db w')"
proof -
  have "task_consistent_but Y (set_task_state i s (db w))"
    by (rule consistent_set_task [OF assms(2-4)]) (rule assms(5))
  then show ?thesis
    using update_task_state_ok [OF assms(1)] consistent_cong [of "db w'" "set_task_state i s (db w)" Y] by fastforce
qed

text \<open>Finalizing the one open instance of a task leaves it without any.\<close>

lemma finalize_ok:
  assumes "update_task_execution_state i ExecFinalized u w = (Inr x, w')" "task_consistent (db w)"
    and "find_row e_id i (execs (db w)) = Some e"
  shows "task_consistent (db w') \<and> tasks (db w') = tasks (db w) \<and>
    (\<forall>r \<in> set (execs (db w')). e_task r = e_task e \<longrightarrow> \<not> open_exec r)"
proof -
  obtain now where mv: "moves exec_transitions (e_state e) ExecFinalized"
    and d: "db w' = set_exec_state i ExecFinalized u now (db w)"
    using update_task_execution_state_ok [OF assms(1)] assms(3) by auto
  have e: "e \<in> set (execs (db w))" "e_id e = i" "open_exec e"
    using find_row_Some [OF assms(3)] moves_open [OF mv] by (simp_all add: open_exec_def)
  have "\<not> open_exec r" if r: "r \<in> set (execs (db w'))" "e_task r = e_task e" for r
  proof
    assume op: "open_exec r"
    from r(1) obtain a where a: "a \<in> set (execs (db w))"
      "r = (if e_id a = i then exec_columns ExecFinalized u a\<lparr>e_updated := now\<rparr> else a)"
      unfolding d by (auto simp: set_exec_state_def update_rows_def)
    with op have "e_id a \<noteq> i" "r = a" by (auto simp: open_exec_def split: if_splits)
    then show False
      using consistentD(3) [OF assms(2) [unfolded task_consistent_def]] a(1) e op r(2)
      unfolding one_open_def by blast
  qed
  moreover have "task_consistent (db w')"
    using upd_exec [OF assms(1)] assms(2) by (simp add: task_consistent_def)
  ultimately show ?thesis using d by simp
qed

lemma found_valid_retry:
  "task_consistent d \<Longrightarrow> find_row t_id i (tasks d) = Some t \<Longrightarrow> valid_retry (t_retry t)"
  by (auto simp: task_consistent_def task_consistent_but_def rows_sound_def task_row_valid_def dest: find_row_Some)

lemma define_exec_keeps:
  assumes "define_exec t c s start parent w = (Inr e, w')" "task_consistent (db w)"
    and "find_row t_id (t_id t) (tasks (db w)) = Some t'" "t_state t' = TaskActive"
    and "\<forall>x \<in> set (execs (db w)). e_task x = t_id t \<longrightarrow> \<not> open_exec x"
    and "s \<in> {ExecDefined, ExecScheduled, ExecEnqueued}"
    and "max_retries (t_retry t') = -1 \<or> int (attempts (execs (db w)) (t_id t)) \<le> max_retries (t_retry t')"
  shows "task_consistent (db w')"
proof -
  have "e_id e \<notin> e_id ` set (execs (db w))" "e_task e = t_id t"
    and d: "db w' = (db w)\<lparr>execs := execs (db w) @ [e]\<rparr>"
    using define_exec_ok [OF assms(1)] by (auto simp: new_exec_row_def)
  moreover have "new_exec_ok e"
    using define_exec_ok [OF assms(1)] assms(6) define_exec_valid [OF assms(1)]
    by (auto simp: new_exec_ok_def exec_ok_def new_exec_row_def)
  ultimately show ?thesis
    using assms(2-5,7) unfolding d task_consistent_def by (intro consistent_new_exec) simp_all
qed

lemma request_execution_db: "request_execution c t i stamp w = (Inr u, w') \<Longrightarrow>
    (\<And>x w1. stamp w = (Inr x, w1) \<Longrightarrow> db w1 = db w) \<Longrightarrow> db w' = db w"
  by (auto simp: request_execution_def monad_results split: option.splits dest!: send_new_ok)

lemma keep_new_pending: "evolves keep.W (process_new_pending_task c i)"
  unfolding process_new_pending_task_def
proof (rule keep_txn)
  fix w w' :: world and a
  assume ok: "task_consistent (db w)"
    and run: "bnd (wrap PersistenceError (get_task i)) (\<lambda>t. if t_state t \<noteq> TaskPending then ret () else
      bnd (wrap PersistenceError (mark_task_active (t_id t))) (\<lambda>_. start_first_instance c t)) w = (Inr a, w')"
  then obtain t w1 where t: "find_row t_id i (tasks (db w)) = Some t" "db w1 = db w"
    and body: "(if t_state t \<noteq> TaskPending then ret () else
      bnd (wrap PersistenceError (mark_task_active (t_id t))) (\<lambda>_. start_first_instance c t)) w1 = (Inr a, w')"
    by (auto simp: monad_results dest!: get_task_ok)
  have i: "t_id t = i" using t(1) by (rule task_found)
  show "task_consistent (db w')"
  proof (cases "t_state t = TaskPending")
    case True
    then obtain w2 where act: "update_task_state i TaskActive w1 = (Inr (), w2)"
      and start: "start_first_instance c t w2 = (Inr a, w')"
      using body i by (auto simp: monad_results mark_task_active_def)
    have none: "\<forall>e \<in> set (execs (db w)). e_task e \<noteq> i"
      using consistentD(4) [OF ok [unfolded task_consistent_def]] t(1) True by (fastforce simp: fits_def)
    have c2: "task_consistent (db w2)"
      using upd_task [OF act, of "{}" "{}"] ok t(2) by (simp add: task_consistent_def ended_task_def)
    have x2: "execs (db w2) = execs (db w)"
      and t2: "find_row t_id i (tasks (db w2)) = Some (t\<lparr>t_state := TaskActive\<rparr>)"
      using update_task_state_ok [OF act] t by (auto simp: task_state_set)
    from start obtain e w3 s k st where def: "define_exec t k s st None w2 = (Inr e, w3)"
      and s: "s \<in> {ExecDefined, ExecScheduled, ExecEnqueued}"
      and rest: "do_if (e_class e = ExecImmediate) (bnd (wrap PersistenceError (mark_task_exec_queued (e_id e)))
        (\<lambda>_. request_execution c t (e_id e) time_now)) w3 = (Inr a, w')"
      by (auto simp: start_first_instance_def monad_results define_new_task_exec_instance_def
          split: schedule_class.splits)
    have "task_consistent (db w3)"
    proof (rule define_exec_keeps [OF def c2])
      show "max_retries (t_retry (t\<lparr>t_state := TaskActive\<rparr>)) = -1 \<or>
          int (attempts (execs (db w2)) (t_id t)) \<le> max_retries (t_retry (t\<lparr>t_state := TaskActive\<rparr>))"
        using found_valid_retry [OF ok t(1)] none x2 i by (auto simp: no_attempts valid_retry_def)
    qed (use t2 i x2 none s in auto)
    then show ?thesis
      using rest by (auto simp: monad_results mark_task_exec_queued_def task_consistent_def do_if_def
          split: if_splits dest!: request_execution_db upd_exec [where X = "{}"])
  next
    case False
    then show ?thesis using body ok t(2) by simp
  qed
qed

lemma fetch_body:
  assumes "bnd (fetch_exec_instance_and_parent_task i) f w = (Inr a, w')"
  shows "\<exists>e t w1. find_row e_id i (execs (db w)) = Some e \<and> e_id e = i \<and>
    find_row t_id (e_task e) (tasks (db w)) = Some t \<and> t_id t = e_task e \<and> db w1 = db w \<and>
    f (e, t) w1 = (Inr a, w')"
proof -
  obtain e t w1 where "find_row e_id i (execs (db w)) = Some e"
    "find_row t_id (e_task e) (tasks (db w)) = Some t" "db w1 = db w" "f (e, t) w1 = (Inr a, w')"
    using assms by (auto simp: bnd_result_Inr dest!: fetch_exec_ok)
  then show ?thesis by (intro exI [of _ e] exI [of _ t] exI [of _ w1]) (auto dest: exec_found task_found)
qed

lemma keep_starting: "evolves keep.W (process_task_execution_starting c i stamp)"
  unfolding process_task_execution_starting_def
proof (rule keep_txn, drule fetch_body, elim exE conjE)
  fix w a w' e t w1
  assume ok: "task_consistent (db w)" "db w1 = db w"
    and "(case (e, t) of (e, t) \<Rightarrow> if is_state_at_or_past (e_state e) ExecEnqueued then ret ()
      else bnd (wrap PersistenceError (mark_task_exec_queued (e_id e)))
        (\<lambda>_. request_execution c t (e_id e) (ret stamp))) w1 = (Inr a, w')"
  then show "task_consistent (db w')"
    by (auto simp: monad_results mark_task_exec_queued_def task_consistent_def split: if_splits
      dest!: request_execution_db upd_exec [where X = "{}"])
qed

text \<open>The handlers that finalize an instance: afterwards its task has no open instance.\<close>

lemma keep_finalizing:
  assumes "\<And>e t w a w'. task_consistent (db w) \<Longrightarrow> find_row t_id (e_task e) (tasks (db w)) = Some t \<Longrightarrow>
      t_id t = e_task e \<Longrightarrow> \<forall>r \<in> set (execs (db w)). e_task r = e_task e \<longrightarrow> \<not> open_exec r \<Longrightarrow>
      f e t w = (Inr a, w') \<Longrightarrow> task_consistent (db w')"
  shows "evolves keep.W (wrap TaskSchedulerError (in_txn (
     bnd (fetch_exec_instance_and_parent_task i) (\<lambda>(e, t).
     if is_state_at_or_past (e_state e) ExecFinalized then ret ()
     else bnd (wrap PersistenceError (mark_task_exec_finalized (e_id e))) (\<lambda>_. f e t)))))"
proof (rule keep_txn)
  fix w w' :: world and a
  assume ok: "task_consistent (db w)"
    and "bnd (fetch_exec_instance_and_parent_task i) (\<lambda>(e, t).
      if is_state_at_or_past (e_state e) ExecFinalized then ret ()
      else bnd (wrap PersistenceError (mark_task_exec_finalized (e_id e))) (\<lambda>_. f e t)) w = (Inr a, w')"
  then obtain e t w1 where e: "find_row e_id i (execs (db w)) = Some e" "e_id e = i"
    and t: "find_row t_id (e_task e) (tasks (db w)) = Some t" "t_id t = e_task e" and w1: "db w1 = db w"
    and body: "(if is_state_at_or_past (e_state e) ExecFinalized then ret ()
      else bnd (wrap PersistenceError (mark_task_exec_finalized (e_id e))) (\<lambda>_. f e t)) w1 = (Inr a, w')"
    by (auto dest!: fetch_body)
  show "task_consistent (db w')"
  proof (cases "is_state_at_or_past (e_state e) ExecFinalized")
    case True
    then show ?thesis using body ok w1 by simp
  next
    case False
    then obtain w2 where fin: "update_task_execution_state i ExecFinalized no_update w1 = (Inr (), w2)"
      and rest: "f e t w2 = (Inr a, w')"
      using body e(2) by (auto simp: monad_results mark_task_exec_finalized_def)
    have "task_consistent (db w2) \<and> tasks (db w2) = tasks (db w1) \<and>
        (\<forall>r \<in> set (execs (db w2)). e_task r = e_task e \<longrightarrow> \<not> open_exec r)"
      by (rule finalize_ok [OF fin]) (use ok e w1 in simp_all)
    then show ?thesis using assms [of w2 e t a w'] rest t w1 by simp
  qed
qed

text \<open>Without an open instance a task may end.\<close>

lemma end_task:
  assumes "update_task_state i s w = (Inr x, w')" "task_consistent (db w)" "s \<noteq> TaskPending"
    and "\<forall>r \<in> set (execs (db w)). e_task r = i \<longrightarrow> \<not> open_exec r"
  shows "task_consistent (db w')"
  using upd_task [OF assms(1), of "{}" "{}"] assms(2-4) live_open
  unfolding task_consistent_def by blast

lemma keep_complete: "evolves keep.W (process_task_execution_complete i)"
  unfolding process_task_execution_complete_def
  by (rule keep_finalizing) (auto simp: monad_results mark_task_complete_def dest: end_task)

lemma keep_engine_failed: "evolves keep.W (process_task_execution_engine_failed i)"
  unfolding process_task_execution_engine_failed_def
proof (rule keep_finalizing)
  fix e t w a w'
  assume ok: "task_consistent (db w)" "t_id t = e_task e"
    "\<forall>r \<in> set (execs (db w)). e_task r = e_task e \<longrightarrow> \<not> open_exec r"
    and run: "bnd (wrap PersistenceError (mark_task_failed (t_id t))) (\<lambda>_.
      wrap PersistenceError (record_task_engine_failure t (e_id e)
        (''task engine failed to operate on execution instance '' @ e_id e))) w = (Inr a, w')"
  then obtain w1 where "update_task_state (e_task e) TaskFailed w = (Inr (), w1)"
    and rest: "record_task_engine_failure t (e_id e)
        (''task engine failed to operate on execution instance '' @ e_id e) w1 = (Inr a, w')"
    by (auto simp: monad_results mark_task_failed_def)
  then have "task_consistent (db w1)" using ok by (auto dest: end_task)
  then show "task_consistent (db w')"
    using evolvesD [OF keep.ev_record_engine_failure rest] by (simp add: keep.W_def keeps_task_def)
qed

text \<open>When no instance is open, the attempts of a task are those that failed: what is counted for the
  decision. A retry is granted only within the budget.\<close>

lemma failed_attempts:
  assumes "task_consistent (db w)" "\<forall>r \<in> set (execs (db w)). e_task r = i \<longrightarrow> \<not> open_exec r"
  shows "length (page_rows (page.truncate (any_exec\<lparr>ef_terminals := [ExecFailed], ef_task := Some i\<rparr>))
      (sort_key e_created (filter (exec_matches (any_exec\<lparr>ef_terminals := [ExecFailed], ef_task := Some i\<rparr>)) (execs (db w)))))
    = attempts (execs (db w)) i"
proof -
  have "exec_matches (any_exec\<lparr>ef_terminals := [ExecFailed], ef_task := Some i\<rparr>) e \<longleftrightarrow> e_task e = i \<and> may_fail e"
    if "e \<in> set (execs (db w))" for e
    using that assms closed_outcome [of e] consistentD(5) [OF assms(1) [unfolded task_consistent_def]]
    by (auto simp: exec_matches_def any_exec_def may_fail_def rows_sound_def in_or_any_def due_by_def)
  then show ?thesis
    by (simp add: attempts_def page_rows_def any_exec_def page.truncate_def cong: filter_cong)
qed

lemma retry_in_budget:
  assumes "decide_execution_retry b e p n = (delay, retry)" "retry"
  shows "max_retries p < 0 \<or> int n \<le> max_retries p"
  using assms by (auto simp: decide_execution_retry_def Let_def next_delay_def split: if_splits)

lemma keep_failed: "evolves keep.W (process_task_execution_failed c i stamp)"
  unfolding process_task_execution_failed_def
proof (rule keep_finalizing)
  fix e t w a w'
  assume ok: "task_consistent (db w)" "find_row t_id (e_task e) (tasks (db w)) = Some t" "t_id t = e_task e"
    "\<forall>r \<in> set (execs (db w)). e_task r = e_task e \<longrightarrow> \<not> open_exec r"
    and run: "do_if (t_state t = TaskActive) (retry_or_fail c e t stamp) w = (Inr a, w')"
  show "task_consistent (db w')"
  proof (cases "t_state t = TaskActive")
    case True
    obtain failed w1 where w1: "db w1 = db w"
      and failed: "failed = page_rows (page.truncate (any_exec\<lparr>ef_terminals := [ExecFailed], ef_task := Some (t_id t)\<rparr>))
        (sort_key e_created (filter (exec_matches (any_exec\<lparr>ef_terminals := [ExecFailed], ef_task := Some (t_id t)\<rparr>)) (execs (db w))))"
      and rest: "(case decide_execution_retry (ts_backoff c) e (t_retry t) (length (failed :: exec_row list)) of
         (delay, retry) \<Rightarrow> if \<not> retry then wrap PersistenceError (mark_task_failed (t_id t))
         else bnd (wrap PersistenceError (define_new_task_retry_exec_instance t e (stamp + delay)))
           (\<lambda>_. ret ())) w1 = (Inr a, w')"
      using run True
      by (auto simp: retry_or_fail_def list_task_executions_def monad_results dest!: list_all_executions_ok)
    obtain delay retry where d: "decide_execution_retry (ts_backoff c) e (t_retry t) (length failed) = (delay, retry)"
      by (rule prod.exhaust)
    show ?thesis
    proof (cases retry)
      case True
      then obtain e' where "define_exec t ExecRetry ExecScheduled (Some (stamp + delay)) (Some (e_id e)) w1
          = (Inr e', w')"
        using rest d by (auto simp: monad_results define_new_task_retry_exec_instance_def)
      from define_exec_keeps [OF this] show ?thesis
        using ok w1 \<open>t_state t = TaskActive\<close> retry_in_budget [OF d True] failed_attempts [OF ok(1,4)] failed
          found_valid_retry [OF ok(1,2)]
        by (auto simp: valid_retry_def)
    next
      case False
      then have "update_task_state (e_task e) TaskFailed w1 = (Inr a, w')"
        using rest d ok(3) by (simp add: mark_task_failed_def wrap_result_Inr)
      from end_task [OF this] show ?thesis using ok w1 by simp
    qed
  next
    case False
    then show ?thesis using run ok(1) by simp
  qed
qed

lemma cancel_each_keeps:
  assumes "cancel_each stamp es w = (Inr u, w')" "task_consistent_but X (db w)"
  shows "task_consistent_but X (db w')"
  using assms
proof (induction es arbitrary: w)
  case (Cons e es)
  then obtain w1 where "update_task_execution_state (e_id e) ExecCancelled
      (no_update\<lparr>eu_error := Some ''parent task cancelled'', eu_at := Some stamp\<rparr>) w = (Inr (), w1)"
    and "cancel_each stamp es w1 = (Inr u, w')"
    by (auto simp: monad_results mark_task_exec_cancelled_def)
  then show ?case using Cons.IH upd_exec Cons.prems(2) by blast
qed simp

lemma cancel_ongoing_keeps:
  assumes "cancel_ongoing_exec_instances_of_task t stamp w = (Inr u, w')" "task_consistent_but X (db w)"
  shows "task_consistent_but X (db w')"
  using assms
  by (auto simp: cancel_ongoing_exec_instances_of_task_def list_task_executions_def monad_results
      dest!: list_all_executions_ok dest: cancel_each_keeps)

text \<open>Ending a task and cancelling what is left of it.\<close>

lemma cancel_ongoing_closes:
  assumes "cancel_ongoing_exec_instances_of_task t stamp w = (Inr u, w')"
    and "task_consistent_but {t_id t} (db w)"
  shows "task_consistent (db w')"
  using cancel_ongoing_keeps [OF assms] cancel_ongoing_ok [OF assms(1)] by (intro consistent_less) auto

lemma keep_exec_timed_out: "evolves keep.W (process_task_execution_timed_out i stamp)"
  unfolding process_task_execution_timed_out_def
proof (rule keep_txn, drule fetch_body, elim exE conjE)
  fix w a w' e t w0
  assume ok: "task_consistent (db w)" "find_row e_id i (execs (db w)) = Some e" "e_id e = i"
      "t_id t = e_task e" "db w0 = db w"
    and body: "(case (e, t) of (e, t) \<Rightarrow> if has_ended (e_state e) then ret () else
      bnd (gets time_text) (\<lambda>tx.
      bnd (wrap PersistenceError (mark_task_exec_failed i (''timed out at '' @ tx stamp) None stamp)) (\<lambda>_.
      bnd (wrap PersistenceError (mark_task_exec_finalized (e_id e))) (\<lambda>_.
      bnd (wrap PersistenceError (mark_task_timed_out (t_id t))) (\<lambda>_.
      cancel_ongoing_exec_instances_of_task t stamp))))) w0 = (Inr a, w')"
  show "task_consistent (db w')"
  proof (cases "has_ended (e_state e)")
    case True
    then show ?thesis using ok body by simp
  next
    case False
    then obtain u w1 w2 w3 where one: "update_task_execution_state i ExecFailed u w0 = (Inr (), w1)"
      and two: "update_task_execution_state i ExecFinalized no_update w1 = (Inr (), w2)"
      and three: "update_task_state (e_task e) TaskTimeout w2 = (Inr (), w3)"
      and four: "cancel_ongoing_exec_instances_of_task t stamp w3 = (Inr a, w')"
      using body ok
      by (auto simp: monad_results mark_task_exec_failed_def mark_task_exec_finalized_def
          mark_task_timed_out_def)
    have c1: "task_consistent (db w1)"
      using upd_exec [OF one, of "{}"] ok by (simp add: task_consistent_def)
    obtain e1 where e1: "find_row e_id i (execs (db w1)) = Some e1" "e_task e1 = e_task e"
      using update_task_execution_state_ok [OF one] ok(2,5) by (auto simp: find_set_exec_state)
    have "task_consistent (db w3)"
      using finalize_ok [OF two c1 e1(1)] e1(2) by (intro end_task [OF three]) simp_all
    then show ?thesis using cancel_ongoing_keeps [OF four] by (simp add: task_consistent_def)
  qed
qed

lemma keep_ending:
  assumes "task_consistent (db w)" "update_task_state (t_id t) s w = (Inr x, w1)" "s \<noteq> TaskPending"
    and "cancel_ongoing_exec_instances_of_task t stamp w1 = (Inr a, w')"
  shows "task_consistent (db w')"
  using upd_task [OF assms(2), of "{}" "{t_id t}"] assms(1,3)
  by (intro cancel_ongoing_closes [OF assms(4)]) (simp add: task_consistent_def)

lemma keep_cancel_task: "evolves keep.W (process_cancel_task i stamp)"
  unfolding process_cancel_task_def
proof (rule keep_txn)
  fix w w' :: world and a
  assume ok: "task_consistent (db w)"
    and "bnd (wrap PersistenceError (get_task i)) (\<lambda>t.
       if t_state t \<notin> {TaskPending, TaskActive, TaskCancelling} then ret ()
       else bnd (do_if (t_state t \<noteq> TaskCancelling) (wrap PersistenceError (mark_task_cancelling (t_id t)))) (\<lambda>_.
         bnd (wrap PersistenceError (mark_task_cancelled (t_id t))) (\<lambda>_.
         cancel_ongoing_exec_instances_of_task t stamp))) w = (Inr a, w')"
  then obtain t w0 where w0: "db w0 = db w"
    and body: "(if t_state t \<notin> {TaskPending, TaskActive, TaskCancelling} then ret ()
       else bnd (do_if (t_state t \<noteq> TaskCancelling) (wrap PersistenceError (mark_task_cancelling (t_id t)))) (\<lambda>_.
         bnd (wrap PersistenceError (mark_task_cancelled (t_id t))) (\<lambda>_.
         cancel_ongoing_exec_instances_of_task t stamp))) w0 = (Inr a, w')"
    by (auto simp: monad_results dest!: get_task_ok)
  show "task_consistent (db w')"
  proof (cases "t_state t \<in> {TaskPending, TaskActive, TaskCancelling}")
    case True
    then obtain w1 w2 where one: "do_if (t_state t \<noteq> TaskCancelling)
        (wrap PersistenceError (mark_task_cancelling (t_id t))) w0 = (Inr (), w1)"
      and two: "update_task_state (t_id t) TaskCancelled w1 = (Inr (), w2)"
      and three: "cancel_ongoing_exec_instances_of_task t stamp w2 = (Inr a, w')"
      using body by (auto simp: monad_results mark_task_cancelled_def)
    have "task_consistent (db w1)"
      using one ok w0 upd_task [of "t_id t" TaskCancelling w0 _ w1 "{}" "{}"]
      by (auto simp: do_if_def mark_task_cancelling_def wrap_result_Inr task_consistent_def ended_task_def
          split: if_splits)
    then show ?thesis using keep_ending [OF _ two _ three] by simp
  next
    case False
    then show ?thesis using body ok w0 by simp
  qed
qed

lemma keep_task_timeout: "evolves keep.W (process_task_timeout i stamp)"
  unfolding process_task_timeout_def
  by (rule keep_txn)
    (auto simp: monad_results mark_task_timed_out_def split: if_splits dest!: get_task_ok
      intro: keep_ending [rotated])

interpretation keep: task_handlers keeps_task
  by unfold_locales (rule keep_new_pending keep_starting keep_complete keep_failed keep_engine_failed
      keep_exec_timed_out keep_cancel_task keep_task_timeout)+

end
