(* ===== verification/Workflow_Consistency.thy ===== *)
theory Workflow_Consistency
  imports Workflow_Steps Task_Consistency
begin

text \<open>
  The invariant of the workflow tables: a step that has been started has only complete parents, a
  complete workflow has only complete steps, a cancelled one only terminal steps, and a step has at
  most one live task. Every critical section of the workflow scheduler keeps it.
\<close>

section \<open>The invariant\<close>

text \<open>What never changes of the steps: identifier, name, workflow and parents.\<close>

type_synonym skeleton = "ident \<times> string \<times> ident \<times> string list"

definition skel :: "step_row \<Rightarrow> skeleton" where
  "skel s = (s_id s, s_name s, s_workflow s, s_parents s)"

definition shape_ok :: "skeleton list \<Rightarrow> dep_row list \<Rightarrow> bool" where
  "shape_ok ks ds \<longleftrightarrow> distinct (map fst ks) \<and> distinct (map (\<lambda>(i, n, g, ps). (g, n)) ks) \<and>
     (\<forall>(i, n, g, ps) \<in> set ks. distinct ps \<and>
        (\<forall>m \<in> set ps. \<exists>r \<in> set ds. \<exists>qs. d_step r = i \<and> (d_on r, m, g, qs) \<in> set ks)) \<and>
     (\<forall>r \<in> set ds. d_step r \<in> fst ` set ks \<and> d_on r \<in> fst ` set ks)"

definition started :: "step_state \<Rightarrow> bool" where
  "started s \<longleftrightarrow> s \<in> {StepPending, StepRunning, StepComplete, StepFailed, StepCancelling}"

definition parents_done :: "tables \<Rightarrow> step_row \<Rightarrow> bool" where
  "parents_done d s \<longleftrightarrow> (\<forall>r \<in> set (deps d). d_step r = s_id s \<longrightarrow>
     (\<forall>p \<in> set (steps d). s_id p = d_on r \<longrightarrow> s_state p = StepComplete))"

definition settled :: "tables \<Rightarrow> workflow_row \<Rightarrow> bool" where
  "settled d w \<longleftrightarrow> (\<forall>s \<in> set (steps d). s_workflow s = w_id w \<longrightarrow>
     (w_state w = WfComplete \<longrightarrow> s_state s = StepComplete) \<and>
     (w_state w = WfCancelled \<longrightarrow> is_terminal_step_state (s_state s)))"

definition live_task :: "task_row list \<Rightarrow> ident \<Rightarrow> bool" where
  "live_task ts i \<longleftrightarrow> (case find_row t_id i ts of None \<Rightarrow> False | Some t \<Rightarrow> t_state t \<in> {TaskPending, TaskActive})"

definition links_ok :: "tables \<Rightarrow> bool" where
  "links_ok d \<longleftrightarrow> (\<forall>l \<in> set (links d). l_task l \<in> t_id ` set (tasks d) \<and> l_step l \<in> s_id ` set (steps d)) \<and>
     (\<forall>l \<in> set (links d). \<forall>k \<in> set (links d). l_step l = l_step k \<longrightarrow>
        live_task (tasks d) (l_task l) \<longrightarrow> live_task (tasks d) (l_task k) \<longrightarrow> l_task l = l_task k)"

definition workflow_consistent :: "tables \<Rightarrow> bool" where
  "workflow_consistent d \<longleftrightarrow> distinct (map w_id (workflows d)) \<and> shape_ok (map skel (steps d)) (deps d) \<and>
     (\<forall>s \<in> set (steps d). started (s_state s) \<longrightarrow> parents_done d s) \<and>
     (\<forall>w \<in> set (workflows d). settled d w) \<and> links_ok d"

lemma wf_consistentD:
  assumes "workflow_consistent d"
  shows "distinct (map w_id (workflows d))" "shape_ok (map skel (steps d)) (deps d)"
    "s \<in> set (steps d) \<Longrightarrow> started (s_state s) \<Longrightarrow> parents_done d s"
    "w \<in> set (workflows d) \<Longrightarrow> settled d w" "links_ok d"
  using assms by (simp_all add: workflow_consistent_def)

lemma wf_consistent_cong:
  assumes "workflows d' = workflows d" "steps d' = steps d" "deps d' = deps d" "links_ok d \<Longrightarrow> links_ok d'"
    "workflow_consistent d"
  shows "workflow_consistent d'"
proof -
  have "parents_done d' s = parents_done d s" "settled d' w = settled d w" for s w
    unfolding parents_done_def settled_def assms(2,3) by (rule refl)+
  then show ?thesis
    using wf_consistentD [OF assms(5)] assms(4) unfolding workflow_consistent_def assms(1-3) by blast
qed

lemma shape_ids: "shape_ok (map skel ss) ds \<Longrightarrow> distinct (map s_id ss)"
  by (simp add: shape_ok_def skel_def comp_def)

lemma shape_edges:
  assumes "shape_ok (map skel ss) ds" "s \<in> set ss"
  shows "distinct (s_parents s)"
    and "\<forall>m \<in> set (s_parents s). \<exists>r \<in> set ds. \<exists>qs. d_step r = s_id s \<and>
      (d_on r, m, s_workflow s, qs) \<in> set (map skel ss)"
proof -
  have mem: "skel s \<in> set (map skel ss)" using assms(2) by simp
  have "case skel s of (i, n, g, ps) \<Rightarrow> distinct ps \<and>
      (\<forall>m \<in> set ps. \<exists>r \<in> set ds. \<exists>qs. d_step r = i \<and> (d_on r, m, g, qs) \<in> set (map skel ss))"
    using assms(1) unfolding shape_ok_def by (elim conjE) (rule bspec [OF _ mem])
  then show "distinct (s_parents s)"
    and "\<forall>m \<in> set (s_parents s). \<exists>r \<in> set ds. \<exists>qs. d_step r = s_id s \<and>
      (d_on r, m, s_workflow s, qs) \<in> set (map skel ss)"
    unfolding skel_def [of s] prod.case by blast+
qed

lemma shape_rows_ok:
  assumes "shape_ok (map skel (steps d)) (deps d)"
  shows "step_rows_ok (steps_of wid d)"
proof -
  have names: "distinct (map (\<lambda>s. (s_workflow s, s_name s)) (steps d))"
    using assms by (simp add: shape_ok_def skel_def comp_def)
  have "distinct (map s_name (steps_of wid d))"
    using names by (auto simp: steps_of_def distinct_map inj_on_def)
  moreover have "distinct (s_parents s) \<and> set (s_parents s) \<subseteq> s_name ` set (steps_of wid d)"
    if "s \<in> set (steps_of wid d)" for s
  proof -
    from that have s: "s \<in> set (steps d)" "s_workflow s = wid" by (auto simp: steps_of_def)
    note s_edges = shape_edges [OF assms s(1)]
    have ps: "distinct (s_parents s)" by (rule s_edges)
    have up: "\<forall>m \<in> set (s_parents s). \<exists>q qs. (q, m, wid, qs) \<in> skel ` set (steps d)"
      using s_edges(2) s(2) by (metis list.set_map)
    have "m \<in> s_name ` set (steps_of wid d)" if "m \<in> set (s_parents s)" for m
      using up that by (auto simp: skel_def steps_of_def image_iff)
    with ps show ?thesis by blast
  qed
  ultimately show ?thesis by (simp add: step_rows_ok_def)
qed

section \<open>The writes\<close>

lemma started_from: "moves step_transitions s s' \<Longrightarrow> started s' \<Longrightarrow> s' \<noteq> StepPending \<Longrightarrow> started s"
  by (cases s) (auto simp: started_def moves_def succs_def)

lemma complete_stays: "\<not> moves step_transitions StepComplete s"
  by (simp add: moves_def succs_def)

lemma terminal_stays:
  "moves step_transitions s s' \<Longrightarrow> is_terminal_step_state s \<Longrightarrow> s' \<noteq> StepDefined \<Longrightarrow> is_terminal_step_state s'"
  by (cases s) (auto simp: is_terminal_step_state_def moves_def succs_def)

text \<open>A change of the steps that leaves their skeletons alone.\<close>

lemma wf_change_steps:
  assumes "workflow_consistent d" "\<And>s. skel (f s) = skel s"
    and "\<And>s. s \<in> set (steps d) \<Longrightarrow> s_state s = StepComplete \<Longrightarrow> s_state (f s) = StepComplete"
    and "\<And>s. s \<in> set (steps d) \<Longrightarrow> started (s_state (f s)) \<Longrightarrow> started (s_state s) \<or> parents_done d s"
    and "\<And>s w. s \<in> set (steps d) \<Longrightarrow> w \<in> set (workflows d) \<Longrightarrow> s_workflow s = w_id w \<Longrightarrow>
      w_state w = WfCancelled \<Longrightarrow> is_terminal_step_state (s_state s) \<Longrightarrow> is_terminal_step_state (s_state (f s))"
  shows "workflow_consistent (d\<lparr>steps := map f (steps d)\<rparr>)"
proof -
  let ?d = "d\<lparr>steps := map f (steps d)\<rparr>"
  note old = wf_consistentD [OF assms(1)]
  have id: "s_id (f s) = s_id s" "s_workflow (f s) = s_workflow s" for s
    using assms(2) [of s] by (simp_all add: skel_def)
  have up: "parents_done ?d (f s)" if "parents_done d s" for s
    using that assms(3) by (auto simp: parents_done_def id)
  have "started (s_state (f s)) \<longrightarrow> parents_done ?d (f s)" if "s \<in> set (steps d)" for s
    using assms(4) [OF that] old(3) [OF that] up by blast
  moreover have "settled ?d w" if w: "w \<in> set (workflows d)" for w
    using old(4) [OF w] assms(3) assms(5) [OF _ w] by (auto simp: settled_def id)
  moreover have "map skel (map f (steps d)) = map skel (steps d)" by (simp add: comp_def assms(2))
  moreover have "s_id ` set (map f (steps d)) = s_id ` set (steps d)" by (simp add: image_image id)
  then have "links_ok ?d" using old(5) by (simp add: links_ok_def)
  ultimately show ?thesis using old(1,2) by (simp add: workflow_consistent_def del: map_map)
qed

lemma skel_step_columns: "skel (step_columns s t r\<lparr>s_updated := now\<rparr>) = skel r"
  by (cases s) (simp_all add: skel_def step_columns_def)

lemma state_step_columns: "s_state (step_columns s t r\<lparr>s_updated := now\<rparr>) = s"
  by (cases s) (simp_all add: step_columns_def)

lemma wf_set_steps:
  assumes "workflow_consistent d"
    and "\<And>s. s \<in> set (steps d) \<Longrightarrow> s_id s \<in> set ids \<Longrightarrow> s_workflow s = wid \<Longrightarrow> moves step_transitions (s_state s) new"
    and "\<And>s. new = StepPending \<Longrightarrow> s \<in> set (steps d) \<Longrightarrow> s_id s \<in> set ids \<Longrightarrow> s_workflow s = wid \<Longrightarrow> parents_done d s"
    and "\<And>w. new = StepDefined \<Longrightarrow> w \<in> set (workflows d) \<Longrightarrow> w_id w = wid \<Longrightarrow> w_state w \<noteq> WfCancelled"
  shows "workflow_consistent (set_step_states wid ids new t now d)"
proof -
  let ?p = "\<lambda>s. s_id s \<in> set ids \<and> s_workflow s = wid"
  let ?f = "\<lambda>s. if ?p s then step_columns new t s\<lparr>s_updated := now\<rparr> else s"
  have "workflow_consistent (d\<lparr>steps := map ?f (steps d)\<rparr>)"
  proof (rule wf_change_steps [OF assms(1)], goal_cases)
    case (1 s)
    then show ?case by (simp add: skel_step_columns)
  next
    case (2 s)
    then show ?case using assms(2) [OF 2(1)] complete_stays by auto
  next
    case (3 s)
    then show ?case using assms(2,3) [of s] started_from by (auto simp: state_step_columns split: if_splits)
  next
    case (4 s w)
    then show ?case using assms(2) [of s] assms(4) [of w] terminal_stays by (auto simp: state_step_columns)
  qed
  then show ?thesis by (simp add: set_step_states_def update_rows_def)
qed

lemma workflow_columns_key [simp]:
  "w_id (workflow_columns old new t w) = w_id w" "w_state (workflow_columns old new t w) = new"
  by (cases new; simp add: workflow_columns_def)+

lemma wf_set_workflow:
  assumes "workflow_consistent d"
    and "\<And>s. new = WfComplete \<Longrightarrow> s \<in> set (steps d) \<Longrightarrow> s_workflow s = i \<Longrightarrow> s_state s = StepComplete"
    and "\<And>s. new = WfCancelled \<Longrightarrow> s \<in> set (steps d) \<Longrightarrow> s_workflow s = i \<Longrightarrow> is_terminal_step_state (s_state s)"
  shows "workflow_consistent (set_workflow_state i old new t now d)"
proof -
  let ?f = "\<lambda>w. if w_id w = i then workflow_columns old new t w\<lparr>w_updated := now\<rparr> else w"
  note old = wf_consistentD [OF assms(1)]
  have "map w_id (map ?f (workflows d)) = map w_id (workflows d)" by simp
  moreover have set_f: "settled (d\<lparr>workflows := ws\<rparr>) (?f w)" if w: "w \<in> set (workflows d)" for w ws
    using old(4) [OF w] assms(2,3) by (auto simp: settled_def)
  have "\<forall>w \<in> set (map ?f (workflows d)). settled (d\<lparr>workflows := ws\<rparr>) w" for ws
    unfolding set_map using set_f by blast
  moreover have same: "set_workflow_state i old new t now d = d\<lparr>workflows := map ?f (workflows d)\<rparr>"
    by (simp add: set_workflow_state_def update_rows_def)
  moreover have "parents_done (d\<lparr>workflows := ws\<rparr>) = parents_done d" "links_ok (d\<lparr>workflows := ws\<rparr>) = links_ok d"
    for ws by (simp_all add: parents_done_def links_ok_def fun_eq_iff)
  ultimately show ?thesis
    unfolding same workflow_consistent_def using old by (simp del: map_map list.set_map)
qed

section \<open>The critical sections\<close>

definition keeps_wf :: "tables \<Rightarrow> tables \<Rightarrow> bool" where
  "keeps_wf d d' \<longleftrightarrow> (workflow_consistent d \<longrightarrow> workflow_consistent d')"

interpretation keep_wf: log_evolution keeps_wf
proof unfold_locales
  show "keeps_wf d (d\<lparr>events := vs\<rparr>)" for d vs
    unfolding keeps_wf_def by (intro impI, rule wf_consistent_cong [of _ d]) (simp_all add: links_ok_def)
qed (auto simp: keeps_wf_def)

lemma keep_wfI:
  assumes "\<And>w a w'. workflow_consistent (db w) \<Longrightarrow> p w = (Inr a, w') \<Longrightarrow> workflow_consistent (db w')"
  shows "evolves_ok keep_wf.W p"
  by (rule evolves_okI) (simp add: keep_wf.W_def keeps_wf_def assms)

lemma wf_same_tables:
  assumes "workflow_consistent d" "workflows d' = workflows d" "steps d' = steps d" "deps d' = deps d"
    "tasks d' = tasks d" "links d' = links d"
  shows "workflow_consistent d'"
  using assms by (intro wf_consistent_cong [OF assms(2-4) _ assms(1)]) (simp add: links_ok_def)

lemma wf_update_state:
  assumes "update_workflow_state i new t w = (Inr x, w')" "workflow_consistent (db w)"
    and "\<And>s. new = WfComplete \<Longrightarrow> s \<in> set (steps (db w)) \<Longrightarrow> s_workflow s = i \<Longrightarrow> s_state s = StepComplete"
    and "\<And>s. new = WfCancelled \<Longrightarrow> s \<in> set (steps (db w)) \<Longrightarrow> s_workflow s = i \<Longrightarrow> is_terminal_step_state (s_state s)"
  shows "workflow_consistent (db w')"
proof -
  obtain r :: workflow_row and now where ws: "workflows (db w') = workflows (set_workflow_state i (w_state r) new t now (db w))"
    and same: "only_workflows (db w) (db w')"
    using update_workflow_state_ok [OF assms(1)] by blast
  have "workflow_consistent (set_workflow_state i (w_state r) new t now (db w))"
    by (rule wf_set_workflow [OF assms(2)]) (fact assms(3), fact assms(4))
  then show ?thesis
    by (rule wf_same_tables) (use ws same in \<open>simp_all add: only_workflows_def set_workflow_state_def\<close>)
qed

lemma wf_update_steps:
  assumes "update_workflow_step_state wid ids new t w = (Inr x, w')" "workflow_consistent (db w)"
    and "\<And>s. new = StepPending \<Longrightarrow> s \<in> set (steps (db w)) \<Longrightarrow> s_id s \<in> set ids \<Longrightarrow> s_workflow s = wid \<Longrightarrow>
      parents_done (db w) s"
    and "\<And>w0. new = StepDefined \<Longrightarrow> w0 \<in> set (workflows (db w)) \<Longrightarrow> w_id w0 = wid \<Longrightarrow> w_state w0 \<noteq> WfCancelled"
  shows "workflow_consistent (db w')"
proof -
  obtain now where mv: "\<forall>r \<in> set (steps (db w)). s_id r \<in> set ids \<and> s_workflow r = wid \<longrightarrow>
      moves step_transitions (s_state r) new"
    and ss: "steps (db w') = steps (set_step_states wid ids new t now (db w))"
    and same: "only_steps (db w) (db w')"
    using update_workflow_step_state_ok [OF assms(1)] by blast
  have "workflow_consistent (set_step_states wid ids new t now (db w))"
    by (rule wf_set_steps [OF assms(2)]) (use mv assms(3,4) in blast)+
  then show ?thesis
    by (rule wf_same_tables) (use ss same in \<open>simp_all add: only_steps_def set_step_states_def\<close>)
qed

lemma keep_section_workflow: "s \<notin> {WfComplete, WfCancelled} \<Longrightarrow> evolves_ok keep_wf.W (update_workflow_state i s t)"
  by (rule keep_wfI) (auto intro: wf_update_state)

lemma keep_section_steps:
  "new \<notin> {StepDefined, StepPending} \<Longrightarrow> evolves_ok keep_wf.W (update_workflow_step_state i ids new t)"
  by (rule keep_wfI) (auto intro: wf_update_steps)

text \<open>Fan-out: the steps found ready are the steps that are started.\<close>

lemma ready_parents: "ready_to_run d s \<Longrightarrow> parents_done d s"
  by (auto simp: ready_to_run_def parents_done_def list_all_iff)

lemma keep_fan_out: "evolves_ok keep_wf.W (fan_out i t)"
proof (rule keep_wfI)
  fix w w' :: world and a
  assume ok: "workflow_consistent (db w)" and run: "fan_out i t w = (Inr a, w')"
  show "workflow_consistent (db w')"
  proof (cases "filter (ready_to_run (db w)) (steps_of i (db w)) = []")
    case True
    then show ?thesis using ok run by (auto simp: fan_out_def monad_results dest!: ready_ok)
  next
    case False
    let ?rows = "filter (ready_to_run (db w)) (steps_of i (db w))"
    obtain w1 w2 where w1: "db w1 = db w"
      and upd: "update_workflow_step_state i (map s_id ?rows) StepPending t w1 = (Inr (), w')"
      using run False by (auto simp: fan_out_def monad_results mark_workflow_step_pending_def dest!: ready_ok)
    have ids: "distinct (map s_id (steps (db w)))" using ok by (auto dest: wf_consistentD(2) shape_ids)
    show ?thesis
    proof (rule wf_update_steps [OF upd])
      fix s
      assume s: "s \<in> set (steps (db w1))" "s_id s \<in> set (map s_id ?rows)"
      then obtain r where r: "r \<in> set ?rows" "s_id r = s_id s" by auto
      then have "r \<in> set (steps (db w))" by (auto simp: steps_of_def)
      then have "r = s" using ids r s(1) w1 by (auto simp: distinct_map dest: inj_onD)
      then show "parents_done (db w1) s" using r w1 by (auto intro: ready_parents)
    qed (use ok w1 in simp_all)
  qed
qed

text \<open>Settling: the listing shows every step of the workflow.\<close>

lemma list_all_steps:
  assumes "workflow_consistent (db w)" "list_workflow_steps i w = (Inr rows, w')"
  shows "set rows = set (steps_of i (db w)) \<and> db w' = db w"
  using list_workflow_steps_ok [OF assms(2)] topo_sort_set shape_rows_ok [OF wf_consistentD(2) [OF assms(1)]]
  by blast

lemma keep_settle: "evolves_ok keep_wf.W (settle_workflow_if_done w0 t)"
proof (rule keep_wfI)
  fix w w' :: world and a
  assume ok: "workflow_consistent (db w)" and run: "settle_workflow_if_done w0 t w = (Inr a, w')"
  show "workflow_consistent (db w')"
  proof (cases "w_state w0 \<in> {WfRunning, WfCancelling}")
    case False
    then show ?thesis using ok run by (simp add: settle_workflow_if_done_def)
  next
    case True
    obtain rows w1 where "list_workflow_steps (w_id w0) w = (Inr rows, w1)"
      and body: "(if w_state w0 = WfRunning then
          if \<exists>s \<in> set rows. s_state s \<noteq> StepComplete then ret False
          else bnd (wrap PersistenceError (mark_workflow_complete (w_id w0) t)) (\<lambda>_. ret True)
        else
          if \<exists>s \<in> set rows. s_state s \<in> {StepDefined, StepPending, StepRunning, StepCancelling}
          then ret False
          else bnd (wrap PersistenceError (mark_workflow_cancelled (w_id w0) t)) (\<lambda>_. ret True)) w1 = (Inr a, w')"
      using run True by (auto simp: settle_workflow_if_done_def bnd_result_Inr wrap_result_Inr)
    then have rows: "set rows = set (steps_of (w_id w0) (db w))" and w1: "db w1 = db w"
      using list_all_steps [OF ok] by blast+
    have all: "\<forall>s \<in> set (steps (db w1)). s_workflow s = w_id w0 \<longrightarrow> s \<in> set rows"
      using rows w1 by (simp add: steps_of_def)
    have ok1: "workflow_consistent (db w1)" using ok w1 by simp
    have ended: "x \<notin> {StepDefined, StepPending, StepRunning, StepCancelling} \<Longrightarrow> is_terminal_step_state x" for x
      by (cases x) (auto simp: is_terminal_step_state_def)
    show ?thesis
    proof (cases "w_state w0 = WfRunning")
      case True
      then consider "w' = w1" | "\<forall>s \<in> set rows. s_state s = StepComplete"
        "update_workflow_state (w_id w0) WfComplete t w1 = (Inr (), w')"
        using body by (auto simp: mark_workflow_complete_def bnd_result_Inr wrap_result_Inr split: if_splits)
      then show ?thesis
      proof cases
        case 2
        show ?thesis by (rule wf_update_state [OF 2(2) ok1]) (use 2(1) all in auto)
      qed (use ok1 in simp)
    next
      case False
      then consider "w' = w1"
        | "\<forall>s \<in> set rows. s_state s \<notin> {StepDefined, StepPending, StepRunning, StepCancelling}"
        "update_workflow_state (w_id w0) WfCancelled t w1 = (Inr (), w')"
        using body by (auto simp: mark_workflow_cancelled_def bnd_result_Inr wrap_result_Inr split: if_splits)
      then show ?thesis
      proof cases
        case 2
        have "is_terminal_step_state (s_state s)"
          if "s \<in> set (steps (db w1))" "s_workflow s = w_id w0" for s
          using ended 2(1) all that by blast
        then show ?thesis by (intro wf_update_state [OF 2(2) ok1]) simp_all
      qed (use ok1 in simp)
    qed
  qed
qed

text \<open>Revival: the steps that are reverted belong to a workflow that has just become RUNNING.\<close>

lemma wf_change_workflows:
  assumes "workflow_consistent d" "\<And>w. w_id (f w) = w_id w \<and> w_state (f w) = w_state w"
  shows "workflow_consistent (d\<lparr>workflows := map f (workflows d)\<rparr>)"
proof -
  note old = wf_consistentD [OF assms(1)]
  let ?d = "d\<lparr>workflows := map f (workflows d)\<rparr>"
  have fix1: "settled ?d (f w)" if "w \<in> set (workflows d)" for w
    using old(4) [OF that] assms(2) by (simp add: settled_def)
  have "\<forall>w \<in> set (map f (workflows d)). settled ?d w"
    unfolding set_map using fix1 by blast
  moreover have "map w_id (map f (workflows d)) = map w_id (workflows d)" by (simp add: assms(2))
  moreover have "parents_done ?d = parents_done d" "links_ok ?d = links_ok d"
    by (simp_all add: parents_done_def links_ok_def fun_eq_iff)
  ultimately show ?thesis
    unfolding workflow_consistent_def using old by (simp del: map_map list.set_map)
qed

lemma keep_deadline: "evolves_ok keep_wf.W (update_workflow_deadline i t)"
proof (rule keep_wfI)
  fix w w' :: world and a
  assume ok: "workflow_consistent (db w)" and run: "update_workflow_deadline i t w = (Inr a, w')"
  let ?f = "\<lambda>r. if w_id r = i then r\<lparr>w_deadline := t\<rparr> else r"
  let ?g = "\<lambda>r. if s_workflow r = i \<and> s_state r \<notin> {StepComplete, StepCancelled} then r\<lparr>s_deadline := t\<rparr> else r"
  let ?d = "(db w)\<lparr>workflows := map ?f (workflows (db w))\<rparr>"
  have "workflow_consistent ?d" by (rule wf_change_workflows [OF ok]) simp
  then have "workflow_consistent (?d\<lparr>steps := map ?g (steps ?d)\<rparr>)"
    by (rule wf_change_steps) (simp_all add: skel_def split: if_splits)
  then show "workflow_consistent (db w')"
    by (rule wf_same_tables)
      (use update_workflow_deadline_ok [OF run] in \<open>simp_all add: update_rows_def\<close>)
qed

lemma keep_revive: "evolves_ok keep_wf.W (revive_steps i dl t)"
proof (rule keep_wfI)
  fix w w' :: world and a
  assume ok: "workflow_consistent (db w)" and run: "revive_steps i dl t w = (Inr a, w')"
  then obtain w1 rows w2 w3 where one: "update_workflow_state i WfRunning t w = (Inr (), w1)"
    and two: "list_workflow_steps i w1 = (Inr rows, w2)"
    and three: "do_if (map s_id (filter (\<lambda>s. s_state s \<in> {StepFailed, StepTimedOut}) rows) \<noteq> [])
      (wrap PersistenceError (mark_workflow_step_defined i
        (map s_id (filter (\<lambda>s. s_state s \<in> {StepFailed, StepTimedOut}) rows)) t)) w2 = (Inr (), w3)"
    and four: "(case dl of None \<Rightarrow> ret () | Some d \<Rightarrow> wrap PersistenceError (update_workflow_deadline i d)) w3
      = (Inr a, w')"
    by (auto simp: revive_steps_def Let_def bnd_result_Inr wrap_result_Inr mark_workflow_running_def)
  have ok1: "workflow_consistent (db w1)" by (rule wf_update_state [OF one ok]) simp_all
  obtain r :: workflow_row and now where
    ws: "workflows (db w1) = workflows (set_workflow_state i (w_state r) WfRunning t now (db w))"
    using update_workflow_state_ok [OF one] by blast
  have running: "w_state x \<noteq> WfCancelled" if x: "x \<in> set (workflows (db w1))" "w_id x = i" for x
  proof -
    from x(1) obtain y where
      "x = (if w_id y = i then workflow_columns (w_state r) WfRunning t y\<lparr>w_updated := now\<rparr> else y)"
      unfolding ws set_workflow_state_def by (auto dest!: in_update_rows simp del: if_split)
    then show ?thesis using x(2) by (simp split: if_splits)
  qed
  have w2: "db w2 = db w1" using list_workflow_steps_ok [OF two] by simp
  have ok3: "workflow_consistent (db w3)"
  proof (cases "map s_id (filter (\<lambda>s. s_state s \<in> {StepFailed, StepTimedOut}) rows) = []")
    case True
    then show ?thesis using three ok1 w2 by simp
  next
    case False
    then have upd: "update_workflow_step_state i
        (map s_id (filter (\<lambda>s. s_state s \<in> {StepFailed, StepTimedOut}) rows)) StepDefined t w2 = (Inr (), w3)"
      using three by (simp add: wrap_result_Inr mark_workflow_step_defined_def)
    show ?thesis
      by (rule wf_update_steps [OF upd]) (use ok1 w2 running in auto)
  qed
  then show "workflow_consistent (db w')"
    using four evolves_okD [OF keep_deadline]
    by (auto simp: wrap_result_Inr keep_wf.W_def keeps_wf_def split: option.splits)
qed

text \<open>New tasks and links.\<close>

lemma live_task_append:
  "i \<in> t_id ` set ts \<Longrightarrow> live_task (ts @ us) i = live_task ts i"
  using find_row_in [of i t_id ts] by (auto simp: live_task_def find_row_append)

lemma wf_new_task:
  assumes "workflow_consistent d"
  shows "workflow_consistent (d\<lparr>tasks := tasks d @ [t]\<rparr>)"
proof (rule wf_consistent_cong [OF _ _ _ _ assms])
  assume "links_ok d"
  then show "links_ok (d\<lparr>tasks := tasks d @ [t]\<rparr>)"
    by (auto simp: links_ok_def live_task_append)
qed simp_all

lemma keep_define_task: "evolves keep_wf.W (define_task c target p)"
proof -
  have ins: "evolves keep_wf.W (insert_task row)" for row
    unfolding insert_task_def
    by (intro keep_wf.ev_insert_if) (simp add: keeps_wf_def wf_new_task)
  show ?thesis
    unfolding define_task_def Let_def by (intro keep_wf.ev_log ins)
qed

lemma wf_new_link:
  assumes "workflow_consistent d" "l_step l \<in> s_id ` set (steps d)" "l_task l \<in> t_id ` set (tasks d)"
    and "\<And>k. k \<in> set (links d) \<Longrightarrow> l_step k = l_step l \<Longrightarrow> \<not> live_task (tasks d) (l_task k)"
  shows "workflow_consistent (d\<lparr>links := links d @ [l]\<rparr>)"
proof (rule wf_consistent_cong [OF _ _ _ _ assms(1)])
  assume "links_ok d"
  then show "links_ok (d\<lparr>links := links d @ [l]\<rparr>)"
    unfolding links_ok_def using assms(2-4) by fastforce
qed simp_all

lemma no_live_tasks:
  assumes "filter (\<lambda>t. t_state t \<in> {TaskPending, TaskActive}) (tasks_of_step d i) = []"
    and "l \<in> set (links d)" "l_step l = i"
  shows "\<not> live_task (tasks d) (l_task l)"
proof
  assume "live_task (tasks d) (l_task l)"
  then obtain t where t: "find_row t_id (l_task l) (tasks d) = Some t" "t_state t \<in> {TaskPending, TaskActive}"
    by (auto simp: live_task_def split: option.splits)
  then have "t \<in> set (tasks_of_step d i)"
    using assms(2,3) find_row_Some [OF t(1)] by (force simp: tasks_of_step_def)
  then show False using assms(1) t(2) by (auto simp: filter_empty_conv)
qed

lemma keep_time_out: "evolves_ok keep_wf.W (time_out_workflow_steps w0 t)"
proof -
  have "evolves_ok keep_wf.W (live_tasks_of_running rows)" for rows
    by (rule keep_wfI) (auto dest: live_tasks_ok)
  then show ?thesis
    unfolding time_out_workflow_steps_def Let_def mark_workflow_step_timed_out_def mark_workflow_timed_out_def
    by (intro ok_ev [OF keep_wf.ev_list_workflow_steps] keep_section_steps keep_section_workflow
        keep_wf.ok_rules) simp_all
qed

text \<open>Dispatch: no live task of the step is known, a new one is made and linked, the step runs.\<close>

lemma define_immediate_ok:
  "define_immediate_one_shot_task c p True w = (Inr t, w') \<Longrightarrow>
     t_id t \<notin> t_id ` set (tasks (db w)) \<and> t_state t = TaskPending \<and>
     db w' = (db w)\<lparr>tasks := tasks (db w) @ [t]\<rparr>"
  by (auto simp: define_immediate_one_shot_task_def define_one_shot_task_def define_new_one_shot_task_def
      active_session_def monad_results split: if_splits dest!: define_task_ok)

lemma keep_dispatch:
  assumes "workflow_consistent (db w)" "dispatch_step c s i t w = (Inr a, w')"
    and "filter (\<lambda>t. t_state t \<in> {TaskPending, TaskActive}) (tasks_of_step (db w) i) = []"
  shows "workflow_consistent (db w')"
proof -
  obtain x w1 w2 where def: "define_immediate_one_shot_task (ws_client c) (step_task_params s i) True w = (Inr x, w1)"
    and link: "link_workflow_step_with_executor_task i (t_id x) w1 = (Inr (), w2)"
    and run: "update_workflow_step_state (s_workflow s) [i] StepRunning t w2 = (Inr (), w')"
    using assms(2) by (auto simp: dispatch_step_def monad_results mark_workflow_step_running_def)
  have d1: "db w1 = (db w)\<lparr>tasks := tasks (db w) @ [x]\<rparr>"
    using define_immediate_ok [OF def] by blast
  then have ok1: "workflow_consistent (db w1)" using wf_new_task [OF assms(1)] by simp
  obtain now where s2: "i \<in> s_id ` set (steps (db w1))" "t_id x \<in> t_id ` set (tasks (db w1))"
    and d2: "db w2 = (db w1)\<lparr>links := links (db w1) @
      [\<lparr>l_step = i, l_task = t_id x, l_created = now, l_updated = now\<rparr>]\<rparr>"
    using link_ok [OF link] by blast
  have "workflow_consistent (db w2)"
    unfolding d2
  proof (rule wf_new_link [OF ok1])
    fix k
    assume k: "k \<in> set (links (db w1))"
      "l_step k = l_step \<lparr>l_step = i, l_task = t_id x, l_created = now, l_updated = now\<rparr>"
    then have k': "k \<in> set (links (db w))" "l_step k = i" using d1 by simp_all
    have "l_task k \<in> t_id ` set (tasks (db w))"
      using wf_consistentD(5) [OF assms(1)] k'(1) by (simp add: links_ok_def)
    then show "\<not> live_task (tasks (db w1)) (l_task k)"
      using no_live_tasks [OF assms(3) k'] d1 by (simp add: live_task_append)
  qed (use s2 in simp_all)
  then show ?thesis by (intro wf_update_steps [OF run]) simp_all
qed

lemma keep_schedule: "evolves_ok keep_wf.W (schedule_transaction c i t)"
proof (rule keep_wfI)
  fix w w' :: world and a
  assume ok: "workflow_consistent (db w)" and run: "schedule_transaction c i t w = (Inr a, w')"
  then obtain s live w1 x w2 where sl: "get_workflow_step_and_executor_task i True w = (Inr (s, live), w1)"
    and "get_workflow (s_workflow s) w1 = (Inr x, w2)"
    and body: "(if hard_stop (w_state x) then ret (None, [])
      else if s_state s \<noteq> StepPending then ret (None, [])
      else if live \<noteq> [] then ret (None, [])
      else if t > w_deadline x then bnd (time_out_workflow_steps x t) (\<lambda>cancels. ret (None, cancels))
      else dispatch_step c s i t) w2 = (Inr a, w')"
    unfolding schedule_transaction_def by (auto simp: bnd_result_Inr wrap_result_Inr)
  then have w2: "db w2 = db w" by (auto dest!: step_and_task_ok get_workflow_ok)
  have "live = filter (\<lambda>t. t_state t \<in> {TaskPending, TaskActive}) (tasks_of_step (db w) i)"
    using step_and_task_ok [OF sl] by simp
  then consider "w' = w2" | cs where "time_out_workflow_steps x t w2 = (Inr cs, w')"
    | "filter (\<lambda>t. t_state t \<in> {TaskPending, TaskActive}) (tasks_of_step (db w2) i) = []"
      "dispatch_step c s i t w2 = (Inr a, w')"
    using body w2 by (auto simp: bnd_result_Inr split: if_splits)
  then show "workflow_consistent (db w')"
  proof cases
    case 2
    then show ?thesis using evolves_okD [OF keep_time_out] ok w2 by (auto simp: keep_wf.W_def keeps_wf_def)
  next
    case 3
    then show ?thesis using keep_dispatch [OF _ 3(2,1)] ok w2 by simp
  qed (use ok w2 in simp)
qed

interpretation keep_wf: workflow_sections keeps_wf
  by unfold_locales (auto intro: keep_define_task keep_section_workflow keep_section_steps keep_fan_out
      keep_settle keep_revive keep_schedule)

section \<open>The other side\<close>

text \<open>The task scheduler and the workers keep the workflow tables, and a task that is not live never
  becomes live again; the workflow scheduler only adds pending tasks.\<close>

lemma live_never_again:
  "moves_star task_transitions s s' \<Longrightarrow> s' \<in> {TaskPending, TaskActive} \<Longrightarrow> s \<in> {TaskPending, TaskActive}"
proof (induction rule: converse_rtranclp_induct)
  case (step y z)
  then show ?case by (cases y) (auto simp: moves_def succs_def)
qed

lemma live_task_evolves:
  assumes "rows_evolve t_id task_adv task_row_valid ts ts'" "i \<in> t_id ` set ts" "live_task ts' i"
  shows "live_task ts i"
proof -
  obtain t where t: "find_row t_id i ts = Some t" using find_row_in [OF assms(2)] by blast
  then obtain t' where "find_row t_id i ts' = Some t'" "task_adv t t'"
    using task_rows.rows_advance [OF assms(1)] by blast
  then show ?thesis
    using t assms(3) live_never_again by (auto simp: live_task_def task_adv_def)
qed

lemma task_tables_keep_wf:
  assumes "task_tables_evolve d d'" "workflow_consistent d"
  shows "workflow_consistent d'"
proof -
  have same: "workflows d' = workflows d" "steps d' = steps d" "deps d' = deps d" "links d' = links d"
    and ts: "rows_evolve t_id task_adv task_row_valid (tasks d) (tasks d')"
    using assms(1) by (auto simp: task_tables_evolve_def same_workflow_tables_def)
  have in_tasks: "i \<in> t_id ` set (tasks d')" if "i \<in> t_id ` set (tasks d)" for i
    using find_row_in [OF that] task_rows.rows_advance [OF ts] by (metis find_row_Some image_eqI)
  show ?thesis
  proof (rule wf_consistent_cong [OF same(1-3) _ assms(2)])
    assume old: "links_ok d"
    then have known: "l_task l \<in> t_id ` set (tasks d)" if "l \<in> set (links d)" for l
      using that by (simp add: links_ok_def)
    show "links_ok d'"
      using old known in_tasks live_task_evolves [OF ts] unfolding links_ok_def same by blast
  qed
qed

lemma keep_task_define: "evolves keep.W (define_task c target p)"
proof -
  have ins: "evolves keep.W (insert_task row)" if "task_row_valid row" for row
    unfolding insert_task_def
    by (intro keep.ev_insert_if)
      (simp add: keeps_task_def task_consistent_def consistent_new_task that)
  show ?thesis
    unfolding define_task_def Let_def
    by (intro keep.ev_log ins) (simp_all add: task_row_valid_def new_task_row_def)
qed

interpretation keep: workflow_evolution keeps_task
  by unfold_locales
    (auto intro: keep_task_define simp: keeps_task_def task_consistent_def elim: consistent_cong [THEN iffD2, rotated 2])

section \<open>Both invariants\<close>

definition consistent :: "tables \<Rightarrow> bool" where
  "consistent d \<longleftrightarrow> task_consistent d \<and> workflow_consistent d"

lemma consistent_task_queue:
  "consistent (db w) \<Longrightarrow> consistent (db (snd (process_task_queue c msgs w)))"
  using keep.ev_task_queue [of w c msgs] task_life.ev_task_queue [of w c msgs] task_tables_keep_wf
  by (auto simp: consistent_def keep.W_def keeps_task_def task_life.W_def)

lemma consistent_workflow_queue:
  "consistent (db w) \<Longrightarrow> consistent (db (snd (process_workflow_queue c msgs w)))"
  using keep.ev_workflow_queue [of w c msgs] keep_wf.ev_workflow_queue [of w c msgs]
  by (auto simp: consistent_def keep.W_def keeps_task_def keep_wf.W_def keeps_wf_def)

end
