(* ===== verification/Workflow_Client.thy ===== *)
theory Workflow_Client
  imports Workflow_Scheduler
begin

text \<open>
  \<open>workflow/client.go\<close>: defining workflows, submitting them to the workflow scheduler, and asking for
  their revival or cancellation; and \<open>workflow/step_runner.go\<close>: the processor that the task engine
  runs for the task of a step. The handlers of the step types are the application's: a parameter.
\<close>

section \<open>The client\<close>

record wf_client =
  wc_queue :: string
  wc_name :: string
  wc_creator :: string
  wc_known :: "string \<Rightarrow> bool"

record define_workflow_params =
  dw_spec :: new_workflow
  dw_creator :: "string option"

definition workflow_creator :: "wf_client \<Rightarrow> string option \<Rightarrow> string" where
  "workflow_creator c override = (case override of None \<Rightarrow> wc_creator c | Some s \<Rightarrow> s)"

text \<open>
  The validator descends into the specification, then comes the test for a DAG, then that of the step
  types; only then the database is asked.
\<close>

definition define_workflow ::
  "wf_client \<Rightarrow> define_workflow_params \<Rightarrow> bool \<Rightarrow> (world, workflow_row) m"
where
  "define_workflow c p in_caller =
     (if \<not> new_workflow_valid (dw_spec p) then throw (wrapped BadInputError (leaf ValidatorError))
      else
        case is_valid (dw_spec p) of
          Inl e \<Rightarrow> throw e
        | Inr _ \<Rightarrow>
            if \<exists>(_, s) \<in> set (nw_steps (dw_spec p)). \<not> wc_known c (ns_type s) then throw (leaf BadInputError)
            else
              wrap WorkflowClientError (active_session in_caller (wrap PersistenceError
                (define_new_workflow (dw_spec p) (workflow_creator c (dw_creator p))))))"

definition submit_workflow :: "wf_client \<Rightarrow> ident \<Rightarrow> (world, unit) m" where
  "submit_workflow c i =
     bnd time_now (\<lambda>now.
     wrap WorkflowClientError (send_new (wc_queue c) (\<lambda>u. prepare_wf_process u (wc_name c) i now)))"

definition define_and_run_workflow ::
  "wf_client \<Rightarrow> define_workflow_params \<Rightarrow> bool \<Rightarrow> (world, workflow_row) m"
where
  "define_and_run_workflow c p in_caller =
     bnd (define_workflow c p in_caller) (\<lambda>w.
     bnd (submit_workflow c (w_id w)) (\<lambda>_. ret w))"

definition confirm_workflow :: "ident \<Rightarrow> bool \<Rightarrow> (world, workflow_row) m" where
  "confirm_workflow i in_caller =
     wrap WorkflowClientError (active_session in_caller (wrap PersistenceError (get_workflow i)))"

definition request_revival :: "wf_client \<Rightarrow> ident \<Rightarrow> time option \<Rightarrow> bool \<Rightarrow> (world, unit) m" where
  "request_revival c i deadline in_caller =
     bnd (confirm_workflow i in_caller) (\<lambda>_.
     bnd time_now (\<lambda>now.
     wrap WorkflowClientError
       (send_new (wc_queue c) (\<lambda>u. prepare_wf_revive u (wc_name c) i deadline now))))"

definition request_cancellation :: "wf_client \<Rightarrow> ident \<Rightarrow> bool \<Rightarrow> (world, unit) m" where
  "request_cancellation c i in_caller =
     bnd (confirm_workflow i in_caller) (\<lambda>_.
     bnd time_now (\<lambda>now.
     wrap WorkflowClientError (send_new (wc_queue c) (\<lambda>u. prepare_wf_cancel u (wc_name c) i now))))"

section \<open>The step runner\<close>

fun parse_step_parameter :: "json \<Rightarrow> goerr + ident" where
  "parse_step_parameter (JObj fs) =
     (case field_string fs ''step_id'' of
        None \<Rightarrow> Inl (wrapped ValidationError (leaf DecodeError))
      | Some i \<Rightarrow> if i = [] then Inl (wrapped ValidationError (leaf ValidatorError)) else Inr i)"
| "parse_step_parameter JNull = Inl (wrapped ValidationError (leaf ValidatorError))"
| "parse_step_parameter _ = Inl (wrapped ValidationError (leaf DecodeError))"

type_synonym step_handlers = "string \<Rightarrow> (workflow_row \<Rightarrow> step_row \<Rightarrow> (world, unit) m) option"

definition load_step :: "ident \<Rightarrow> (world, step_row \<times> workflow_row) m" where
  "load_step i =
     wrap StepPreprocessError (in_txn (
       bnd (wrap PersistenceError (get_workflow_step i)) (\<lambda>s.
       bnd (wrap PersistenceError (get_workflow (s_workflow s))) (\<lambda>w. ret (s, w)))))"

definition process_step_task :: "step_handlers \<Rightarrow> task_row \<Rightarrow> exec_row \<Rightarrow> (world, unit) m" where
  "process_step_task hs t e =
     (case parse_step_parameter (t_params t) of
        Inl err \<Rightarrow> throw (wrapped NonRecoverableError err)
      | Inr i \<Rightarrow>
          bnd (load_step i) (\<lambda>(s, w).
          case hs (s_type s) of
            None \<Rightarrow> throw (leaf NonRecoverableError)
          | Some h \<Rightarrow> wrap StepExecutionError (h w s)))"

end
