(* ===== verification/Workflow_Definition.thy ===== *)
theory Workflow_Definition
  imports Workflow_Client Workflow_Steps
begin

text \<open>
  What the workflow client writes: the rows of a new workflow, and the requests it makes only for
  workflows that exist.
\<close>

section \<open>The rows of a new workflow\<close>

lemma build_step_ok:
  "build_step p creator wid s w = (Inr r, w') \<Longrightarrow>
    db w' = db w \<and> (\<exists>i. r = new_step_row p creator wid s i zero_time)"
  by (auto simp: build_step_def Let_def bnd_result_Inr dest: ulid_make_ok split: if_splits)

lemma build_steps_ok:
  "collect ss (\<lambda>(_, s). build_step p creator wid s) w = (Inr rows, w') \<Longrightarrow>
    db w' = db w \<and> list_all2 (\<lambda>(_, s) r. \<exists>i. r = new_step_row p creator wid s i zero_time) ss rows"
  by (induction ss arbitrary: w rows)
    (fastforce simp: bnd_result_Inr split: prod.splits dest: build_step_ok)+

definition stamp_step :: "time \<Rightarrow> step_row \<Rightarrow> step_row" where
  "stamp_step t s = s\<lparr>s_created := t, s_updated := t\<rparr>"

definition edge :: "time \<Rightarrow> ident \<times> ident \<Rightarrow> dep_row" where
  "edge t = (\<lambda>(c, q). \<lparr>d_step = c, d_on = q, d_created = t, d_updated = t\<rparr>)"

lemma lift_result_ok: "lift_result r w = (Inr x, w') \<Longrightarrow> r = Inr x \<and> w' = w"
  by (auto simp: lift_result_def split: sum.splits)

lemma define_new_workflow_ok:
  assumes "define_new_workflow p creator w = (Inr row, w')"
  shows "\<exists>wid rows ls t1 t2 t3. is_valid p = Inr () \<and> row = new_workflow_row p creator wid t1 \<and>
    wid \<notin> w_id ` set (workflows (db w)) \<and>
    list_all2 (\<lambda>(_, s) r. \<exists>i. r = new_step_row p creator wid s i zero_time) (nw_steps p) rows \<and>
    step_links rows rows = Inr ls \<and>
    workflows (db w') = workflows (db w) @ [row] \<and>
    steps (db w') = steps (db w) @ map (stamp_step t2) rows \<and>
    deps (db w') = deps (db w) @ map (edge t3) ls \<and>
    tasks (db w') = tasks (db w) \<and> execs (db w') = execs (db w) \<and> links (db w') = links (db w) \<and>
    distinct (map s_id (steps (db w'))) \<and>
    distinct (map (\<lambda>s. (s_name s, s_workflow s)) (steps (db w')))"
proof -
  from assms obtain wid w1 rows w2 ls t1 w3 w4 t2 w5 w6 w7 v where
    valid: "is_valid p = Inr ()" and uid: "ulid_make w = (Inr wid, w1)"
    and build: "collect (nw_steps p) (\<lambda>(_, s). build_step p creator wid s) w1 = (Inr rows, w2)"
    and ls: "step_links rows rows = Inr ls"
    and t1: "time_now w2 = (Inr t1, w3)"
    and ins_w: "insert_workflow (new_workflow_row p creator wid t1) w3 = (Inr (), w4)"
    and t2: "time_now w4 = (Inr t2, w5)"
    and ins_s: "insert_steps (map (\<lambda>s. s\<lparr>s_created := t2, s_updated := t2\<rparr>) rows) w5 = (Inr (), w6)"
    and ins_d: "do_if (ls \<noteq> []) (bnd time_now (\<lambda>t3. wrap SQLError (insert_deps (map (\<lambda>(c, q).
           \<lparr>d_step = c, d_on = q, d_created = t3, d_updated = t3\<rparr>) ls)))) w6 = (Inr (), w7)"
    and ev: "define_new_system_event DefineWorkflow (WorkflowEvents wid creator) w7 = (Inr v, w')"
    and row: "row = new_workflow_row p creator wid t1"
    unfolding define_new_workflow_def Let_def
    by (auto simp: bnd_result_Inr wrap_result_Inr dest!: lift_result_ok split: if_splits)
  have steps1: "map (\<lambda>s. s\<lparr>s_created := t2, s_updated := t2\<rparr>) rows = map (stamp_step t2) rows"
    by (simp add: stamp_step_def)
  have 1: "db w2 = db w" "list_all2 (\<lambda>(_, s) r. \<exists>i. r = new_step_row p creator wid s i zero_time) (nw_steps p) rows"
    using build_steps_ok [OF build] ulid_make_ok [OF uid] by simp_all
  have 2: "wid \<notin> w_id ` set (workflows (db w))" "db w4 = (db w)\<lparr>workflows := workflows (db w) @ [row]\<rparr>"
    using insert_if_ok [OF ins_w [unfolded insert_workflow_def]] time_now_ok [OF t1] 1(1) row
    by (simp_all add: new_workflow_row_def)
  have 3: "distinct (map s_id (steps (db w) @ map (stamp_step t2) rows))"
    "distinct (map (\<lambda>s. (s_name s, s_workflow s)) (steps (db w) @ map (stamp_step t2) rows))"
    "db w6 = (db w)\<lparr>workflows := workflows (db w) @ [row], steps := steps (db w) @ map (stamp_step t2) rows\<rparr>"
    using insert_if_ok [OF ins_s [unfolded insert_steps_def steps1]] time_now_ok [OF t2] 2(2)
    by (simp_all del: map_map map_append distinct_append)
  obtain t3 where 4: "db w7 = (db w6)\<lparr>deps := deps (db w6) @ map (edge t3) ls\<rparr>"
  proof (cases "ls = []")
    case True
    then show ?thesis using ins_d that [of 0] by simp
  next
    case False
    then obtain t3 w8 where t3: "time_now w6 = (Inr t3, w8)"
      and ins: "insert_deps (map (edge t3) ls) w8 = (Inr (), w7)"
      using ins_d by (auto simp: bnd_result_Inr wrap_result_Inr edge_def)
    show ?thesis
      by (rule that [of t3])
        (use insert_if_ok [OF ins [unfolded insert_deps_def]] time_now_ok [OF t3] in simp)
  qed
  have 5: "db w' = (db w7)\<lparr>events := events (db w7) @ [v]\<rparr>"
    using define_new_system_event_ok [OF ev] by simp
  have "steps (db w') = steps (db w) @ map (stamp_step t2) rows"
    "workflows (db w') = workflows (db w) @ [row]" "deps (db w') = deps (db w) @ map (edge t3) ls"
    "tasks (db w') = tasks (db w)" "execs (db w') = execs (db w)" "links (db w') = links (db w)"
    using 3(3) 4 5 by simp_all
  then show ?thesis
    by (intro exI [of _ wid] exI [of _ rows] exI [of _ ls] exI [of _ t1] exI [of _ t2] exI [of _ t3] conjI)
      (use valid row 1 2 3(1,2) ls in \<open>simp_all only: not_False_eq_True\<close>)
qed

lemma rows_of_spec:
  assumes "list_all2 (\<lambda>(_, s) r. \<exists>i. r = new_step_row p creator wid s i zero_time) ss rows"
  shows "map s_name rows = map (\<lambda>(_, s). ns_name s) ss"
    and "\<forall>r \<in> set rows. s_workflow r = wid \<and> s_state r = StepDefined \<and>
      (\<exists>(k, s) \<in> set ss. s_name r = ns_name s \<and> s_parents r = ns_parents s \<and> s_type r = ns_type s)"
  using assms by (induction rule: list_all2_induct) (auto simp: new_step_row_def)

lemma parent_links_ok:
  "parent_links rows c ps = Inr ls \<Longrightarrow>
    set ls = (\<lambda>m. (s_id c, s_id (the (by_name rows m)))) ` set ps \<and> (\<forall>m \<in> set ps. by_name rows m \<noteq> None)"
  by (induction ps arbitrary: ls) (auto split: option.splits sum.splits)

lemma step_links_ok:
  "step_links rows cs = Inr ls \<Longrightarrow>
    set ls = (\<Union>c \<in> set cs. (\<lambda>m. (s_id c, s_id (the (by_name rows m)))) ` set (s_parents c)) \<and>
    (\<forall>c \<in> set cs. \<forall>m \<in> set (s_parents c). by_name rows m \<noteq> None)"
proof (induction cs arbitrary: ls)
  case (Cons c cs)
  then obtain ks js where "parent_links rows c (s_parents c) = Inr ks" "step_links rows cs = Inr js" "ls = ks @ js"
    by (auto split: sum.splits)
  then show ?case using Cons.IH parent_links_ok [of rows c "s_parents c" ks] by auto
qed simp

lemma stamp_step_simps [simp]:
  "s_id (stamp_step t s) = s_id s" "s_name (stamp_step t s) = s_name s"
  "s_workflow (stamp_step t s) = s_workflow s" "s_parents (stamp_step t s) = s_parents s"
  "s_state (stamp_step t s) = s_state s" "s_type (stamp_step t s) = s_type s"
  by (simp_all add: stamp_step_def)

lemma edge_simps [simp]: "d_step (edge t x) = fst x" "d_on (edge t x) = snd x"
  by (simp_all add: edge_def split: prod.splits)

lemma define_workflow_ok:
  assumes "define_workflow c p b w = (Inr row, w')"
  shows "is_valid (dw_spec p) = Inr () \<and> (\<forall>(_, s) \<in> set (nw_steps (dw_spec p)). wc_known c (ns_type s)) \<and>
    (\<exists>w1 w2. db w1 = db w \<and> db w2 = db w' \<and>
      define_new_workflow (dw_spec p) (workflow_creator c (dw_creator p)) w1 = (Inr row, w2))"
  using assms
  by (cases "is_valid (dw_spec p)")
    (fastforce simp: define_workflow_def active_session_def wrap_result_Inr split: if_splits dest!: in_txn_ok)+

text \<open>The edges the parents of a list of steps stand for.\<close>

definition step_edges :: "step_row list \<Rightarrow> (ident \<times> ident) set" where
  "step_edges new = (\<Union>s \<in> set new. \<Union>q \<in> set new.
     if s_name q \<in> set (s_parents s) then {(s_id s, s_id q)} else {})"

lemma in_step_edges:
  "x \<in> step_edges new \<longleftrightarrow> (\<exists>s \<in> set new. \<exists>q \<in> set new. s_name q \<in> set (s_parents s) \<and> x = (s_id s, s_id q))"
  by (auto simp: step_edges_def split: if_splits)

lemma step_edges_stamped: "step_edges (map (stamp_step t) rows) = step_edges rows"
  by (rule set_eqI) (simp add: in_step_edges)

lemma step_links_edges:
  assumes "step_links rows rows = Inr ls" "distinct (map s_name rows)"
  shows "set ls = step_edges rows"
    and "\<forall>s \<in> set rows. set (s_parents s) \<subseteq> s_name ` set rows"
proof -
  note ls = step_links_ok [OF assms(1)]
  have name: "by_name rows m = Some q \<longleftrightarrow> q \<in> set rows \<and> s_name q = m" for m q
    using by_name_row [OF assms(2)] by_name_SomeD [of rows m q] by auto
  have the_row: "\<exists>q \<in> set rows. s_name q = m \<and> the (by_name rows m) = q"
    if "s \<in> set rows" "m \<in> set (s_parents s)" for s m
  proof -
    from ls [THEN conjunct2] that obtain q where q: "by_name rows m = Some q" by blast
    then show ?thesis using name [of m q] by (intro bexI [of _ q]) simp_all
  qed
  have home: "the (by_name rows (s_name q)) = q" if "q \<in> set rows" for q
    using by_name_row [OF assms(2) that] by simp
  show "\<forall>s \<in> set rows. set (s_parents s) \<subseteq> s_name ` set rows" using the_row by blast
  show "set ls = step_edges rows"
  proof (intro equalityI subsetI)
    fix x
    assume "x \<in> set ls"
    then obtain s m where "s \<in> set rows" "m \<in> set (s_parents s)" "x = (s_id s, s_id (the (by_name rows m)))"
      using ls by auto
    moreover from this(1,2) obtain q where "q \<in> set rows" "s_name q = m" "the (by_name rows m) = q"
      using the_row by blast
    ultimately show "x \<in> step_edges rows"
      unfolding in_step_edges by (intro bexI [of _ s] bexI [of _ q]) simp_all
  next
    fix x
    assume "x \<in> step_edges rows"
    then obtain s q where "x = (s_id s, s_id q)" "s \<in> set rows" "q \<in> set rows" "s_name q \<in> set (s_parents s)"
      unfolding in_step_edges by blast
    then have "s \<in> set rows" "x = (s_id s, s_id (the (by_name rows (s_name q))))" "s_name q \<in> set (s_parents s)"
      by (simp_all add: home)
    then show "x \<in> set ls" unfolding ls [THEN conjunct1] by blast
  qed
qed

text \<open>C15. A workflow that the client has defined is a DAG of known step types, and the tables hold it
  as specified: one PENDING workflow, its steps all DEFINED under the names of the specification,
  and exactly the edges from each step to its parents.\<close>

theorem define_workflow_writes:
  assumes "define_workflow c p b w = (Inr row, w')" "maps_ok (dw_spec p)"
  shows "spec_is_dag (nw_steps (dw_spec p)) \<and> (\<forall>(_, s) \<in> set (nw_steps (dw_spec p)). wc_known c (ns_type s)) \<and>
    (\<exists>new es. workflows (db w') = workflows (db w) @ [row] \<and> steps (db w') = steps (db w) @ new \<and>
      deps (db w') = deps (db w) @ es \<and>
      w_state row = WfPending \<and> map s_name new = map fst (nw_steps (dw_spec p)) \<and>
      (\<forall>s \<in> set new. s_state s = StepDefined \<and> s_workflow s = w_id row) \<and>
      (\<forall>(n, x) \<in> set (nw_steps (dw_spec p)). \<exists>s \<in> set new. s_name s = n \<and> s_parents s = ns_parents x) \<and>
      (\<lambda>r. (d_step r, d_on r)) ` set es = step_edges new)"
proof -
  let ?ss = "nw_steps (dw_spec p)"
  from define_workflow_ok [OF assms(1)] obtain w1 w2 where valid: "is_valid (dw_spec p) = Inr ()"
    and known: "\<forall>(_, s) \<in> set ?ss. wc_known c (ns_type s)" and same: "db w1 = db w" "db w2 = db w'"
    and def: "define_new_workflow (dw_spec p) (workflow_creator c (dw_creator p)) w1 = (Inr row, w2)"
    by blast
  from define_new_workflow_ok [OF def] obtain wid rows ls t1 t2 t3 where
    row: "row = new_workflow_row (dw_spec p) (workflow_creator c (dw_creator p)) wid t1"
    and rows: "list_all2 (\<lambda>(_, s) r. \<exists>i. r = new_step_row (dw_spec p) (workflow_creator c (dw_creator p)) wid s i zero_time)
      ?ss rows"
    and ls: "step_links rows rows = Inr ls"
    and tables: "workflows (db w2) = workflows (db w1) @ [row]"
      "steps (db w2) = steps (db w1) @ map (stamp_step t2) rows"
      "deps (db w2) = deps (db w1) @ map (edge t3) ls"
    by blast
  have dag: "spec_is_dag ?ss" using is_valid_dag [OF assms(2) valid] .
  then have "map (\<lambda>(_, s). ns_name s) ?ss = map fst ?ss"
    by (auto simp: spec_is_dag_def steps_wf_def)
  then have names: "map s_name rows = map fst ?ss" using rows_of_spec(1) [OF rows] by simp
  then have "distinct (map s_name rows)" using assms(2) by (simp add: maps_ok_def)
  note edges = step_links_edges [OF ls this]
  have "(\<lambda>r. (d_step r, d_on r)) ` set (map (edge t3) ls) = set ls"
    by (simp add: image_image)
  also have "\<dots> = step_edges (map (stamp_step t2) rows)"
    by (simp add: edges(1) step_edges_stamped)
  finally have es: "(\<lambda>r. (d_step r, d_on r)) ` set (map (edge t3) ls) = step_edges (map (stamp_step t2) rows)" .
  have found: "\<exists>s \<in> set (map (stamp_step t2) rows). s_name s = n \<and> s_parents s = ns_parents x"
    if "(n, x) \<in> set ?ss" for n x
  proof -
    from rows that obtain r i where r: "r \<in> set rows"
      "r = new_step_row (dw_spec p) (workflow_creator c (dw_creator p)) wid x i zero_time"
      by (fastforce simp: list_all2_conv_all_nth in_set_conv_nth)
    have "ns_name x = n" using dag that by (auto simp: spec_is_dag_def steps_wf_def)
    then have "s_name (stamp_step t2 r) = n" "s_parents (stamp_step t2 r) = ns_parents x"
      by (simp_all add: r(2) new_step_row_def)
    with r(1) show ?thesis by (intro bexI [of _ "stamp_step t2 r"]) simp_all
  qed
  have fresh: "s_state s = StepDefined \<and> s_workflow s = w_id row" if "s \<in> set (map (stamp_step t2) rows)" for s
    using that rows_of_spec(2) [OF rows] row by (auto simp: new_workflow_row_def)
  have pending: "w_state row = WfPending" by (simp add: row new_workflow_row_def)
  have ns: "map s_name (map (stamp_step t2) rows) = map fst ?ss" using names by (simp add: comp_def)
  show ?thesis
    unfolding same [symmetric]
    by (intro conjI exI [of _ "map (stamp_step t2) rows"] exI [of _ "map (edge t3) ls"] dag known tables pending
        ns ballI fresh es) (use found in auto)
qed

text \<open>C35. Anything else is refused before the database is asked: the world is left as it was.\<close>

theorem define_workflow_refuses:
  assumes "maps_ok (dw_spec p)"
    "\<not> (new_workflow_valid (dw_spec p) \<and> spec_is_dag (nw_steps (dw_spec p)) \<and>
        (\<forall>(_, s) \<in> set (nw_steps (dw_spec p)). wc_known c (ns_type s)))"
  shows "\<exists>e. define_workflow c p b w = (Inl e, w)"
proof (cases "is_valid (dw_spec p)")
  case (Inl e)
  then show ?thesis by (simp add: define_workflow_def)
next
  case (Inr u)
  then have "new_workflow_valid (dw_spec p) \<and> spec_is_dag (nw_steps (dw_spec p))"
    using is_valid_iff [OF assms(1)] by simp
  with assms(2) Inr show ?thesis by (auto simp: define_workflow_def)
qed

section \<open>Requests\<close>

lemma confirm_reads: "confirm_workflow i b w = (r, w') \<Longrightarrow> db w' = db w"
proof -
  have "evolves unchanged.W (confirm_workflow i b)"
    unfolding confirm_workflow_def get_workflow_def by (intro unchanged.ev_store)
  then show "confirm_workflow i b w = (r, w') \<Longrightarrow> db w' = db w"
    by (auto simp: unchanged.W_def dest: evolvesD)
qed

lemma get_workflow_history: "get_workflow i w = (r, w') \<Longrightarrow> history w' = history w"
  by (auto simp: get_workflow_def fetch_one_def select_first_def dest: sql_history split: prod.splits sum.splits)

lemma confirm_history:
  assumes "confirm_workflow i b w = (r, w')"
  shows "\<exists>hs. history w' = history w @ hs \<and> set hs \<subseteq> {TxnBegin, TxnCommit, TxnRollback}"
proof -
  have body: "history w3 = history w2" if "wrap k (get_workflow i) w2 = (y, w3)" for k w2 y w3
    using that by (auto simp: wrap_def dest: get_workflow_history split: prod.splits sum.splits)
  obtain r' where "active_session b (wrap PersistenceError (get_workflow i)) w = (r', w')"
    using assms by (auto simp: confirm_workflow_def wrap_def split: prod.splits sum.splits)
  then show ?thesis
    using body log_quiet_txn [of "wrap PersistenceError (get_workflow i)" w r' w']
    by (cases b) (auto simp: active_session_def)
qed

lemma confirm_missing:
  assumes "find_row w_id i (workflows (db w)) = None"
  shows "\<exists>e w'. confirm_workflow i b w = (Inl e, w')"
proof -
  have "\<not> (\<exists>x w'. confirm_workflow i b w = (Inr x, w'))"
    using assms by (auto simp: confirm_workflow_def active_session_def wrap_result_Inr get_workflow_def
        dest!: in_txn_ok fetch_one_ok split: if_splits)
  then show ?thesis by (metis old.sum.exhaust prod.exhaust)
qed

text \<open>A request to cancel or to revive a workflow writes nothing, and for a workflow that does not
  exist it fails without any message to the scheduler.\<close>

theorem requests_need_workflow:
  assumes "request_cancellation c i b w = (r, w') \<or> request_revival c i dl b w = (r, w')"
  shows "db w' = db w \<and> (find_row w_id i (workflows (db w)) = None \<longrightarrow>
    (\<exists>e. r = Inl e) \<and> (\<forall>q m. Sent q m \<notin> set (drop (length (history w)) (history w'))))"
proof -
  obtain x w1 where first: "confirm_workflow i b w = (x, w1)" by (rule prod.exhaust)
  have send: "db w3 = db w2" if "wrap k (send_new q f) w2 = (y, w3)" for k q f w2 y w3
    using that by (auto simp: wrap_def send_new_def send_msg_def bnd_def
        dest: queue_call_db split: prod.splits sum.splits)
  have "db w' = db w1"
    using assms first
    by (cases x) (auto simp: request_cancellation_def request_revival_def dest!: send)
  moreover have "r = Inl e \<and> w' = w1" if "x = Inl e" for e
    using assms first that by (auto simp: request_cancellation_def request_revival_def)
  ultimately show ?thesis
    using first confirm_reads [OF first] confirm_history [OF first] confirm_missing [of i w b] by fastforce
qed

section \<open>The step runner\<close>

text \<open>The task of a step carries its ID: what the scheduler writes as parameters the runner reads
  back, for every step ID but the empty one.\<close>

theorem step_parameter_roundtrip:
  "parse_step_parameter (pl_json (step_parameter i)) = (if i = [] then Inl (wrapped ValidationError (leaf ValidatorError)) else Inr i)"
  by (simp add: step_parameter_def)

lemma never_load_step: "never NonRecoverableError (load_step i)"
  unfolding load_step_def get_workflow_step_def get_workflow_def
  by (intro never_store) (auto split: prod.split intro!: never_ret)

text \<open>C34. A failed step execution opts out of the task engine's retries exactly when repeating it cannot
  help: its parameters are malformed, its step type has no handler, or the handler says so itself. A
  step or workflow that cannot be loaded stays retryable.\<close>

theorem step_runner_classifies:
  assumes "process_step_task hs t e w = (Inl err, w')"
  shows "err_as NonRecoverableError err \<longleftrightarrow>
    (\<exists>x. parse_step_parameter (t_params t) = Inl x) \<or>
    (\<exists>i s wf w1. parse_step_parameter (t_params t) = Inr i \<and> load_step i w = (Inr (s, wf), w1) \<and>
      (hs (s_type s) = None \<or>
       (\<exists>h x w2. hs (s_type s) = Some h \<and> h wf s w1 = (Inl x, w2) \<and> err_as NonRecoverableError x)))"
proof (cases "parse_step_parameter (t_params t)")
  case (Inl x)
  then show ?thesis using assms by (auto simp: process_step_task_def)
next
  case (Inr i)
  obtain y w1 where load: "load_step i w = (y, w1)" by (rule prod.exhaust)
  show ?thesis
  proof (cases y)
    case (Inl x)
    then have "\<not> err_as NonRecoverableError err"
      using assms Inr load neverD [OF never_load_step] by (auto simp: process_step_task_def)
    then show ?thesis using Inl Inr load by simp
  next
    case step: (Inr z)
    obtain s wf where z: "z = (s, wf)" by (rule prod.exhaust)
    show ?thesis
    proof (cases "hs (s_type s)")
      case None
      then show ?thesis using assms Inr load step z by (auto simp: process_step_task_def)
    next
      case (Some h)
      then have "wrap StepExecutionError (h wf s) w1 = (Inl err, w')"
        using assms Inr load step z by (simp add: process_step_task_def)
      then obtain x where "h wf s w1 = (Inl x, w')" "err = wrapped StepExecutionError x"
        by (auto simp: wrap_result_Inl)
      then show ?thesis using Some Inr load step z by simp
    qed
  qed
qed

end
