(* ===== verification/Task_Worker.thy ===== *)
theory Task_Worker
  imports Task_Results
begin

text \<open>
  The worker side of the task engine: the executor that runs one execution instance
  (\<open>task/executor.go\<close>) and the receiver that claims instances from a task queue, reports their
  outcome to the scheduler and recovers its buffer at start-up (\<open>task/receiver.go\<close>). The processors
  of the application are a parameter: a command of the world per task name.
\<close>

section \<open>The state of a receiver\<close>

text \<open>
  \<open>rv_msgs\<close> is \<open>execInstanceOriginalIPCMsg\<close>: the message an instance in the pool was received with.
\<close>

record receiver_state =
  rv_world :: world
  rv_msgs :: "ident \<Rightarrow> json option"

definition on_world :: "(world, 'a) m \<Rightarrow> (receiver_state, 'a) m" where
  "on_world p s = (case p (rv_world s) of (r, w) \<Rightarrow> (r, s\<lparr>rv_world := w\<rparr>))"

lemma on_world_result:
  "on_world p s = (r, s') \<longleftrightarrow> p (rv_world s) = (r, rv_world s') \<and> s' = s\<lparr>rv_world := rv_world s'\<rparr>"
  by (cases s; cases s') (auto simp: on_world_def split: prod.splits)

lemma on_world_run [simp]: "p (rv_world s) = (r, w) \<Longrightarrow> on_world p s = (r, s\<lparr>rv_world := w\<rparr>)"
  by (simp add: on_world_def)

record receiver =
  rc_name :: string
  rc_scheduler_queue :: string
  rc_processors :: "string \<Rightarrow> (task_row \<Rightarrow> exec_row \<Rightarrow> (world, unit) m) option"

section \<open>The executor\<close>

definition failure_disposition :: "goerr \<Rightarrow> disposition option" where
  "failure_disposition e = (if err_as NonRecoverableError e then Some NonRetryable else None)"

text \<open>The transaction that takes an acquired instance into PROCESSING.\<close>

definition preprocess_execution :: "ident \<Rightarrow> (world, exec_row \<times> task_row) m" where
  "preprocess_execution i =
     in_txn (
       bnd (wrap PersistenceError (get_task_execution i)) (\<lambda>e.
       if \<not> exec_row_valid e then throw (wrapped ConsistencyError (leaf ValidatorError))
       else
         case exec_valid_next_state (e_state e) ExecProcessing of
           Inl err \<Rightarrow> throw (wrapped ConsistencyError err)
         | Inr _ \<Rightarrow>
             bnd (wrap PersistenceError (get_task (e_task e))) (\<lambda>t.
             if \<not> task_row_valid t then throw (wrapped ConsistencyError (leaf ValidatorError))
             else
               bnd (wrap PersistenceError (mark_task_exec_processing i)) (\<lambda>_. ret (e, t)))))"

text \<open>The attempt itself: its error is the outcome.\<close>

definition run_processor :: "receiver \<Rightarrow> exec_row \<Rightarrow> task_row \<Rightarrow> (world, unit) m" where
  "run_processor c e t =
     (case rc_processors c (t_name t) of
        None \<Rightarrow> throw (leaf TaskExecutorError)
      | Some p \<Rightarrow> wrap TaskExecutionError (p t e))"

text \<open>The deferred transaction that records the outcome.\<close>

definition postprocess_execution :: "ident \<Rightarrow> goerr + unit \<Rightarrow> (world, unit) m" where
  "postprocess_execution i outcome =
     bnd time_now (\<lambda>completed_at.
     bnd (gets err_text) (\<lambda>tx.
     in_txn (
       case outcome of
         Inl err \<Rightarrow> wrap PersistenceError
           (mark_task_exec_failed i (tx err) (failure_disposition err) completed_at)
       | Inr _ \<Rightarrow> wrap PersistenceError (mark_task_exec_processed i completed_at))))"

text \<open>\<open>processExecutionInstance\<close> with its completion callback.\<close>

definition process_execution_instance ::
  "receiver \<Rightarrow> (ident \<Rightarrow> goerr option \<Rightarrow> time \<Rightarrow> (receiver_state, unit) m) \<Rightarrow> ident \<Rightarrow> (receiver_state, unit) m"
where
  "process_execution_instance c callback i s =
     (case on_world (preprocess_execution i) s of
        (Inl err, s1) \<Rightarrow>
          (let final = wrapped TaskPreprocessError err in
           bnd (on_world time_now) (\<lambda>now. bnd (callback i (Some final) now) (\<lambda>_. throw final)) s1)
      | (Inr (e, t), s1) \<Rightarrow>
          (case on_world (run_processor c e t) s1 of (outcome, s2) \<Rightarrow>
            case on_world (postprocess_execution i outcome) s2 of
              (Inl err, s3) \<Rightarrow>
                (outcome, snd (bnd (on_world time_now) (\<lambda>now.
                  callback i (Some (wrapped TaskPostprocessError err)) now) s3))
            | (Inr _, s3) \<Rightarrow>
                (outcome, snd (bnd (on_world time_now) (\<lambda>now.
                  callback i (case outcome of Inl err \<Rightarrow> Some err | Inr _ \<Rightarrow> None) now) s3))))"

section \<open>Reports to the scheduler\<close>

definition report_processing_completed :: "receiver \<Rightarrow> ident \<Rightarrow> time \<Rightarrow> (world, unit) m" where
  "report_processing_completed c i t =
     send_new (rc_scheduler_queue c) (\<lambda>u. prepare_process_succeeded u (rc_name c) i t)"

definition report_processing_failed ::
  "receiver \<Rightarrow> ident \<Rightarrow> disposition option \<Rightarrow> time \<Rightarrow> (world, unit) m"
where
  "report_processing_failed c i d t =
     send_new (rc_scheduler_queue c) (\<lambda>u. prepare_process_failed u (rc_name c) i d t)"

definition report_engine_failed :: "receiver \<Rightarrow> ident \<Rightarrow> time \<Rightarrow> (world, unit) m" where
  "report_engine_failed c i t =
     send_new (rc_scheduler_queue c) (\<lambda>u. prepare_engine_failed u (rc_name c) i t)"

text \<open>The report an outcome calls for.\<close>

definition report_outcome :: "receiver \<Rightarrow> ident \<Rightarrow> goerr option \<Rightarrow> time \<Rightarrow> (world, unit) m" where
  "report_outcome c i err t =
     (case err of
        None \<Rightarrow> report_processing_completed c i t
      | Some e \<Rightarrow>
          if err_as TaskExecutorError e then report_engine_failed c i t
          else report_processing_failed c i (failure_disposition e) t)"

text \<open>Take the recorded message of an instance out of the map, and delete it from the buffer.\<close>

definition drop_original :: "string \<Rightarrow> ident \<Rightarrow> (receiver_state, unit) m" where
  "drop_original q i =
     bnd (gets (\<lambda>s. rv_msgs s i)) (\<lambda>original.
     bnd (modify (\<lambda>s. s\<lparr>rv_msgs := (rv_msgs s)(i := None)\<rparr>)) (\<lambda>_.
     on_world (logged (queue_call (DeletedMsg q original)))))"

definition on_task_complete ::
  "receiver \<Rightarrow> string \<Rightarrow> ident \<Rightarrow> goerr option \<Rightarrow> time \<Rightarrow> (receiver_state, unit) m"
where
  "on_task_complete c q i err t =
     bnd (on_world (logged (report_outcome c i err t))) (\<lambda>_. drop_original q i)"

text \<open>The work a pool does for one accepted instance of a queue.\<close>

definition execute_instance :: "receiver \<Rightarrow> string \<Rightarrow> ident \<Rightarrow> (receiver_state, unit) m" where
  "execute_instance c q = process_execution_instance c (on_task_complete c q)"

section \<open>Receiving\<close>

definition record_invalid_request :: "receiver \<Rightarrow> bool \<Rightarrow> string \<Rightarrow> string \<Rightarrow> (world, unit) m" where
  "record_invalid_request c in_caller raw reason =
     logged (active_session in_caller
       (record_invalid_task_ipc_message (rc_name c @ ''/receiver'') raw reason))"

definition discard_request :: "receiver \<Rightarrow> string \<Rightarrow> string \<Rightarrow> string \<Rightarrow> (receiver_state, unit) m" where
  "discard_request c q raw reason =
     on_world (bnd (record_invalid_request c False raw reason) (\<lambda>_. logged (delete_buffered q)))"

text \<open>Why a parsed message is no execution request, if it is none.\<close>

fun request_instance :: "ipc_msg \<Rightarrow> string + ident" where
  "request_instance (ExecuteInstance b i d) =
     (if bm_type b = PendingInstance then Inr i
      else Inl (quoted ''unsupported execute-instance message type'' (ipc_type_name (bm_type b))))"
| "request_instance m = Inl (quoted ''unsupported message type'' (go_type_name m))"

definition claim_instance :: "receiver \<Rightarrow> ident \<Rightarrow> (world, unit) m" where
  "claim_instance c i = in_txn (wrap PersistenceError (mark_task_exec_acquired i (rc_name c)))"

text \<open>A claim that fails for another reason than the database is reported as an engine failure.\<close>

definition refuse_claim :: "receiver \<Rightarrow> string \<Rightarrow> ident \<Rightarrow> (world, unit) m" where
  "refuse_claim c q i =
     bnd (logged (delete_buffered q)) (\<lambda>_.
     bnd time_now (\<lambda>now. logged (report_engine_failed c i now)))"

definition pool_submit :: "ident \<Rightarrow> (world, unit) m" where
  "pool_submit i w =
     (case queue_call (Submitted i) w of
        (Inl _, w1) \<Rightarrow> (Inl (wrapped TaskExecutorError (leaf RuntimeError)), w1)
      | (Inr _, w1) \<Rightarrow> (Inr (), w1))"

text \<open>The pool did not take the instance: it is marked failed and reported.\<close>

definition refuse_submission :: "receiver \<Rightarrow> string \<Rightarrow> ident \<Rightarrow> goerr \<Rightarrow> (receiver_state, unit) m" where
  "refuse_submission c q i err =
     bnd (drop_original q i) (\<lambda>_ s.
     case on_world (bnd (gets err_text) (\<lambda>tx. in_txn (bnd time_now (\<lambda>now.
         wrap PersistenceError (mark_task_exec_failed i (tx err) None now))))) s of
       (Inl e, s1) \<Rightarrow>
         if is_fatal_db_error e then (Inl e, s1)
         else on_world (bnd time_now (\<lambda>now. logged (report_engine_failed c i now))) s1
     | (Inr _, s1) \<Rightarrow> on_world (bnd time_now (\<lambda>now. logged (report_engine_failed c i now))) s1)"

definition claim_and_submit :: "receiver \<Rightarrow> string \<Rightarrow> json \<Rightarrow> ident \<Rightarrow> (receiver_state, unit) m" where
  "claim_and_submit c q j i s =
     (case on_world (claim_instance c i) s of
        (Inl e, s1) \<Rightarrow>
          if is_fatal_db_error e then (Inl (wrapped TaskReceiverError e), s1)
          else on_world (refuse_claim c q i) s1
      | (Inr _, s1) \<Rightarrow>
          (let s2 = s1\<lparr>rv_msgs := (rv_msgs s1)(i \<mapsto> j)\<rparr> in
           case on_world (pool_submit i) s2 of
             (Inl e, s3) \<Rightarrow> refuse_submission c q i (wrapped TaskReceiverError e) s3
           | (Inr _, s3) \<Rightarrow> (Inr (), s3)))"

definition process_one_ipc_request :: "receiver \<Rightarrow> string \<Rightarrow> received \<Rightarrow> (receiver_state, unit) m" where
  "process_one_ipc_request c q msg =
     (case msg of
        ReadFailed \<Rightarrow> throw (wrapped TaskReceiverError (wrapped IPCMessageQueueError (leaf RedisError)))
      | NoMessage \<Rightarrow> ret ()
      | Unreadable \<Rightarrow> discard_request c q [] ''unreadable payload''
      | Payload j \<Rightarrow>
          bnd (gets (\<lambda>s. text_of (rv_world s) j)) (\<lambda>raw.
          case parse_ipc_message j of
            Inl _ \<Rightarrow> discard_request c q raw ''unparsable message''
          | Inr m \<Rightarrow>
              (case request_instance m of
                 Inl reason \<Rightarrow> discard_request c q raw reason
               | Inr i \<Rightarrow> claim_and_submit c q j i)))"

text \<open>The loop over one queue; the result is the fault handed to the application, if any.\<close>

fun process_one_queue :: "receiver \<Rightarrow> string \<Rightarrow> received list \<Rightarrow> (receiver_state, goerr option) m" where
  "process_one_queue c q [] s = (Inr None, s)"
| "process_one_queue c q (msg # rest) s =
     (case process_one_ipc_request c q msg s of
        (Inl e, s1) \<Rightarrow> if is_fatal_db_error e then (Inr (Some e), s1) else process_one_queue c q rest s1
      | (Inr _, s1) \<Rightarrow> process_one_queue c q rest s1)"

section \<open>Start-up\<close>

text \<open>
  The buffered execution requests by instance, a later message replacing an earlier one (a Go map,
  read in the order of first insertion). The list is what the successive reads of the buffer yield.
\<close>

fun put_request :: "ident \<Rightarrow> json \<Rightarrow> (ident \<times> json) list \<Rightarrow> (ident \<times> json) list" where
  "put_request i j [] = [(i, j)]"
| "put_request i j ((k, x) # ks) = (if k = i then (i, j) # ks else (k, x) # put_request i j ks)"

fun drain_buffer ::
  "receiver \<Rightarrow> bool \<Rightarrow> received list \<Rightarrow> (ident \<times> json) list \<Rightarrow> (world, (ident \<times> json) list) m"
where
  "drain_buffer c b [] reqs = ret reqs"
| "drain_buffer c b (ReadFailed # rest) reqs =
     throw (wrapped TaskReceiverError (wrapped IPCMessageQueueError (leaf RedisError)))"
| "drain_buffer c b (NoMessage # rest) reqs = ret reqs"
| "drain_buffer c b (Unreadable # rest) reqs =
     bnd (record_invalid_request c b [] ''unreadable payload'') (\<lambda>_. drain_buffer c b rest reqs)"
| "drain_buffer c b (Payload j # rest) reqs =
     bnd (gets (\<lambda>w. text_of w j)) (\<lambda>raw.
     case parse_ipc_message j of
       Inl _ \<Rightarrow> bnd (record_invalid_request c b raw ''unparsable message'') (\<lambda>_. drain_buffer c b rest reqs)
     | Inr (ExecuteInstance h i d) \<Rightarrow>
         drain_buffer c b rest (if bm_type h = PendingInstance then put_request i j reqs else reqs)
     | Inr m \<Rightarrow>
         bnd (record_invalid_request c b raw (quoted ''unsupported message type'' (go_type_name m)))
           (\<lambda>_. drain_buffer c b rest reqs))"

text \<open>What becomes of each buffered request: the instances to report failed, the requests to retry.\<close>

fun sort_requests ::
  "receiver \<Rightarrow> (ident \<times> json) list \<Rightarrow> ident list \<Rightarrow> json list \<Rightarrow> (world, ident list \<times> json list) m"
where
  "sort_requests c [] failed retry = ret (failed, retry)"
| "sort_requests c ((i, j) # reqs) failed retry =
     bnd (wrap PersistenceError (get_task_execution i)) (\<lambda>e.
     case e_state e of
       ExecEnqueued \<Rightarrow> sort_requests c reqs failed (retry @ [j])
     | ExecAcquired \<Rightarrow>
         sort_requests c reqs (case e_worker e of
             None \<Rightarrow> failed @ [e_id e] | Some n \<Rightarrow> if n \<noteq> rc_name c then failed else failed @ [e_id e]) retry
     | ExecProcessing \<Rightarrow>
         sort_requests c reqs (case e_worker e of
             None \<Rightarrow> failed @ [e_id e] | Some n \<Rightarrow> if n \<noteq> rc_name c then failed else failed @ [e_id e]) retry
     | _ \<Rightarrow> sort_requests c reqs failed retry)"

definition fail_owned :: "receiver \<Rightarrow> (world, ident list) m" where
  "fail_owned c =
     bnd (wrap PersistenceError (list_all_executions
       (any_exec\<lparr>ef_worker := Some (rc_name c), ef_states := [ExecAcquired, ExecProcessing]\<rparr>))) (\<lambda>owned.
     bnd (for_each owned (\<lambda>e. bnd time_now (\<lambda>now. wrap PersistenceError
       (mark_task_exec_failed (e_id e) ''execution worker restarted before completion'' None now)))) (\<lambda>_.
     ret (map e_id owned)))"

definition initialize_queue :: "receiver \<Rightarrow> bool \<Rightarrow> string \<Rightarrow> received list \<Rightarrow> (world, unit) m" where
  "initialize_queue c in_caller q buffered =
     bnd (drain_buffer c in_caller buffered []) (\<lambda>reqs.
     bnd (wrap TaskReceiverError (active_session in_caller (
       bnd (sort_requests c reqs [] []) (\<lambda>(failed, retry).
       bnd (fail_owned c) (\<lambda>owned. ret (failed @ owned, retry)))))) (\<lambda>(failed, retry).
     bnd time_now (\<lambda>now.
     bnd (for_each failed (\<lambda>i. wrap TaskReceiverError (report_processing_failed c i None now))) (\<lambda>_.
     for_each retry (\<lambda>j. wrap TaskReceiverError (re_enqueue q j))))))"

definition initialize_receiver :: "receiver \<Rightarrow> bool \<Rightarrow> (string \<times> received list) list \<Rightarrow> (world, unit) m" where
  "initialize_receiver c in_caller queues =
     for_each queues (\<lambda>(q, buffered). wrap TaskReceiverError (initialize_queue c in_caller q buffered))"

section \<open>What a worker may do to the tables\<close>

text \<open>The processors of the application do not write the tables of the engine.\<close>

definition reads_only :: "receiver \<Rightarrow> bool" where
  "reads_only c \<longleftrightarrow> (\<forall>n p t e w. rc_processors c n = Some p \<longrightarrow> db (snd (p t e w)) = db w)"

locale worker_evolution = log_evolution D for D :: "tables \<Rightarrow> tables \<Rightarrow> bool" +
  assumes exec_update_admitted: "evolves W (update_task_execution_state i s u)"
begin

definition RW :: "receiver_state \<Rightarrow> receiver_state \<Rightarrow> bool" where
  "RW s s' \<longleftrightarrow> W (rv_world s) (rv_world s')"

end

sublocale worker_evolution \<subseteq> receiver: evolution RW
  by unfold_locales (auto simp: RW_def W_def D_refl intro: D_trans)

context worker_evolution
begin

lemma rv_on_world: "evolves W p \<Longrightarrow> evolves RW (on_world p)"
  by (rule evolvesI) (auto simp: on_world_result RW_def dest: evolvesD)

lemma rv_modify_msgs: "evolves RW (modify (\<lambda>s. s\<lparr>rv_msgs := f s\<rparr>))"
  by (simp add: evolves_def RW_def R_refl)

lemmas ev_worker_ops = exec_update_admitted ev_queue_call ev_log

lemmas rv_rules = rv_on_world rv_modify_msgs receiver.ev_rules

lemma ev_preprocess: "evolves W (preprocess_execution i)"
  unfolding preprocess_execution_def mark_exec_defs by (intro ev_worker_ops)

lemma ev_run_processor: "reads_only c \<Longrightarrow> evolves W (run_processor c e t)"
  unfolding run_processor_def
  by (auto split: option.split intro!: ev_throw ev_wrap simp: evolves_def W_def reads_only_def D_refl wrap_snd)

lemma ev_postprocess: "evolves W (postprocess_execution i r)"
  unfolding postprocess_execution_def mark_exec_defs by (intro ev_worker_ops)

lemma ev_report_outcome: "evolves W (report_outcome c i err t)"
  unfolding report_outcome_def report_processing_completed_def report_processing_failed_def
    report_engine_failed_def
  by (intro ev_worker_ops)

lemma rv_drop_original: "evolves RW (drop_original q i)"
  unfolding drop_original_def by (intro rv_rules ev_worker_ops)

lemma rv_on_complete: "evolves RW (on_task_complete c q i err t)"
  unfolding on_task_complete_def by (intro rv_drop_original rv_rules ev_report_outcome ev_worker_ops)

lemma rv_execute:
  assumes "reads_only c"
  shows "evolves RW (execute_instance c q i)"
proof (rule evolvesI)
  fix s r s'
  assume run: "execute_instance c q i s = (r, s')"
  let ?cb = "on_task_complete c q"
  have tail: "evolves RW (bnd (on_world time_now) (\<lambda>now. ?cb i err now))" for err
    by (intro rv_rules rv_on_complete ev_time_now)
  have tail2: "evolves RW (bnd (on_world time_now) (\<lambda>now. bnd (?cb i err now) (\<lambda>_. throw e)))" for err e
    by (intro rv_rules rv_on_complete ev_time_now)
  obtain x s1 where one: "on_world (preprocess_execution i) s = (x, s1)" by (rule prod.exhaust)
  have r1: "RW s s1" by (rule evolvesD [OF rv_on_world [OF ev_preprocess] one])
  show "RW s s'"
  proof (cases x)
    case (Inl err)
    then have "s' = snd (bnd (on_world time_now) (\<lambda>now. bnd (?cb i (Some (wrapped TaskPreprocessError err)) now)
        (\<lambda>_. throw (wrapped TaskPreprocessError err) :: (receiver_state, unit) m)) s1)"
      using run one by (simp add: execute_instance_def process_execution_instance_def Let_def)
    then show ?thesis using receiver.R_trans [OF r1 evolves_snd [OF tail2]] by (simp only:)
  next
    case (Inr et)
    obtain e t where et: "et = (e, t)" by (rule prod.exhaust)
    obtain y s2 where two: "on_world (run_processor c e t) s1 = (y, s2)" by (rule prod.exhaust)
    obtain z s3 where three: "on_world (postprocess_execution i y) s2 = (z, s3)" by (rule prod.exhaust)
    have "RW s1 s2" by (rule evolvesD [OF rv_on_world [OF ev_run_processor [OF assms]] two])
    moreover have "RW s2 s3" by (rule evolvesD [OF rv_on_world [OF ev_postprocess] three])
    moreover have "\<exists>err. s' = snd (bnd (on_world time_now) (\<lambda>now. ?cb i err now) s3)"
      using run one two three Inr et
      by (cases z) (auto simp: execute_instance_def process_execution_instance_def split: sum.splits)
    ultimately show ?thesis using r1 evolves_snd [OF tail] receiver.R_trans by blast
  qed
qed

lemma ev_record_request: "evolves W (record_invalid_request c b raw reason)"
  unfolding record_invalid_request_def by (intro ev_worker_ops)

lemma rv_discard: "evolves RW (discard_request c q raw reason)"
  unfolding discard_request_def by (intro rv_rules ev_record_request ev_worker_ops)

lemma ev_claim: "evolves W (claim_instance c i)"
  unfolding claim_instance_def mark_exec_defs by (intro ev_worker_ops)

lemma ev_refuse_claim: "evolves W (refuse_claim c q i)"
  unfolding refuse_claim_def report_engine_failed_def by (intro ev_worker_ops)

lemma ev_pool_submit: "evolves W (pool_submit i)"
proof (rule evolvesI)
  fix w r w'
  assume "pool_submit i w = (r, w')"
  then obtain x where "queue_call (Submitted i) w = (x, w')"
    by (auto simp: pool_submit_def split: prod.splits sum.splits)
  then show "W w w'" by (rule evolvesD [OF ev_queue_call])
qed

lemma ev_report_engine: "evolves W (bnd time_now (\<lambda>now. logged (report_engine_failed c i now)))"
  unfolding report_engine_failed_def by (intro ev_worker_ops)

lemma rv_refuse_submission: "evolves RW (refuse_submission c q i err)"
proof -
  let ?p = "bnd (gets err_text) (\<lambda>tx. in_txn (bnd time_now (\<lambda>now.
         wrap PersistenceError (mark_task_exec_failed i (tx err) None now))))"
  have p: "evolves RW (on_world ?p)"
    unfolding mark_exec_defs by (intro rv_on_world ev_worker_ops)
  have q: "evolves RW (on_world (bnd time_now (\<lambda>now. logged (report_engine_failed c i now))))"
    by (intro rv_on_world ev_report_engine)
  have "RW s (snd (case on_world ?p s of
       (Inl e, s1) \<Rightarrow> if is_fatal_db_error e then (Inl e, s1)
         else on_world (bnd time_now (\<lambda>now. logged (report_engine_failed c i now))) s1
     | (Inr _, s1) \<Rightarrow> on_world (bnd time_now (\<lambda>now. logged (report_engine_failed c i now))) s1))" for s
  proof -
    obtain x s1 where one: "on_world ?p s = (x, s1)" by (rule prod.exhaust)
    have "RW s s1" by (rule evolvesD [OF p one])
    moreover have "RW s1 (snd (on_world (bnd time_now (\<lambda>now. logged (report_engine_failed c i now))) s1))"
      using q by (simp add: evolves_def)
    ultimately show ?thesis unfolding one by (cases x) (auto intro: receiver.R_trans)
  qed
  then show ?thesis
    unfolding refuse_submission_def by (intro receiver.ev_bnd rv_drop_original) (simp add: evolves_def)
qed

lemma rv_claim_and_submit: "evolves RW (claim_and_submit c q j i)"
proof (rule evolvesI)
  fix s r s'
  assume run: "claim_and_submit c q j i s = (r, s')"
  obtain x s1 where one: "on_world (claim_instance c i) s = (x, s1)" by (rule prod.exhaust)
  have r1: "RW s s1" by (rule evolvesD [OF rv_on_world [OF ev_claim] one])
  have "RW s1 s'"
  proof (cases x)
    case (Inl e)
    then show ?thesis
      using run one evolvesD [OF rv_on_world [OF ev_refuse_claim]]
      by (auto simp: claim_and_submit_def receiver.R_refl split: if_splits)
  next
    case (Inr u)
    let ?s2 = "s1\<lparr>rv_msgs := (rv_msgs s1)(i \<mapsto> j)\<rparr>"
    have r2: "RW s1 ?s2" by (simp add: RW_def R_refl)
    obtain y s3 where two: "on_world (pool_submit i) ?s2 = (y, s3)" by (rule prod.exhaust)
    have "RW ?s2 s3" by (rule evolvesD [OF rv_on_world [OF ev_pool_submit] two])
    then show ?thesis
      using run one two Inr r2 evolvesD [OF rv_refuse_submission]
      by (cases y) (auto simp: claim_and_submit_def intro: receiver.R_trans)
  qed
  with r1 show "RW s s'" by (rule receiver.R_trans)
qed

lemma rv_request: "evolves RW (process_one_ipc_request c q msg)"
  unfolding process_one_ipc_request_def
  by (cases msg) (simp_all, (intro rv_rules rv_discard rv_claim_and_submit)+)

lemma rv_queue: "RW s (snd (process_one_queue c q msgs s))"
proof (induction c q msgs s rule: process_one_queue.induct)
  case (1 c q s)
  then show ?case by (simp add: receiver.R_refl)
next
  case (2 c q msg rest s)
  obtain x s1 where run: "process_one_ipc_request c q msg s = (x, s1)" by (rule prod.exhaust)
  have "RW s s1" by (rule evolvesD [OF rv_request run])
  then show ?case using 2 run by (auto split: sum.splits intro: receiver.R_trans)
qed

lemma ev_drain: "evolves W (drain_buffer c b msgs reqs)"
proof (induction c b msgs reqs rule: drain_buffer.induct)
  case (5 c b j rest reqs)
  show ?case
    unfolding drain_buffer.simps
  proof (rule ev_bnd [OF ev_gets])
    fix tx :: "json \<Rightarrow> string"
    show "evolves W (case parse_ipc_message j of
       Inl _ \<Rightarrow> bnd (record_invalid_request c b (tx j) ''unparsable message'') (\<lambda>_. drain_buffer c b rest reqs)
     | Inr (ExecuteInstance h i d) \<Rightarrow>
         drain_buffer c b rest (if bm_type h = PendingInstance then put_request i j reqs else reqs)
     | Inr m \<Rightarrow>
         bnd (record_invalid_request c b (tx j) (quoted ''unsupported message type'' (go_type_name m)))
           (\<lambda>_. drain_buffer c b rest reqs))"
      using 5 by (auto split: sum.split ipc_msg.split intro!: ev_bnd ev_record_request)
  qed
next
  case (1 c b reqs)
  show ?case unfolding drain_buffer.simps by (rule ev_ret)
next
  case (2 c b rest reqs)
  show ?case unfolding drain_buffer.simps by (rule ev_throw)
next
  case (3 c b rest reqs)
  show ?case unfolding drain_buffer.simps by (rule ev_ret)
next
  case (4 c b rest reqs)
  then show ?case unfolding drain_buffer.simps by (intro ev_bnd ev_record_request)
qed

lemma ev_sort_requests: "evolves W (sort_requests c reqs failed retry)"
proof (induction c reqs failed retry rule: sort_requests.induct)
  case (2 c i j reqs failed retry)
  then show ?case
    unfolding sort_requests.simps
    by (intro ev_bnd ev_wrap ev_get_task_execution) (simp split: exec_state.split)
qed (unfold sort_requests.simps, rule ev_ret)

lemma ev_fail_owned: "evolves W (fail_owned c)"
  unfolding fail_owned_def mark_exec_defs by (intro ev_worker_ops)

lemma ev_initialize: "evolves W (initialize_receiver c b queues)"
  unfolding initialize_receiver_def initialize_queue_def report_processing_failed_def
  by (intro ev_for_each ev_case_prod ev_drain ev_sort_requests ev_fail_owned ev_worker_ops)

end

sublocale task_evolution \<subseteq> worker_evolution D
  by unfold_locales (rule ev_update_task_execution_state)

end
