(* ===== verification/Notifications.thy ===== *)
theory Notifications
  imports Workflow_Outcomes
begin

text \<open>
  The notification framework: the producer that polls the audit log and publishes what it finds
  (\<open>notify/producer.go\<close>) and the consumer that hands what it receives to a callback
  (\<open>notify/consumer.go\<close>), here the one of the workflow scheduler.
\<close>

section \<open>Routing\<close>

record producer_config =
  pc_poll_secs :: int
  pc_batch :: int
  pc_firehose :: bool
  pc_type :: bool
  pc_creator :: bool

definition poll_interval :: "producer_config \<Rightarrow> duration" where
  "poll_interval c = wrap64 (second * pc_poll_secs c)"

fun meta_creator :: "event_meta \<Rightarrow> string" where
  "meta_creator (TaskEvents _ c) = c"
| "meta_creator (EngineFailure _ _ _ c) = c"
| "meta_creator (WorkflowEvents _ c) = c"
| "meta_creator (StepEvents _ _ c) = c"
| "meta_creator (InvalidIpc _ _ _) = []"

fun meta_subject :: "event_meta \<Rightarrow> (string \<times> ident) option" where
  "meta_subject (TaskEvents t _) = Some (''task'', t)"
| "meta_subject (EngineFailure t _ _ _) = Some (''task'', t)"
| "meta_subject (WorkflowEvents w _) = Some (''workflow'', w)"
| "meta_subject (StepEvents _ w _) = Some (''workflow'', w)"
| "meta_subject (InvalidIpc _ _ _) = None"

definition derive_creator :: "event_row \<Rightarrow> goerr + string" where
  "derive_creator v =
     (case parse_event_metadata (v_type v) (v_meta v) of Inl e \<Rightarrow> Inl e | Inr m \<Rightarrow> Inr (meta_creator m))"

definition derive_subject :: "event_row \<Rightarrow> (string \<times> ident) option" where
  "derive_subject v =
     (case parse_event_metadata (v_type v) (v_meta v) of Inl _ \<Rightarrow> None | Inr m \<Rightarrow> meta_subject m)"

definition route_event :: "producer_config \<Rightarrow> event_row \<Rightarrow> goerr + string list \<times> notification" where
  "route_event c v =
     (case derive_creator v of
        Inl e \<Rightarrow> Inl e
      | Inr creator \<Rightarrow>
          (let subject = derive_subject v;
               channels =
                 (if pc_firehose c then [firehose_channel] else []) @
                 (if pc_type c then [type_channel (v_type v)] else []) @
                 (if pc_creator c \<and> creator \<noteq> []
                  then [creator_channel creator, creator_type_channel creator (v_type v)] else []) @
                 (case subject of None \<Rightarrow> [] | Some (k, i) \<Rightarrow> [subject_channel k i])
           in Inr (channels,
             \<lparr>nf_id = v_id v, nf_type = event_type_name (v_type v), nf_created = v_created v,
               nf_creator = (if creator = [] then None else Some creator),
               nf_subject_type = map_option fst subject, nf_subject_id = map_option snd subject,
               nf_meta = Some (v_meta v)\<rparr>)))"

section \<open>The producer\<close>

text \<open>One event on all its channels; whether every call succeeded.\<close>

primrec publish_all :: "notification \<Rightarrow> string list \<Rightarrow> (world, bool) m" where
  "publish_all n [] = ret True"
| "publish_all n (ch # chs) =
     bnd (attempt (queue_call (Published ch n))) (\<lambda>ok.
     bnd (publish_all n chs) (\<lambda>rest. ret (ok \<and> rest)))"

text \<open>The events of a batch that were published cleanly.\<close>

primrec publish_batch :: "producer_config \<Rightarrow> event_row list \<Rightarrow> (world, ident list) m" where
  "publish_batch c [] = ret []"
| "publish_batch c (v # vs) =
     (case route_event c v of
        Inl _ \<Rightarrow> publish_batch c vs
      | Inr (chs, n) \<Rightarrow>
          bnd (publish_all n chs) (\<lambda>ok.
          bnd (publish_batch c vs) (\<lambda>ids. ret (if ok then v_id v # ids else ids))))"

definition unsent_events :: "int \<Rightarrow> event_filter" where
  "unsent_events n = \<lparr>pg_limit = Some n, pg_offset = None, vf_types = [], vf_after = None,
     vf_before = None, vf_unsent = True\<rparr>"

definition produce_notifications :: "producer_config \<Rightarrow> (world, unit) m" where
  "produce_notifications c =
     bnd (wrap NotifyProducerError (in_txn (wrap PersistenceError
       (list_system_events (unsent_events (pc_batch c)))))) (\<lambda>batch.
     if batch = [] then ret ()
     else
       bnd (publish_batch c batch) (\<lambda>ids.
       if ids = [] then ret ()
       else
         bnd time_now (\<lambda>now.
         wrap NotifyProducerError (in_txn (wrap PersistenceError (mark_system_events_broadcast ids now))))))"

section \<open>The consumer\<close>

text \<open>\<open>onMessage\<close>: what cannot be read or decoded is dropped.\<close>

definition on_message :: "(notification \<Rightarrow> (world, unit) m) \<Rightarrow> json option \<Rightarrow> (world, unit) m" where
  "on_message callback payload =
     (case payload of
        None \<Rightarrow> ret ()
      | Some j \<Rightarrow> (case decode_notification j of None \<Rightarrow> ret () | Some n \<Rightarrow> callback n))"

text \<open>The callback of the workflow scheduler, and the channel it subscribes to.\<close>

definition workflow_callback :: "wf_sched \<Rightarrow> notification \<Rightarrow> (world, unit) m" where
  "workflow_callback c n =
     (case enum_of event_type_name event_type_values (nf_type n) of
        None \<Rightarrow> ret ()
      | Some ty \<Rightarrow> on_notification c ty (nf_subject_id n))"

definition workflow_topics :: "string list" where
  "workflow_topics = [creator_channel wf_task_creator]"

section \<open>From the audit log to the workflow scheduler\<close>

text \<open>The events of a task \<open>t\<close> that the workflow engine created: those of its state changes
  (\<open>update_task_state\<close>, \<open>task_event\<close>) and its engine failure (\<open>record_task_engine_failure\<close>).\<close>

definition step_task_event :: "ident \<Rightarrow> event_row \<Rightarrow> bool" where
  "step_task_event t v \<longleftrightarrow>
     v_type v \<in> {ActivateTask, CompleteTask, FailedTask, CancelledTask, TimedOutTask, DeleteTask} \<and>
       v_meta v = meta_json (TaskEvents t wf_task_creator) \<or>
     v_type v = EngineFailedTask \<and>
       (\<exists>i reason. i \<noteq> [] \<and> v_meta v = meta_json (EngineFailure t i reason wf_task_creator))"

text \<open>C27. The feedback path of the workflow engine, with channels per creator switched on
  (\<open>EmitCreator\<close>): an event of a task that the engine created, an engine failure included, is routed
  to the channel the workflow scheduler subscribes to, and the message that arrives there makes the
  scheduler handle exactly that event of that task.\<close>

theorem step_feedback_delivered:
  assumes "pc_creator c" "t \<noteq> []" "step_task_event t v"
  shows "\<exists>chs n. route_event c v = Inr (chs, n) \<and> set workflow_topics \<subseteq> set chs \<and>
    on_message (workflow_callback s) (Some (notification_json n)) = on_notification s (v_type v) (Some t)"
proof -
  obtain m where "parse_event_metadata (v_type v) (v_meta v) = Inr m"
    and m: "meta_creator m = wf_task_creator" "meta_subject m = Some (''task'', t)"
  proof -
    from assms(3) obtain m where v: "v_meta v = meta_json m"
      and m: "meta_creator m = wf_task_creator" "meta_subject m = Some (''task'', t)" "meta_valid m"
        "kind_of_type (v_type v) = kind_of_meta m"
      using assms(2) unfolding step_task_event_def
      by (elim disjE conjE exE) (fastforce simp: wf_task_creator_def)+
    show ?thesis
      by (rule that [of m]) (use v m parse_event_metadata_roundtrip [of "v_type v" m] in simp_all)
  qed
  then show ?thesis
    using assms(1)
    by (simp add: route_event_def derive_creator_def derive_subject_def on_message_def
        workflow_topics_def workflow_callback_def decode_notification_roundtrip)
      (simp add: wf_task_creator_def)
qed

section \<open>At least once\<close>

lemma publish_all_result:
  "publish_all n chs w = (r, w') \<Longrightarrow>
    \<exists>ok hs. r = Inr ok \<and> db w' = db w \<and> history w' = history w @ hs \<and>
      (ok \<longrightarrow> (\<forall>ch \<in> set chs. Published ch n \<in> set hs))"
proof (induction chs arbitrary: w r w')
  case (Cons ch chs)
  let ?call = "queue_call (Published ch n)"
  obtain x w1 where call: "?call w = (x, w1)" by (rule prod.exhaust)
  obtain y w2 where rest: "publish_all n chs w1 = (y, w2)" by (rule prod.exhaust)
  from Cons.IH [OF rest] obtain ok hs where
    ih: "y = Inr ok" "db w2 = db w1" "history w2 = history w1 @ hs" "ok \<longrightarrow> (\<forall>ch \<in> set chs. Published ch n \<in> set hs)"
    by blast
  obtain b where "attempt ?call w = (Inr b, w1)" and b: "b = (\<exists>u. x = Inr u)"
    using call by (cases x) (auto simp: attempt_def)
  then have run: "r = Inr (b \<and> ok)" "w' = w2"
    using Cons.prems rest ih(1) by auto
  have "\<exists>h. history w1 = history w @ h \<and> (b \<longrightarrow> Published ch n \<in> set h) \<and> db w1 = db w"
    using call b by (auto simp: queue_call_def Let_def record_action_def split: if_splits)
  then show ?case using run ih by auto
qed (auto intro: exI [of _ True])

definition sent_in :: "producer_config \<Rightarrow> action list \<Rightarrow> event_row \<Rightarrow> bool" where
  "sent_in c hs v \<longleftrightarrow> (\<exists>chs n. route_event c v = Inr (chs, n) \<and> (\<forall>ch \<in> set chs. Published ch n \<in> set hs))"

lemma sent_in_mono: "sent_in c hs v \<Longrightarrow> set hs \<subseteq> set ks \<Longrightarrow> sent_in c ks v"
  unfolding sent_in_def by blast

lemma publish_batch_result:
  "publish_batch c vs w = (r, w') \<Longrightarrow>
    \<exists>ids hs. r = Inr ids \<and> db w' = db w \<and> history w' = history w @ hs \<and>
      (\<forall>i \<in> set ids. \<exists>v \<in> set vs. v_id v = i \<and> sent_in c hs v)"
proof (induction vs arbitrary: w r w')
  case (Cons v vs)
  show ?case
  proof (cases "route_event c v")
    case (Inl e)
    with Cons.prems have "publish_batch c vs w = (r, w')" by simp
    from Cons.IH [OF this] show ?thesis by (metis list.set_intros(2))
  next
    case (Inr x)
    obtain chs n where x: "x = (chs, n)" by (rule prod.exhaust)
    obtain y w1 where one: "publish_all n chs w = (y, w1)" by (rule prod.exhaust)
    obtain z w2 where rest: "publish_batch c vs w1 = (z, w2)" by (rule prod.exhaust)
    from publish_all_result [OF one] obtain ok hs where
      1: "y = Inr ok" "db w1 = db w" "history w1 = history w @ hs" "ok \<longrightarrow> (\<forall>ch \<in> set chs. Published ch n \<in> set hs)"
      by blast
    from Cons.IH [OF rest] obtain ids ks where
      2: "z = Inr ids" "db w2 = db w1" "history w2 = history w1 @ ks"
        "\<forall>i \<in> set ids. \<exists>v \<in> set vs. v_id v = i \<and> sent_in c ks v"
      by blast
    have run: "r = Inr (if ok then v_id v # ids else ids)" "w' = w2"
      using Cons.prems one rest Inr x 1(1) 2(1) by auto
    have "sent_in c (hs @ ks) v" if ok using that 1(4) Inr x by (auto simp: sent_in_def)
    moreover have "\<exists>v \<in> set vs. v_id v = i \<and> sent_in c (hs @ ks) v" if i: "i \<in> set ids" for i
    proof -
      from 2(4) i obtain u where "u \<in> set vs" "v_id u = i" "sent_in c ks u" by blast
      then show ?thesis using sent_in_mono [of c ks u "hs @ ks"] by auto
    qed
    ultimately show ?thesis
      using run 1 2 by (intro exI [of _ "if ok then v_id v # ids else ids"] exI [of _ "hs @ ks"]) auto
  qed
qed simp

lemma stamping:
  assumes "wrap k (in_txn (wrap k' (mark_system_events_broadcast ids t))) w = (r, w')"
    and "v \<in> set (events (db w'))" "v \<notin> set (events (db w))"
  shows "\<exists>u \<in> set (events (db w)). v_id u \<in> set ids \<and> v_broadcast u = None \<and> v = u\<lparr>v_broadcast := Some t\<rparr>"
proof -
  obtain r' where txn: "in_txn (wrap k' (mark_system_events_broadcast ids t)) w = (r', w')"
    using assms(1) by (auto simp: wrap_def split: prod.splits sum.splits)
  with assms(2,3) obtain u where "r' = Inr u" by (cases r') (auto dest: in_txn_error)
  with txn obtain w1 w2 where same: "db w1 = db w" "db w2 = db w'"
    and mark: "mark_system_events_broadcast ids t w1 = (Inr u, w2)"
    by (auto simp: wrap_result_Inr dest!: in_txn_ok)
  have "events (db w') = events (db w) \<or> events (db w') =
      update_rows (\<lambda>v. v_id v \<in> set ids \<and> v_broadcast v = None) (\<lambda>v. v\<lparr>v_broadcast := Some t\<rparr>) (events (db w))"
  proof (cases "ids = []")
    case False
    with mark have "change (\<lambda>d. d\<lparr>events := update_rows (\<lambda>v. v_id v \<in> set ids \<and> v_broadcast v = None)
        (\<lambda>v. v\<lparr>v_broadcast := Some t\<rparr>) (events d)\<rparr>) w1 = (Inr u, w2)"
      by (simp add: mark_system_events_broadcast_def wrap_result_Inr)
    from arg_cong [OF change_ok [OF this], of events] same show ?thesis by simp
  qed (use mark same in \<open>simp add: mark_system_events_broadcast_def\<close>)
  with assms(2,3) show ?thesis by (auto dest!: in_update_rows split: if_splits) blast
qed

lemma listing_reads: "evolves unchanged.W (wrap k (in_txn (wrap k' (list_system_events f))))"
  unfolding list_system_events_def by (intro unchanged.ev_store)

lemma listing_logs:
  "evolves (\<lambda>w w'. prefix (history w) (history w')) (wrap k (in_txn (wrap k' (list_system_events f))))"
  unfolding list_system_events_def select_all_def by (intro log_rules)

lemma stamping_logs:
  "evolves (\<lambda>w w'. prefix (history w) (history w')) (wrap k (in_txn (wrap k' (mark_system_events_broadcast ids t))))"
  unfolding mark_system_events_broadcast_def change_def by (intro log_rules)

lemma listed_events:
  assumes "wrap k (in_txn (wrap k' (list_system_events (unsent_events n)))) w = (Inr vs, w')"
  shows "set vs \<subseteq> {v \<in> set (events (db w)). v_broadcast v = None}"
proof -
  obtain w1 w2 where "db w1 = db w" "list_system_events (unsent_events n) w1 = (Inr vs, w2)"
    using assms by (auto simp: wrap_result_Inr dest!: in_txn_ok)
  then show ?thesis
    using page_rows_subset
    by (fastforce simp: list_system_events_def wrap_result_Inr unsent_events_def
        dest!: select_all_ok split: if_splits)
qed

text \<open>C25. Production is at least once: whatever fails, an event that a poll newly stamps as broadcast
  was published by this poll on every channel it is routed to, and it was unstamped before.\<close>

theorem stamped_after_published:
  assumes "produce_notifications c w = (r, w')" "distinct (map v_id (events (db w)))"
    "v \<in> set (events (db w'))" "v \<notin> set (events (db w))"
  shows "\<exists>u hs t. u \<in> set (events (db w)) \<and> v = u\<lparr>v_broadcast := Some t\<rparr> \<and> v_broadcast u = None \<and>
    history w' = history w @ hs \<and> sent_in c hs u"
proof -
  let ?list = "wrap NotifyProducerError (in_txn (wrap PersistenceError
      (list_system_events (unsent_events (pc_batch c)))))"
  obtain x w1 where list: "?list w = (x, w1)" by (rule prod.exhaust)
  have same: "db w1 = db w"
    using evolvesD [OF listing_reads list] by (simp add: unchanged.W_def)
  obtain h1 where h1: "history w1 = history w @ h1"
    using evolvesD [OF listing_logs list] by (auto simp: prefix_def)
  obtain vs where x: "x = Inr vs" and "vs \<noteq> []"
    using assms(1,3,4) list same by (cases x) (auto simp: produce_notifications_def split: if_splits)
  obtain y w2 where batch: "publish_batch c vs w1 = (y, w2)" by (rule prod.exhaust)
  from publish_batch_result [OF batch] obtain ids h2 where
    y: "y = Inr ids" and db2: "db w2 = db w1" and h2: "history w2 = history w1 @ h2"
    and sent: "\<forall>i \<in> set ids. \<exists>v \<in> set vs. v_id v = i \<and> sent_in c h2 v"
    by blast
  let ?stamp = "\<lambda>now. wrap NotifyProducerError (in_txn (wrap PersistenceError
      (mark_system_events_broadcast ids now)))"
  have "ids \<noteq> []"
    using assms(1,3,4) list batch x y same db2 \<open>vs \<noteq> []\<close> by (auto simp: produce_notifications_def)
  define w3 t where "w3 = w2\<lparr>ticks := Suc (ticks w2)\<rparr>" and "t = clock w2 (ticks w2)"
  then have w3: "db w3 = db w2" "history w3 = history w2" and stamp: "?stamp t w3 = (r, w')"
    using assms(1) list batch x y \<open>vs \<noteq> []\<close> \<open>ids \<noteq> []\<close> by (simp_all add: produce_notifications_def)
  obtain h3 where h3: "history w' = history w3 @ h3"
    using evolvesD [OF stamping_logs stamp] by (auto simp: prefix_def)
  obtain u where u: "u \<in> set (events (db w))" "v_id u \<in> set ids" "v_broadcast u = None"
    "v = u\<lparr>v_broadcast := Some t\<rparr>"
    using stamping [OF stamp assms(3)] assms(4) w3 db2 same by auto
  with sent obtain z where z: "z \<in> set vs" "v_id z = v_id u" "sent_in c h2 z" by blast
  have "z = u"
    using listed_events [OF list [unfolded x]] z(1,2) u(1) assms(2) by (auto simp: distinct_map inj_on_def)
  then have "sent_in c (h1 @ h2 @ h3) u" using z(3) sent_in_mono [of c h2 u "h1 @ h2 @ h3"] by auto
  then show ?thesis
    using u h1 h2 h3 w3 by (intro exI [of _ u] exI [of _ "h1 @ h2 @ h3"] exI [of _ t]) simp
qed

section \<open>Progress\<close>

definition next_batch :: "producer_config \<Rightarrow> tables \<Rightarrow> event_row list" where
  "next_batch c d = take (nat (pc_batch c)) (sort_key v_id (filter (\<lambda>v. v_broadcast v = None) (events d)))"

lemma listed_batch:
  assumes "wrap k (in_txn (wrap k' (list_system_events (unsent_events (pc_batch c))))) w = (Inr vs, w')"
  shows "vs = next_batch c (db w)"
proof -
  obtain w1 w2 where "db w1 = db w" "list_system_events (unsent_events (pc_batch c)) w1 = (Inr vs, w2)"
    using assms by (auto simp: wrap_result_Inr dest!: in_txn_ok)
  then show ?thesis
    by (auto simp: list_system_events_def wrap_result_Inr unsent_events_def page_rows_def Let_def
        next_batch_def in_or_any_def page.truncate_def dest!: select_all_ok split: if_splits)
qed

lemma publish_poison: "\<forall>v \<in> set vs. \<exists>e. route_event c v = Inl e \<Longrightarrow> publish_batch c vs = ret []"
  by (induction vs) auto

text \<open>Events that cannot be routed are skipped but stay first in line: when a whole batch of the
  oldest unstamped events is of this kind, a poll publishes and stamps nothing, in every world, so no
  later event is ever produced.\<close>

theorem poison_batch_stalls:
  assumes "produce_notifications c w = (r, w')"
    "\<forall>v \<in> set (next_batch c (db w)). \<exists>e. route_event c v = Inl e"
  shows "db w' = db w \<and> (\<forall>ch n. Published ch n \<notin> set (drop (length (history w)) (history w')))"
proof -
  let ?list = "wrap NotifyProducerError (in_txn (wrap PersistenceError
      (list_system_events (unsent_events (pc_batch c)))))"
  obtain x w1 where list: "?list w = (x, w1)" by (rule prod.exhaust)
  have "w' = w1"
  proof (cases x)
    case (Inr vs)
    with listed_batch list assms(2) have "publish_batch c vs = ret []" by (blast intro: publish_poison)
    with assms(1) list Inr show ?thesis by (simp add: produce_notifications_def split: if_splits)
  qed (use assms(1) list in \<open>simp add: produce_notifications_def\<close>)
  moreover have "db w1 = db w"
    using evolvesD [OF listing_reads list] by (simp add: unchanged.W_def)
  moreover have "\<exists>hs. history w1 = history w @ hs \<and> set hs \<subseteq> {TxnBegin, TxnCommit, TxnRollback}"
  proof (rule log_quiet_txn)
    show "in_txn (wrap PersistenceError (list_system_events (unsent_events (pc_batch c)))) w =
        (fst (in_txn (wrap PersistenceError (list_system_events (unsent_events (pc_batch c)))) w), w1)"
      using list wrap_snd [of _ _ w] by (metis prod.collapse snd_conv)
    show "wrap PersistenceError (list_system_events (unsent_events (pc_batch c))) w2 = (y, w3) \<Longrightarrow>
        history w3 = history w2" for w2 y w3
      by (auto simp: list_system_events_def select_all_def wrap_def sql_def Let_def
          split: if_splits prod.splits sum.splits)
  qed
  ultimately show ?thesis by auto
qed

lemma publish_all_run: "send_faults w = [] \<Longrightarrow> \<exists>w'. publish_all n chs w = (Inr True, w') \<and>
    send_faults w' = [] \<and> sql_faults w' = sql_faults w"
proof (induction chs arbitrary: w)
  case (Cons ch chs)
  let ?w1 = "record_action (Published ch n) (w\<lparr>send_faults := []\<rparr>)"
  have "attempt (queue_call (Published ch n)) w = (Inr True, ?w1)"
    using Cons.prems by (cases w) (simp add: attempt_def queue_call_def)
  moreover obtain w' where "publish_all n chs ?w1 = (Inr True, w')" "send_faults w' = []" "sql_faults w' = sql_faults ?w1"
    using Cons.IH [of ?w1] by (auto simp: record_action_def)
  ultimately show ?case by (auto simp: record_action_def)
qed simp

lemma publish_batch_run:
  "send_faults w = [] \<Longrightarrow> \<exists>ids w'. publish_batch c vs w = (Inr ids, w') \<and> sql_faults w' = sql_faults w \<and>
    (\<forall>v \<in> set vs. \<forall>x. route_event c v = Inr x \<longrightarrow> v_id v \<in> set ids)"
proof (induction vs arbitrary: w)
  case (Cons v vs)
  show ?case
  proof (cases "route_event c v")
    case (Inl e)
    with Cons.IH [OF Cons.prems] show ?thesis by simp
  next
    case (Inr x)
    obtain chs n where x: "x = (chs, n)" by (rule prod.exhaust)
    obtain w1 where one: "publish_all n chs w = (Inr True, w1)" "send_faults w1 = []" "sql_faults w1 = sql_faults w"
      using publish_all_run [OF Cons.prems] by blast
    with Cons.IH [OF this(2)] Inr x show ?thesis by fastforce
  qed
qed simp

lemma batch_stamped:
  assumes "no_faults w" "pc_batch c > 0" "distinct (map v_id (events (db w)))"
    "v \<in> set (next_batch c (db w))" "route_event c v = Inr x"
  shows "\<exists>w' hs t. produce_notifications c w = (Inr (), w') \<and>
    history w' = history w @ hs \<and> sent_in c hs v \<and>
    find_row v_id (v_id v) (events (db w')) = Some (v\<lparr>v_broadcast := Some t\<rparr>)"
proof -
  have none: "sql_faults w = []" "send_faults w = []" using assms(1) by (simp_all add: no_faults_def)
  let ?p = "wrap PersistenceError (list_system_events (unsent_events (pc_batch c)))"
  let ?b = "next_batch c (db w)"
  have body: "?p (record_action TxnBegin w) = (Inr ?b, record_action TxnBegin w)"
    using none assms(2)
    by (simp add: list_system_events_def unsent_events_def page_valid_def page.truncate_def next_batch_def
        page_rows_def Let_def in_or_any_def)
  let ?w1 = "record_action TxnCommit (record_action TxnBegin w)"
  have list: "in_txn ?p w = (Inr ?b, ?w1)" by (intro in_txn_run body) (simp_all add: none)
  obtain ids w2 where batch: "publish_batch c ?b ?w1 = (Inr ids, w2)" "sql_faults w2 = []" "v_id v \<in> set ids"
    using publish_batch_run [of ?w1 c ?b] none assms(4,5) by auto
  obtain hs where db2: "db w2 = db w" and log: "history w2 = history ?w1 @ hs"
    and sent: "\<exists>u \<in> set ?b. v_id u = v_id v \<and> sent_in c hs u"
    using publish_batch_result [OF batch(1)] batch(3) by auto
  then obtain u where u: "u \<in> set ?b" "v_id u = v_id v" "sent_in c hs u" by blast
  have "set ?b \<subseteq> set (events (db w))" by (auto simp: next_batch_def dest!: in_set_takeD)
  then have "u = v" using u assms(3,4) by (auto simp: distinct_map inj_on_def)
  then have v_sent: "sent_in c ([TxnBegin, TxnCommit] @ hs @ [TxnBegin, TxnCommit]) v"
    using u(3) by (auto elim: sent_in_mono)
  have v: "find_row v_id (v_id v) (events (db w)) = Some v" "v_broadcast v = None"
    using assms(3,4) by (auto simp: next_batch_def find_row_distinct dest!: in_set_takeD)
  define w3 t where "w3 = w2\<lparr>ticks := Suc (ticks w2)\<rparr>" and "t = clock w2 (ticks w2)"
  let ?w4 = "record_action TxnBegin w3"
  let ?w5 = "?w4\<lparr>db := (db w)\<lparr>events := update_rows (\<lambda>v. v_id v \<in> set ids \<and> v_broadcast v = None)
      (\<lambda>v. v\<lparr>v_broadcast := Some t\<rparr>) (events (db w))\<rparr>\<rparr>"
  have "ids \<noteq> []" using batch(3) by auto
  then have mark: "wrap PersistenceError (mark_system_events_broadcast ids t) ?w4 = (Inr (), ?w5)"
    using batch(2) db2 by (simp add: mark_system_events_broadcast_def w3_def)
  have "in_txn (wrap PersistenceError (mark_system_events_broadcast ids t)) w3 = (Inr (), record_action TxnCommit ?w5)"
    by (intro in_txn_run mark) (simp_all add: w3_def batch(2))
  then have "produce_notifications c w = (Inr (), record_action TxnCommit ?w5)"
    using list batch \<open>ids \<noteq> []\<close> assms(4) by (auto simp: produce_notifications_def w3_def t_def)
  then show ?thesis
    using v batch(3) log v_sent by (auto simp: event_stamp.find_update w3_def record_action_def)
qed

text \<open>C26. Without faults a poll publishes and stamps its batch: it succeeds, and every event of the
  batch that can be routed was published by this poll on each of its channels and is stamped, so the
  next poll moves on.\<close>

theorem batch_is_stamped:
  assumes "no_faults w" "pc_batch c > 0" "distinct (map v_id (events (db w)))"
    "v \<in> set (next_batch c (db w))" "route_event c v = Inr (chs, n)"
  shows "\<exists>w' hs t. produce_notifications c w = (Inr (), w') \<and>
    history w' = history w @ hs \<and> (\<forall>ch \<in> set chs. Published ch n \<in> set hs) \<and>
    find_row v_id (v_id v) (events (db w')) = Some (v\<lparr>v_broadcast := Some t\<rparr>)"
  using batch_stamped [OF assms] assms(5) by (auto simp: sent_in_def)

section \<open>Witnesses\<close>

definition sample_producer :: producer_config where
  "sample_producer = \<lparr>pc_poll_secs = 5, pc_batch = 1, pc_firehose = True, pc_type = False, pc_creator = True\<rparr>"

definition sample_event :: event_row where
  "sample_event = new_event ''e'' CompleteTask (TaskEvents ''t'' wf_task_creator) 5"

definition poison_event :: event_row where
  "poison_event = sample_event\<lparr>v_meta := JNull\<rparr>"

lemmas notification_samples = sample_producer_def sample_event_def poison_event_def new_event_def

definition sample_workflow_sched :: wf_sched where
  "sample_workflow_sched = \<lparr>ws_queue = ''workflows'', ws_client =
     \<lparr>tc_queue = ''tasks'', tc_sender = ''wf'', tc_creator = ''wf'', tc_retry = (\<lambda>_. None)\<rparr>\<rparr>"

definition sample_failure :: event_row where
  "sample_failure = new_event ''f'' EngineFailedTask (EngineFailure ''t'' ''e'' ''panic'' wf_task_creator) 6"

theorem step_feedback_delivered_witness:
  "(\<exists>chs n. route_event sample_producer sample_event = Inr (chs, n) \<and> set workflow_topics \<subseteq> set chs \<and>
    on_message (workflow_callback sample_workflow_sched) (Some (notification_json n)) =
      on_notification sample_workflow_sched CompleteTask (Some ''t'')) \<and>
   (\<exists>chs n. route_event sample_producer sample_failure = Inr (chs, n) \<and> set workflow_topics \<subseteq> set chs \<and>
    on_message (workflow_callback sample_workflow_sched) (Some (notification_json n)) =
      on_notification sample_workflow_sched EngineFailedTask (Some ''t''))"
  using step_feedback_delivered [of sample_producer "''t''" sample_event sample_workflow_sched]
    step_feedback_delivered [of sample_producer "''t''" sample_failure sample_workflow_sched]
  by (auto simp: notification_samples sample_failure_def step_task_event_def)

abbreviation produced :: "event_row \<Rightarrow> (goerr + unit) \<times> world" where
  "produced v \<equiv> produce_notifications sample_producer (sample_world (no_tables\<lparr>events := [v]\<rparr>) [])"

lemma next_batch_sample: "v_broadcast v = None \<Longrightarrow>
    next_batch sample_producer (db (sample_world (no_tables\<lparr>events := [v]\<rparr>) [])) = [v]"
  by (simp add: next_batch_def sample_producer_def sample_world_def)

lemma route_sample: "route_event sample_producer sample_event = Inr
    ([firehose_channel, creator_channel wf_task_creator, creator_type_channel wf_task_creator CompleteTask,
      subject_channel ''task'' ''t''],
     \<lparr>nf_id = ''e'', nf_type = ''COMPLETE_TASK'', nf_created = 5, nf_creator = Some wf_task_creator,
       nf_subject_type = Some ''task'', nf_subject_id = Some ''t'', nf_meta = Some (v_meta sample_event)\<rparr>)"
  by (simp add: route_event_def derive_creator_def derive_subject_def notification_samples decode_meta_def
      wf_task_creator_def Let_def)

theorem batch_is_stamped_witness:
  "\<exists>w' t. produced sample_event = (Inr (), w') \<and>
    (\<exists>n. Published firehose_channel n \<in> set (history w') \<and>
      Published (creator_channel wf_task_creator) n \<in> set (history w')) \<and>
    find_row v_id ''e'' (events (db w')) = Some (sample_event\<lparr>v_broadcast := Some t\<rparr>)"
proof -
  have "v_id sample_event = ''e''" "v_broadcast sample_event = None" by (simp_all add: notification_samples)
  then obtain w' hs t n where "produced sample_event = (Inr (), w')" "history w' = hs"
    "Published firehose_channel n \<in> set hs"
    "Published (creator_channel wf_task_creator) n \<in> set hs"
    "find_row v_id ''e'' (events (db w')) = Some (sample_event\<lparr>v_broadcast := Some t\<rparr>)"
    using batch_is_stamped [OF _ _ _ _ route_sample, of "sample_world (no_tables\<lparr>events := [sample_event]\<rparr>) []"]
      next_batch_sample [of sample_event]
    by (auto simp: no_faults_def sample_world_def sample_producer_def)
  then show ?thesis by blast
qed

theorem poison_batch_stalls_witness:
  "db (snd (produced poison_event)) = no_tables\<lparr>events := [poison_event]\<rparr> \<and>
    (\<forall>ch n. Published ch n \<notin> set (history (snd (produced poison_event))))"
proof -
  have "\<exists>e. route_event sample_producer poison_event = Inl e"
    by (simp add: route_event_def derive_creator_def notification_samples)
  then show ?thesis
    using poison_batch_stalls [of sample_producer "sample_world (no_tables\<lparr>events := [poison_event]\<rparr>) []"
        "fst (produced poison_event)" "snd (produced poison_event)"]
      next_batch_sample [of poison_event]
    by (simp add: notification_samples) (simp add: sample_world_def)
qed

theorem stamped_after_published_witness:
  "\<exists>v \<in> set (events (db (snd (produced sample_event)))). \<exists>u hs t. v = u\<lparr>v_broadcast := Some t\<rparr> \<and>
    history (snd (produced sample_event)) = hs \<and> sent_in sample_producer hs u"
proof -
  let ?w = "sample_world (no_tables\<lparr>events := [sample_event]\<rparr>) []"
  have start: "events (db ?w) = [sample_event]" "history ?w = []" "no_faults ?w"
    by (simp_all add: sample_world_def no_faults_def)
  have none: "v_broadcast sample_event = None" by (simp add: notification_samples)
  obtain w' t where run: "produced sample_event = (Inr (), w')"
    and v: "find_row v_id (v_id sample_event) (events (db w')) = Some (sample_event\<lparr>v_broadcast := Some t\<rparr>)"
    using batch_stamped [OF start(3), of sample_producer sample_event] next_batch_sample [OF none] route_sample start
    by (auto simp: sample_producer_def)
  let ?v = "sample_event\<lparr>v_broadcast := Some t\<rparr>"
  have "?v \<noteq> sample_event" using none by (metis event_row.select_convs(6) event_row.surjective event_row.update_convs(6) option.distinct(1))
  moreover have here: "?v \<in> set (events (db w'))" using v by (blast dest: find_row_Some)
  ultimately obtain u hs t' where "?v = u\<lparr>v_broadcast := Some t'\<rparr>" "history w' = hs" "sent_in sample_producer hs u"
    using stamped_after_published [OF run, of ?v] start by auto
  then show ?thesis unfolding run snd_conv using here by blast
qed

end
