(* ===== verification/System.thy ===== *)
theory System
  imports Workflow_Consistency Workflow_Definition Task_Worker Notifications
begin

text \<open>
  The whole engine: schedulers, workers, clients, the notification producer and the maintenance calls
  of the database layer interleave transaction by transaction, with any faults. The invariants of the
  task and the workflow tables hold in every reachable state.
\<close>

lemma consistent_same:
  "tasks d' = tasks d \<Longrightarrow> execs d' = execs d \<Longrightarrow> workflows d' = workflows d \<Longrightarrow> steps d' = steps d \<Longrightarrow>
    deps d' = deps d \<Longrightarrow> links d' = links d \<Longrightarrow> consistent d \<Longrightarrow> consistent d'"
  using consistent_cong [of d' d "{}"] wf_same_tables [of d d']
  by (simp add: consistent_def task_consistent_def)

section \<open>Defining a workflow keeps the invariant\<close>

lemma shape_new_steps:
  assumes old: "shape_ok (map skel (steps d)) (deps d)"
    and ids: "distinct (map s_id (steps d @ new))"
    and names: "distinct (map (\<lambda>s. (s_name s, s_workflow s)) (steps d @ new))"
    and group: "\<forall>s \<in> set new. s_workflow s = wid \<and> distinct (s_parents s) \<and> set (s_parents s) \<subseteq> s_name ` set new"
    and edges: "(\<lambda>r. (d_step r, d_on r)) ` set es = step_edges new"
  shows "shape_ok (map skel (steps d @ new)) (deps d @ es)"
  unfolding shape_ok_def
proof (intro conjI ballI)
  let ?ks = "map skel (steps d @ new)"
  show "distinct (map fst ?ks)" using ids by (simp add: skel_def comp_def)
  have "distinct (map prod.swap (map (\<lambda>s. (s_name s, s_workflow s)) (steps d @ new)))"
    using names by (simp only: distinct_map) (auto simp: inj_on_def)
  then show "distinct (map (\<lambda>(i, n, g, ps). (g, n)) ?ks)" by (simp add: skel_def comp_def)
  fix k
  assume "k \<in> set ?ks"
  then obtain s where s: "s \<in> set (steps d @ new)" "k = skel s" by auto
  show "case k of (i, n, g, ps) \<Rightarrow> distinct ps \<and>
      (\<forall>m \<in> set ps. \<exists>r \<in> set (deps d @ es). \<exists>qs. d_step r = i \<and> (d_on r, m, g, qs) \<in> set ?ks)"
  proof (cases "s \<in> set (steps d)")
    case True
    note e = shape_edges [OF old True]
    have "\<exists>r \<in> set (deps d @ es). \<exists>qs. d_step r = s_id s \<and> (d_on r, m, s_workflow s, qs) \<in> set ?ks"
      if "m \<in> set (s_parents s)" for m
      using e(2) that by fastforce
    then show ?thesis using e(1) by (simp add: s(2) skel_def)
  next
    case False
    then have new: "s \<in> set new" using s(1) by simp
    have "\<exists>r \<in> set (deps d @ es). \<exists>qs. d_step r = s_id s \<and> (d_on r, m, s_workflow s, qs) \<in> set ?ks"
      if m: "m \<in> set (s_parents s)" for m
    proof -
      obtain q where q: "q \<in> set new" "s_name q = m" using group new m by fastforce
      then have "(s_id s, s_id q) \<in> step_edges new" using new m by (auto simp: in_step_edges)
      then obtain r where "r \<in> set es" "d_step r = s_id s" "d_on r = s_id q"
        unfolding edges [symmetric] by auto
      moreover have "skel q \<in> set ?ks" using q(1) by simp
      moreover have "skel q = (s_id q, m, s_workflow s, s_parents q)" using q group new by (simp add: skel_def)
      ultimately show ?thesis by (metis UnI2 set_append)
    qed
    then show ?thesis using group new by (simp add: s(2) skel_def)
  qed
next
  let ?ids = "fst ` set (map skel (steps d @ new))"
  have ids_eq: "?ids = s_id ` set (steps d) \<union> s_id ` set new" by (force simp: skel_def)
  fix r
  assume "r \<in> set (deps d @ es)"
  then consider "r \<in> set (deps d)" | "(d_step r, d_on r) \<in> step_edges new" using edges by auto
  then show "d_step r \<in> ?ids" "d_on r \<in> ?ids"
    unfolding ids_eq using old by (cases; force simp: shape_ok_def skel_def in_step_edges)+
qed

lemma wf_define:
  assumes cons: "workflow_consistent d"
    and tables: "workflows d' = workflows d @ [row]" "steps d' = steps d @ new" "deps d' = deps d @ es"
      "tasks d' = tasks d" "links d' = links d"
    and row: "w_state row = WfPending" "w_id row \<notin> w_id ` set (workflows d)"
    and fresh: "\<forall>s \<in> set new. s_state s = StepDefined \<and> s_workflow s = w_id row"
    and ids: "distinct (map s_id (steps d @ new))"
    and shape: "shape_ok (map skel (steps d @ new)) (deps d @ es)"
    and edges: "(\<lambda>r. (d_step r, d_on r)) ` set es = step_edges new"
  shows "workflow_consistent d'"
proof -
  note old = wf_consistentD [OF cons]
  have apart: "s_id s \<noteq> s_id q" if "s \<in> set (steps d)" "q \<in> set new" for s q
    using ids that by (auto simp: image_iff)
  have old_edge: "\<exists>s \<in> set (steps d). s_id s = d_step r" "\<exists>s \<in> set (steps d). s_id s = d_on r"
    if "r \<in> set (deps d)" for r
    using old(2) that by (force simp: shape_ok_def skel_def)+
  have new_edge: "\<exists>q \<in> set new. s_id q = d_step r" if "r \<in> set es" for r
    using that edges in_step_edges [of "(d_step r, d_on r)" new] by force
  have "parents_done d' s" if s: "s \<in> set (steps d')" "started (s_state s)" for s
    unfolding parents_done_def tables
  proof (intro ballI impI)
    have here: "s \<in> set (steps d)" using s fresh by (auto simp: tables(2) started_def)
    fix r p
    assume r: "r \<in> set (deps d @ es)" "d_step r = s_id s" and p: "p \<in> set (steps d @ new)" "s_id p = d_on r"
    have "r \<notin> set es" using new_edge [of r] r(2) apart [OF here] by metis
    then have r': "r \<in> set (deps d)" using r(1) by simp
    have "p \<notin> set new" using old_edge(2) [OF r'] p(2) apart by metis
    then show "s_state p = StepComplete"
      using old(3) [OF here s(2)] r' r(2) p by (auto simp: parents_done_def)
  qed
  moreover have "settled d' w" if "w \<in> set (workflows d')" for w
    using that old(4) [of w] row fresh by (auto simp: tables settled_def image_iff)
  moreover have "links_ok d'" using old(5) by (auto simp: links_ok_def tables)
  moreover have "distinct (map w_id (workflows d'))" using old(1) row(2) by (simp add: tables)
  ultimately show ?thesis unfolding workflow_consistent_def using shape by (simp add: tables)
qed

lemma define_new_workflow_keeps:
  assumes "define_new_workflow p creator w = (Inr row, w')" "maps_ok p"
    and cons: "workflow_consistent (db w)"
  shows "workflow_consistent (db w')"
proof -
  from define_new_workflow_ok [OF assms(1)] obtain wid rows ls t1 t2 t3 where
    valid: "is_valid p = Inr ()" and row: "row = new_workflow_row p creator wid t1"
    and wid: "wid \<notin> w_id ` set (workflows (db w))"
    and rows: "list_all2 (\<lambda>(_, s) r. \<exists>i. r = new_step_row p creator wid s i zero_time) (nw_steps p) rows"
    and ls: "step_links rows rows = Inr ls"
    and tables: "workflows (db w') = workflows (db w) @ [row]"
      "steps (db w') = steps (db w) @ map (stamp_step t2) rows"
      "deps (db w') = deps (db w) @ map (edge t3) ls"
      "tasks (db w') = tasks (db w)" "links (db w') = links (db w)"
    and dist: "distinct (map s_id (steps (db w')))"
      "distinct (map (\<lambda>s. (s_name s, s_workflow s)) (steps (db w')))"
    by blast
  let ?new = "map (stamp_step t2) rows"
  have dag: "spec_is_dag (nw_steps p)" by (rule is_valid_dag [OF assms(2) valid])
  then have "map (\<lambda>(_, s). ns_name s) (nw_steps p) = map fst (nw_steps p)"
    by (auto simp: spec_is_dag_def steps_wf_def)
  then have "map s_name rows = map fst (nw_steps p)" using rows_of_spec(1) [OF rows] by simp
  then have names: "distinct (map s_name rows)" using assms(2) by (simp add: maps_ok_def)
  note links = step_links_edges [OF ls names]
  have edges: "(\<lambda>r. (d_step r, d_on r)) ` set (map (edge t3) ls) = step_edges ?new"
    by (simp add: image_image links(1) step_edges_stamped)
  have "distinct (s_parents r)" if r: "r \<in> set rows" for r
  proof -
    from rows_of_spec(2) [OF rows] r obtain k x where "(k, x) \<in> set (nw_steps p)" "s_parents r = ns_parents x"
      by blast
    then show ?thesis using assms(2) by (auto simp: maps_ok_def)
  qed
  then have group: "\<forall>s \<in> set ?new. s_workflow s = wid \<and> distinct (s_parents s) \<and> set (s_parents s) \<subseteq> s_name ` set ?new"
    using rows_of_spec(2) [OF rows] links(2) by (fastforce simp: image_image)
  show ?thesis
  proof (rule wf_define [OF cons tables])
    show "w_state row = WfPending" "w_id row \<notin> w_id ` set (workflows (db w))"
      using wid by (simp_all add: row new_workflow_row_def)
    show "\<forall>s \<in> set ?new. s_state s = StepDefined \<and> s_workflow s = w_id row"
      using rows_of_spec(2) [OF rows] by (simp add: row new_workflow_row_def)
    show "distinct (map s_id (steps (db w) @ ?new))" using dist(1) tables(2) by simp
    show "shape_ok (map skel (steps (db w) @ ?new)) (deps (db w) @ map (edge t3) ls)"
      using shape_new_steps [OF wf_consistentD(2) [OF cons] _ _ group edges] dist tables(2) by metis
    show "(\<lambda>r. (d_step r, d_on r)) ` set (map (edge t3) ls) = step_edges ?new" by (rule edges)
  qed
qed

section \<open>Deleting keeps the invariants\<close>

lemma find_row_filter:
  "\<not> p k \<Longrightarrow> find_row key k (filter (\<lambda>r. \<not> p (key r)) rs) = find_row key k rs"
  by (induction rs) (auto simp: find_row_def)

lemma cascade_task_consistent:
  assumes "task_consistent d"
  shows "task_consistent (cascade_tasks p d)"
proof -
  note old = consistentD [OF assms [unfolded task_consistent_def]]
  define g :: "exec_row \<Rightarrow> exec_row" where "g = (\<lambda>e. case e_parent e of None \<Rightarrow> e
      | Some q \<Rightarrow> if q \<in> e_id ` set (filter (\<lambda>e. p (e_task e)) (execs d)) then e\<lparr>e_parent := None\<rparr> else e)"
  have f: "e_id (g e) = e_id e \<and> e_task (g e) = e_task e \<and> e_state (g e) = e_state e" for e
    by (simp add: g_def split: option.split)
  have execs: "execs (cascade_tasks p d) = map g (filter (\<lambda>e. \<not> p (e_task e)) (execs d))"
    and tasks: "tasks (cascade_tasks p d) = filter (\<lambda>t. \<not> p (t_id t)) (tasks d)"
    by (simp_all add: cascade_tasks_def Let_def g_def del: set_filter)
  have "distinct (map t_id (tasks (cascade_tasks p d)))" using old(1) by (simp add: tasks distinct_map_filter)
  moreover have "distinct (map e_id (execs (cascade_tasks p d)))"
  proof -
    have "map e_id (map g es) = map e_id es" for es using f by simp
    then show ?thesis unfolding execs using old(2) by (simp only: distinct_map_filter)
  qed
  moreover have "one_open (execs (cascade_tasks p d))"
  proof (rule one_open_image [OF old(3), of _ g])
    show "set (execs (cascade_tasks p d)) \<subseteq> g ` set (execs d)" unfolding execs by auto
    show "e_id (g e) = e_id e \<and> e_task (g e) = e_task e \<and> (open_exec (g e) \<longrightarrow> open_exec e)" for e
      using f by (simp add: open_exec_def)
  qed
  moreover have "fits {} (tasks (cascade_tasks p d)) e" if "e \<in> set (execs (cascade_tasks p d))" for e
  proof -
    from that obtain x where x: "x \<in> set (execs d)" "\<not> p (e_task x)" "e = g x" unfolding execs by auto
    then have "e_task e = e_task x" "e_state e = e_state x" using f by simp_all
    then show ?thesis
      using old(4) [OF x(1)] find_row_filter [of p "e_task x" t_id "tasks d"] x(2)
      by (auto simp: fits_def tasks live_exec_def split: option.splits)
  qed
  moreover have "rows_sound (cascade_tasks p d)"
  proof -
    have g: "new_exec_ok e \<Longrightarrow> new_exec_ok (g e)" "may_fail (g e) = may_fail e" for e
      by (auto simp: g_def new_exec_ok_def exec_ok_def exec_row_valid_def may_fail_def split: option.split)
    have "attempts (execs (cascade_tasks p d)) i \<le> attempts (execs d) i" for i
      unfolding execs using f g(2) by (intro order_trans [OF attempts_less attempts_filter]) simp
    then show ?thesis
      using old(5) g(1) by (auto simp: rows_sound_def tasks execs intro: in_budget_less)
  qed
  ultimately show ?thesis by (simp add: task_consistent_def task_consistent_but_def)
qed

lemma cascade_tasks_wf:
  assumes "workflow_consistent d"
  shows "workflow_consistent (cascade_tasks p d)"
proof (rule wf_consistent_cong [OF _ _ _ _ assms])
  assume old: "links_ok d"
  have live: "live_task (tasks (cascade_tasks p d)) i = live_task (tasks d) i" if "\<not> p i" for i
    using find_row_filter [of p i t_id "tasks d"] that by (simp add: live_task_def cascade_tasks_def Let_def)
  have links: "set (links (cascade_tasks p d)) = {l \<in> set (links d). \<not> p (l_task l)}"
    and tasks: "t_id ` set (tasks (cascade_tasks p d)) = {i \<in> t_id ` set (tasks d). \<not> p i}"
    and steps: "steps (cascade_tasks p d) = steps d"
    by (auto simp: cascade_tasks_def Let_def)
  show "links_ok (cascade_tasks p d)"
    using old unfolding links_ok_def links tasks steps by (auto simp: live)
qed (simp_all add: cascade_tasks_def Let_def)

lemma cascade_workflow_task: "task_consistent (cascade_workflow i d) = task_consistent d"
  unfolding task_consistent_def by (rule consistent_cong) (simp_all add: cascade_workflow_def Let_def)

lemma cascade_workflow_wf:
  assumes cons: "workflow_consistent d"
  shows "workflow_consistent (cascade_workflow i d)"
proof -
  note old = wf_consistentD [OF cons]
  let ?d = "cascade_workflow i d"
  have ids: "distinct (map s_id (steps d))" by (rule shape_ids [OF old(2)])
  have steps: "steps ?d = filter (\<lambda>s. s_workflow s \<noteq> i) (steps d)"
    and ws: "workflows ?d = filter (\<lambda>w. w_id w \<noteq> i) (workflows d)"
    and tasks: "tasks ?d = tasks d"
    by (simp_all add: cascade_workflow_def Let_def)
  have kept: "s_id s \<notin> s_id ` set (steps_of i d) \<longleftrightarrow> s_workflow s \<noteq> i" if "s \<in> set (steps d)" for s
    using ids that by (auto simp: steps_of_def distinct_map inj_on_def image_iff)
  have deps: "set (deps ?d) = {r \<in> set (deps d). d_step r \<notin> s_id ` set (steps_of i d) \<and> d_on r \<notin> s_id ` set (steps_of i d)}"
    and links: "set (links ?d) = {l \<in> set (links d). l_step l \<notin> s_id ` set (steps_of i d)}"
    by (auto simp: cascade_workflow_def Let_def)
  have remains: "x \<in> s_id ` set (steps ?d)" if "x \<in> s_id ` set (steps d)" "x \<notin> s_id ` set (steps_of i d)" for x
    using that kept by (auto simp: steps image_iff)
  have "shape_ok (map skel (steps ?d)) (deps ?d)"
    unfolding shape_ok_def
  proof (intro conjI ballI)
    show "distinct (map fst (map skel (steps ?d)))"
      using ids by (simp add: steps skel_def comp_def distinct_map_filter)
    have "distinct (map (\<lambda>s. (s_workflow s, s_name s)) (steps d))"
      using old(2) by (simp add: shape_ok_def skel_def comp_def)
    then show "distinct (map (\<lambda>(i, n, g, ps). (g, n)) (map skel (steps ?d)))"
      by (simp add: steps skel_def comp_def distinct_map_filter)
    fix k
    assume "k \<in> set (map skel (steps ?d))"
    then obtain s where s: "s \<in> set (steps d)" "s_workflow s \<noteq> i" "k = skel s" by (auto simp: steps)
    note e = shape_edges [OF old(2) s(1)]
    have "\<exists>r \<in> set (deps ?d). \<exists>qs. d_step r = s_id s \<and> (d_on r, m, s_workflow s, qs) \<in> set (map skel (steps ?d))"
      if m: "m \<in> set (s_parents s)" for m
    proof -
      from e(2) m obtain r q where r: "r \<in> set (deps d)" "d_step r = s_id s"
        and q: "q \<in> set (steps d)" "d_on r = s_id q" "s_name q = m" "s_workflow q = s_workflow s"
        by (fastforce simp: skel_def)
      have "d_step r \<notin> s_id ` set (steps_of i d)" "d_on r \<notin> s_id ` set (steps_of i d)"
        using r(2) q(2,4) kept [OF s(1)] kept [OF q(1)] s(2) by simp_all
      then have "r \<in> set (deps ?d)" using r(1) by (simp add: deps)
      moreover have "skel q \<in> set (map skel (steps ?d))" using q s(2) by (simp add: steps)
      ultimately show ?thesis using r(2) q(2-4) by (intro bexI [of _ r] exI [of _ "s_parents q"]) (simp_all add: skel_def)
    qed
    then show "case k of (i, n, g, ps) \<Rightarrow> distinct ps \<and> (\<forall>m \<in> set ps. \<exists>r \<in> set (deps ?d). \<exists>qs.
        d_step r = i \<and> (d_on r, m, g, qs) \<in> set (map skel (steps ?d)))"
      using e(1) by (simp add: s(3) skel_def)
  next
    have fst_skel: "fst ` set (map skel ss) = s_id ` set ss" for ss by (force simp: skel_def)
    fix r
    assume r: "r \<in> set (deps ?d)"
    then have "d_step r \<in> s_id ` set (steps d)" "d_on r \<in> s_id ` set (steps d)"
      using old(2) unfolding shape_ok_def fst_skel deps by blast+
    then show "d_step r \<in> fst ` set (map skel (steps ?d))" "d_on r \<in> fst ` set (map skel (steps ?d))"
      unfolding fst_skel using remains r by (simp_all add: deps)
  qed
  moreover have "parents_done ?d s" if "s \<in> set (steps ?d)" "started (s_state s)" for s
    using old(3) [of s] that by (auto simp: parents_done_def steps deps)
  moreover have "settled ?d w" if "w \<in> set (workflows ?d)" for w
    using old(4) [of w] that by (auto simp: settled_def steps ws)
  moreover have "links_ok ?d"
    using old(5) remains unfolding links_ok_def tasks links by blast
  moreover have "distinct (map w_id (workflows ?d))" using old(1) by (simp add: ws distinct_map_filter)
  ultimately show ?thesis unfolding workflow_consistent_def by blast
qed

lemma keep_delete_task:
  assumes "delete_task i w = (Inr u, w')" "consistent (db w)"
  shows "consistent (db w')"
proof -
  from assms(1) obtain t w1 w2 w3 w4 v n where steps:
    "get_task i w = (Inr t, w1)" "wrap SQLError (select_all (\<lambda>d. length (filter (\<lambda>l. l_task l = i) (links d)))) w1 = (Inr n, w2)"
    "wrap SQLError (change (cascade_tasks (\<lambda>x. x = t_id t))) w2 = (Inr (), w3)"
    "wrap SQLError (define_new_system_event DeleteTask (TaskEvents i (t_creator t))) w3 = (Inr v, w4)" "w' = w4"
    by (auto simp: delete_task_def bnd_result_Inr split: if_splits)
  then have "db w' = (cascade_tasks (\<lambda>x. x = t_id t) (db w))\<lparr>events := events (db w3) @ [v]\<rparr>"
    by (auto simp: wrap_result_Inr get_task_def dest!: fetch_one_ok select_all_ok change_ok define_new_system_event_ok)
  moreover have "consistent (cascade_tasks (\<lambda>x. x = t_id t) (db w))"
    using assms(2) by (simp add: consistent_def cascade_task_consistent cascade_tasks_wf)
  ultimately show ?thesis by (elim consistent_same [rotated 6]) simp_all
qed

lemma keep_delete_workflow:
  assumes "delete_workflow i w = (Inr u, w')" "consistent (db w)"
  shows "consistent (db w')"
proof -
  from assms(1) obtain row w1 rows w2 w3 w4 w5 v where
    get: "get_workflow i w = (Inr row, w1)" and list: "list_workflow_steps i w1 = (Inr rows, w2)"
    and del: "do_if (rows \<noteq> []) (
        bnd (wrap SQLError (select_all (\<lambda>d. filter (\<lambda>l. l_step l \<in> s_id ` set rows) (links d)))) (\<lambda>ls.
        do_if (ls \<noteq> []) (wrap SQLError (change (cascade_tasks (\<lambda>x. x \<in> l_task ` set ls)))))) w2 = (Inr (), w3)"
    and casc: "change (cascade_workflow i) w3 = (Inr (), w4)"
    and ev: "define_new_system_event DeleteWorkflow (WorkflowEvents i (w_creator row)) w4 = (Inr v, w5)"
    and "w' = w5"
    by (auto simp: delete_workflow_def bnd_result_Inr wrap_result_Inr split: if_splits)
  have "db w2 = db w" using get_workflow_ok [OF get] list_workflow_steps_ok [OF list] by simp
  with del assms(2) have "consistent (db w3)"
    by (auto simp: bnd_result_Inr wrap_result_Inr consistent_def cascade_task_consistent cascade_tasks_wf
        dest!: do_if_ok select_all_ok change_ok split: if_splits)
  then have "consistent (db w4)"
    using change_ok [OF casc] by (simp add: consistent_def cascade_workflow_task cascade_workflow_wf)
  then show ?thesis
    using define_new_system_event_ok [OF ev] \<open>w' = w5\<close> by (elim consistent_same [rotated 6]) simp_all
qed

section \<open>The workers keep the invariants\<close>

lemma update_exec_error: "update_task_execution_state i s u w = (Inl e, w') \<Longrightarrow> db w' = db w"
  unfolding update_task_execution_state_def
  by (auto simp: monad_results time_now_def change_def sql_def check_move_def Let_def
      dest!: get_task_execution_reads split: if_splits sum.splits)

lemma keep_exec_update: "evolves keep.W (update_task_execution_state i s u)"
proof (rule evolvesI)
  fix w r w'
  assume run: "update_task_execution_state i s u w = (r, w')"
  then show "keep.W w w'"
    by (cases r) (auto simp: keep.W_def keeps_task_def task_consistent_def dest: upd_exec update_exec_error)
qed

lemma keep_wf_exec_update: "evolves keep_wf.W (update_task_execution_state i s u)"
  using task_life.ev_update_task_execution_state [of i s u] task_tables_keep_wf
  by (auto simp: evolves_def task_life.W_def keep_wf.W_def keeps_wf_def)

interpretation keep: worker_evolution keeps_task
  by unfold_locales (rule keep_exec_update)

interpretation keep_wf: worker_evolution keeps_wf
  by unfold_locales (rule keep_wf_exec_update)

section \<open>Every operation keeps both invariants\<close>

context log_evolution
begin

lemma ev_poison_record: "evolves W (record_invalid_message rc raw reason)"
  unfolding record_invalid_message_def by (intro ev_log)

lemma ev_recover_task: "evolves W (recover_task_messages c msgs)"
proof (induction c msgs rule: recover_task_messages.induct)
  case (5 c j rest)
  then show ?case
    unfolding recover_task_messages.simps
    by (intro ev_bnd ev_gets ev_case_sum ev_case_option ev_poison_record ev_wrap ev_re_enqueue)
qed (unfold recover_task_messages.simps, (intro ev_ret ev_throw ev_bnd ev_poison_record; assumption?)+)

lemma ev_recover_workflow: "evolves W (recover_workflow_messages c msgs)"
proof (induction c msgs rule: recover_workflow_messages.induct)
  case (5 c j rest)
  then show ?case
    unfolding recover_workflow_messages.simps
    by (intro ev_bnd ev_gets ev_case_sum ev_case_option ev_poison_record ev_wrap ev_re_enqueue)
qed (unfold recover_workflow_messages.simps, (intro ev_ret ev_throw ev_bnd ev_poison_record; assumption?)+)

lemma ev_publish_all: "evolves W (publish_all n chs)"
  by (induction chs) (unfold publish_all.simps, (intro ev_ret ev_bnd ev_attempt ev_queue_call; assumption?)+)

lemma ev_publish_batch: "evolves W (publish_batch c vs)"
proof (induction vs)
  case Nil
  show ?case unfolding publish_batch.simps by (rule ev_ret)
next
  case (Cons v vs)
  then show ?case
    unfolding publish_batch.simps by (intro ev_case_sum ev_case_prod ev_bnd ev_publish_all ev_ret)
qed

lemma ev_produce: "evolves W (produce_notifications c)"
  unfolding produce_notifications_def by (intro ev_publish_batch ev_log)

lemma ev_submit_workflow: "evolves W (submit_workflow c i)"
  unfolding submit_workflow_def by (intro ev_log)

lemma ev_confirm: "evolves W (confirm_workflow i b)"
  unfolding confirm_workflow_def by (intro ev_get_workflow ev_log)

lemma ev_requests: "evolves W (request_revival c i d b)" "evolves W (request_cancellation c i b)"
  unfolding request_revival_def request_cancellation_def by (intro ev_confirm ev_log)+

end

definition keeps_both :: "tables \<Rightarrow> tables \<Rightarrow> bool" where
  "keeps_both d d' \<longleftrightarrow> (consistent d \<longrightarrow> consistent d')"

interpretation both: log_evolution keeps_both
proof unfold_locales
  show "keeps_both d (d\<lparr>events := vs\<rparr>)" for d vs
    unfolding keeps_both_def by (intro impI, elim consistent_same [rotated 6]) simp_all
qed (auto simp: keeps_both_def)

lemma bothI: "evolves keep.W p \<Longrightarrow> evolves keep_wf.W p \<Longrightarrow> evolves both.W p"
  by (simp add: evolves_def both.W_def keeps_both_def keep.W_def keeps_task_def keep_wf.W_def keeps_wf_def
      consistent_def)

lemma task_sideI: "evolves keep.W p \<Longrightarrow> evolves task_life.W p \<Longrightarrow> evolves both.W p"
  using task_tables_keep_wf
  by (fastforce simp: evolves_def both.W_def keeps_both_def keep.W_def keeps_task_def task_life.W_def consistent_def)

lemma both_txn:
  assumes "\<And>w a w'. p w = (Inr a, w') \<Longrightarrow> consistent (db w) \<Longrightarrow> consistent (db w')"
  shows "evolves both.W (in_txn p)"
  by (intro both.ok_in_txn evolves_okI) (simp add: both.W_def keeps_both_def assms)

interpretation both: client_evolution keeps_both
  by unfold_locales (rule bothI [OF keep_task_define keep_define_task])

interpretation both: worker_evolution keeps_both
  by unfold_locales (rule bothI [OF keep_exec_update keep_wf_exec_update])

interpretation both: task_handlers keeps_both
  by unfold_locales (intro task_sideI keep.handlers task_life.ev_handlers)+

lemma both_okI: "evolves_ok keep.W p \<Longrightarrow> evolves_ok keep_wf.W p \<Longrightarrow> evolves_ok both.W p"
  unfolding evolves_ok_def both.W_def keeps_both_def keep.W_def keeps_task_def keep_wf.W_def keeps_wf_def consistent_def
  by blast

interpretation both: workflow_sections keeps_both
  by unfold_locales (rule both_okI; blast intro: keep.ok_sections keep_wf.ok_sections keep.section_workflow keep.section_steps
      keep_wf.section_workflow keep_wf.section_steps)+

section \<open>The steps of the system\<close>

text \<open>
  One step is one handler of a scheduler, one transaction or message of a worker, one call of a client
  or of the maintenance interface, one poll of the producer, or anything that leaves the tables alone
  (time, faults, other programs). A handler writes in one transaction, so this is the interleaving of
  transactions; whole runs of the loops are steps, too. Calls that join a transaction of the caller
  are the caller's step and are taken here in a transaction of their own.
\<close>

inductive live_step :: "world \<Rightarrow> world \<Rightarrow> bool" where
  idle: "db w' = db w \<Longrightarrow> live_step w w'"
| task_new: "live_step w (snd (process_new_pending_task tc i w))"
| task_starting: "live_step w (snd (process_task_execution_starting tc i t w))"
| task_complete: "live_step w (snd (process_task_execution_complete i w))"
| task_failed: "live_step w (snd (process_task_execution_failed tc i t w))"
| task_engine_failed: "live_step w (snd (process_task_execution_engine_failed i w))"
| task_exec_timed_out: "live_step w (snd (process_task_execution_timed_out i t w))"
| task_cancel: "live_step w (snd (process_cancel_task i t w))"
| task_timeout: "live_step w (snd (process_task_timeout i t w))"
| task_scheduler: "live_step w (snd (start_task_scheduler tc buffered msgs w))"
| wf_process: "live_step w (snd (process_workflow wc i w))"
| wf_schedule: "live_step w (snd (schedule_workflow_step wc i w))"
| wf_exec_update: "live_step w (snd (apply_step_execution_update wc i st w))"
| wf_task_update: "live_step w (snd (apply_step_task_update wc i st w))"
| wf_cancel: "live_step w (snd (cancel_workflow wc i w))"
| wf_revive: "live_step w (snd (revive_workflow wc i dl w))"
| wf_reconcile: "live_step w (snd (reconcile_workflow wc i w))"
| wf_scheduler: "live_step w (snd (start_workflow_scheduler wc buffered msgs w))"
| wf_notification: "live_step w (snd (on_message (workflow_callback wc) payload w))"
| worker_init: "live_step w (snd (initialize_receiver rc False queues w))"
| worker_request: "live_step (rv_world s) (rv_world (snd (process_one_ipc_request rc q msg s)))"
| worker_preprocess: "live_step w (snd (preprocess_execution i w))"
| worker_run: "reads_only rc \<Longrightarrow> live_step w (snd (run_processor rc e t w))"
| worker_postprocess: "live_step w (snd (postprocess_execution i outcome w))"
| worker_execute: "reads_only rc \<Longrightarrow> live_step (rv_world s) (rv_world (snd (execute_instance rc q i s)))"
| client_immediate: "live_step w (snd (define_and_run_immediate cl p False w))"
| client_scheduled: "live_step w (snd (define_and_run_scheduled cl p target False w))"
| client_cancel: "live_step w (snd (cancel_task cl i False w))"
| client_workflow: "maps_ok (dw_spec wp) \<Longrightarrow> live_step w (snd (define_and_run_workflow wcl wp False w))"
| client_revive: "live_step w (snd (request_revival wcl i dl False w))"
| client_cancel_workflow: "live_step w (snd (request_cancellation wcl i False w))"
| api_task_deadline: "live_step w (snd (in_txn (update_task_deadline i t) w))"
| api_workflow_deadline: "live_step w (snd (in_txn (update_workflow_deadline i t) w))"
| producer: "live_step w (snd (produce_notifications pc w))"

text \<open>The deletions of the maintenance interface are kept apart: they alone take rows away.\<close>

inductive system_step :: "world \<Rightarrow> world \<Rightarrow> bool" where
  live: "live_step w w' \<Longrightarrow> system_step w w'"
| api_delete_task: "system_step w (snd (in_txn (delete_task i) w))"
| api_delete_workflow: "system_step w (snd (in_txn (delete_workflow i) w))"

inductive reachable :: "world \<Rightarrow> bool" where
  empty_start: "db w = no_tables \<Longrightarrow> reachable w"
| step: "reachable w \<Longrightarrow> system_step w w' \<Longrightarrow> reachable w'"

lemma reachable_live: "reachable w \<Longrightarrow> live_step w w' \<Longrightarrow> reachable w'"
  by (blast intro: reachable.step live)

lemma no_tables_consistent: "consistent no_tables"
  by (simp add: consistent_def task_consistent_def task_consistent_but_def one_open_def workflow_consistent_def
      shape_ok_def links_ok_def rows_sound_def no_tables_def)

interpretation deadline_write: keyed_update t_id "\<lambda>r. r\<lparr>t_deadline := x\<rparr>" for x
  by unfold_locales simp

lemma consistent_deadline:
  assumes "consistent d"
  shows "consistent (d\<lparr>tasks := update_rows p (\<lambda>r. r\<lparr>t_deadline := x\<rparr>) (tasks d)\<rparr>)" (is "consistent ?d")
proof -
  let ?ts = "update_rows p (\<lambda>r. r\<lparr>t_deadline := x\<rparr>) (tasks d)"
  have find: "map_option t_state (find_row t_id i ?ts) = map_option t_state (find_row t_id i (tasks d))" for i
    by (cases "find_row t_id i (tasks d)") (simp_all add: deadline_write.find_update)
  have live: "live_task ?ts i = live_task (tasks d) i" for i
    using find [of i] by (auto simp: live_task_def split: option.splits)
  have fit: "fits {} ?ts e = fits {} (tasks d) e" for e
    using find [of "e_task e"] by (auto simp: fits_def split: option.splits)
  have "rows_sound ?d"
    using assms
    by (auto simp: consistent_def task_consistent_def task_consistent_but_def rows_sound_def update_rows_def
        task_row_valid_def in_budget_def)
  then have "task_consistent ?d"
    using assms by (simp add: consistent_def task_consistent_def task_consistent_but_def fit)
  moreover have "workflow_consistent ?d"
    using assms by (intro wf_consistent_cong [of ?d d]) (simp_all add: consistent_def links_ok_def live)
  ultimately show ?thesis by (simp add: consistent_def)
qed

lemma keep_task_deadline: "evolves both.W (update_task_deadline i t)"
  unfolding update_task_deadline_def
  by (intro both.ev_bnd both.ev_get_task both.ev_wrap both.ev_change) (simp add: keeps_both_def consistent_deadline)

text \<open>
  The contract of the whole system: a relation on tables that admits the writes of every component
  admits every step; the deletions are a contract of their own.
\<close>

locale live_evolution = workflow_sections D + worker_evolution D + task_handlers D
  for D :: "tables \<Rightarrow> tables \<Rightarrow> bool" +
  assumes api_task_deadline: "evolves W (update_task_deadline i t)"
    and api_workflow_deadline: "evolves W (in_txn (update_workflow_deadline i t))"
    and api_define_workflow: "maps_ok (dw_spec p) \<Longrightarrow> evolves W (define_workflow wc p False)"
begin

lemma sys_task_start: "evolves W (start_task_scheduler c buffered msgs)"
  unfolding start_task_scheduler_def
  by (intro ev_bnd ev_wrap ev_recover_task) (simp add: evolves_def ev_task_queue)

lemma sys_workflow_start: "evolves W (start_workflow_scheduler c buffered msgs)"
  unfolding start_workflow_scheduler_def
  by (intro ev_bnd ev_wrap ev_recover_workflow) (simp add: evolves_def ev_workflow_queue)

lemma sys_on_message: "evolves W (on_message (workflow_callback c) payload)"
  unfolding on_message_def workflow_callback_def
  by (intro ev_case_option ev_ret ev_on_notification)

lemma sys_client_tasks:
  "evolves W (define_and_run_immediate c p False)" "evolves W (define_and_run_scheduled c p target False)"
  unfolding define_and_run_immediate_def define_and_run_scheduled_def
  by (intro ev_client ev_bnd ev_ret)+

lemmas sys_steps = handlers sys_task_start ev_process_workflow ev_schedule_step
  ev_step_update ev_step_task_update ev_cancel_workflow ev_revive ev_reconcile
  sys_workflow_start sys_on_message ev_initialize ev_preprocess ev_run_processor
  ev_postprocess sys_client_tasks ev_cancel_request ev_requests
  ev_in_txn [OF api_task_deadline] api_workflow_deadline ev_produce

lemma live_step_keeps:
  assumes "live_step w w'"
  shows "W w w'"
  using assms
proof (induction rule: live_step.induct)
  case (idle w' w)
  then show ?case by (simp add: W_def D_refl)
next
  case (worker_request s rc q msg)
  show ?case using evolves_snd [OF rv_request] by (simp add: RW_def)
next
  case (worker_execute rc s q i)
  show ?case using evolves_snd [OF rv_execute [OF worker_execute]] by (simp add: RW_def)
next
  case (client_workflow wp w wcl)
  have "evolves W (define_and_run_workflow wcl wp False)"
    unfolding define_and_run_workflow_def
    by (intro ev_bnd api_define_workflow [OF client_workflow] ev_submit_workflow ev_ret)
  then show ?case by (rule evolves_snd)
qed (rule evolves_snd, rule sys_steps, assumption?)+

lemma live_run_keeps: "live_step\<^sup>*\<^sup>* w w' \<Longrightarrow> W w w'"
  by (induction rule: rtranclp_induct) (auto intro: R_refl R_trans live_step_keeps)

end

locale system_evolution = live_evolution D for D :: "tables \<Rightarrow> tables \<Rightarrow> bool" +
  assumes api_deletions: "evolves W (in_txn (delete_task i))" "evolves W (in_txn (delete_workflow i))"
begin

lemma system_step_keeps: "system_step w w' \<Longrightarrow> W w w'"
  by (erule system_step.cases) (auto intro: live_step_keeps evolves_snd api_deletions)

end

lemma keep_workflow_deadline: "evolves both.W (in_txn (update_workflow_deadline i t))"
  by (intro both.ok_in_txn both_okI ok_ev keep.ev_update_workflow_deadline keep_deadline)

lemma keep_define_workflow:
  assumes "maps_ok (dw_spec p)"
  shows "evolves both.W (define_workflow c p False)"
proof -
  have "evolves both.W (in_txn (wrap PersistenceError (define_new_workflow (dw_spec p) creator)))" for creator
  proof (rule both_txn)
    fix w a w'
    assume "wrap PersistenceError (define_new_workflow (dw_spec p) creator) w = (Inr a, w')" "consistent (db w)"
    then have run: "define_new_workflow (dw_spec p) creator w = (Inr a, w')" and old: "task_consistent (db w)"
      "workflow_consistent (db w)"
      by (simp_all add: wrap_result_Inr consistent_def)
    have "tasks (db w') = tasks (db w)" "execs (db w') = execs (db w)"
      using define_new_workflow_ok [OF run] by auto
    then have "task_consistent (db w')"
      using old(1) consistent_cong [of "db w'" "db w" "{}"] by (simp add: task_consistent_def)
    then show "consistent (db w')"
      using define_new_workflow_keeps [OF run assms old(2)] by (simp add: consistent_def)
  qed
  then show ?thesis
    unfolding define_workflow_def active_session_def
    by (simp split: sum.split add: both.ev_throw both.ev_wrap both.ev_if)
qed

lemma keep_deletions: "evolves both.W (in_txn (delete_task i))" "evolves both.W (in_txn (delete_workflow i))"
  by (rule both_txn, erule (1) keep_delete_task keep_delete_workflow)+

interpretation both: system_evolution keeps_both
  by unfold_locales (rule keep_task_deadline keep_workflow_deadline keep_define_workflow keep_deletions; assumption)+

lemma reachable_consistent: "reachable w \<Longrightarrow> consistent (db w)"
proof (induction rule: reachable.induct)
  case (empty_start w)
  then show ?case by (simp add: no_tables_consistent)
next
  case (step w w')
  then show ?case using both.system_step_keeps [OF step(2)] by (simp add: both.W_def keeps_both_def)
qed

lemma reachable_tasks: "reachable w \<Longrightarrow> task_consistent (db w)"
  and reachable_workflows: "reachable w \<Longrightarrow> workflow_consistent (db w)"
  using reachable_consistent by (auto simp: consistent_def)

section \<open>Safety of the engine\<close>

text \<open>C3. In every reachable state a task has at most one execution instance that is not closed, so no two
  attempts of one task are ever under way.\<close>

theorem one_open_instance:
  assumes "reachable w" "e \<in> set (execs (db w))" "e' \<in> set (execs (db w))" "e_task e = e_task e'"
    "e_state e \<notin> {ExecFinalized, ExecCancelled}" "e_state e' \<notin> {ExecFinalized, ExecCancelled}"
  shows "e = e'"
proof -
  note inv = consistentD [OF reachable_tasks [OF assms(1), unfolded task_consistent_def]]
  have "e_id e = e_id e'" using inv(3) assms(2-6) unfolding one_open_def open_exec_def by blast
  then show ?thesis using inv(2) assms(2,3) by (auto simp: distinct_map inj_on_def)
qed

text \<open>C7. In every reachable state the instances of a task that has ended are out of reach of the workers,
  and an instance exists only for a task that has been activated.\<close>

theorem ended_task_has_no_live_instance:
  assumes "reachable w" "e \<in> set (execs (db w))"
  shows "\<exists>t \<in> set (tasks (db w)). t_id t = e_task e \<and> t_state t \<noteq> TaskPending \<and>
    (t_state t \<in> {TaskComplete, TaskFailed, TaskCancelled, TaskTimeout} \<longrightarrow>
      e_state e \<in> {ExecProcessed, ExecFailed, ExecFinalized, ExecCancelled})"
proof -
  have "fits {} (tasks (db w)) e"
    using consistentD(4) [OF reachable_tasks [OF assms(1), unfolded task_consistent_def]] assms(2) .
  then obtain t where t: "find_row t_id (e_task e) (tasks (db w)) = Some t" "t_state t \<noteq> TaskPending"
    "ended_task (t_state t) \<longrightarrow> \<not> live_exec e"
    by (auto simp: fits_def split: option.splits)
  have "\<not> live_exec e \<Longrightarrow> e_state e \<in> {ExecProcessed, ExecFailed, ExecFinalized, ExecCancelled}"
    by (cases "e_state e") (simp_all add: live_exec_def live_exec_states_def)
  then show ?thesis
    using t find_row_Some [OF t(1)] unfolding ended_task_def by blast
qed

text \<open>C4. In every reachable state a step that has been started has all its parents complete.\<close>

theorem started_step_has_complete_parents:
  assumes "reachable w" "s \<in> set (steps (db w))" "m \<in> set (s_parents s)"
    "s_state s \<in> {StepPending, StepRunning, StepComplete, StepFailed, StepCancelling}"
  shows "\<exists>p \<in> set (steps (db w)). s_workflow p = s_workflow s \<and> s_name p = m \<and> s_state p = StepComplete"
proof -
  note inv = wf_consistentD [OF reachable_workflows [OF assms(1)]]
  have parents: "parents_done (db w) s" using inv(3) [OF assms(2)] assms(4) by (simp add: started_def)
  from shape_edges(2) [OF inv(2) assms(2)] assms(3) obtain r p where r: "r \<in> set (deps (db w))" "d_step r = s_id s"
    and p: "p \<in> set (steps (db w))" "s_id p = d_on r" "s_name p = m" "s_workflow p = s_workflow s"
    by (fastforce simp: skel_def)
  then show ?thesis using parents unfolding parents_done_def by blast
qed

text \<open>C5. In every reachable state a COMPLETE workflow has only COMPLETE steps and a CANCELLED one only steps
  that have ended.\<close>

theorem settled_workflow_has_settled_steps:
  assumes "reachable w" "g \<in> set (workflows (db w))" "s \<in> set (steps (db w))" "s_workflow s = w_id g"
  shows "(w_state g = WfComplete \<longrightarrow> s_state s = StepComplete) \<and>
    (w_state g = WfCancelled \<longrightarrow> s_state s \<in> {StepComplete, StepFailed, StepTimedOut, StepCancelled})"
  using wf_consistentD(4) [OF reachable_workflows [OF assms(1)] assms(2)] assms(3,4)
  by (auto simp: settled_def is_terminal_step_state_def)

text \<open>C6. In every reachable state a step has at most one task that is pending or active: a step is never
  executed twice at the same time.\<close>

theorem one_live_task_per_step:
  assumes "reachable w" "l \<in> set (links (db w))" "k \<in> set (links (db w))" "l_step l = l_step k"
    "t \<in> set (tasks (db w))" "t_id t = l_task l" "t_state t \<in> {TaskPending, TaskActive}"
    "u \<in> set (tasks (db w))" "t_id u = l_task k" "t_state u \<in> {TaskPending, TaskActive}"
  shows "t = u"
proof -
  have dist: "distinct (map t_id (tasks (db w)))"
    by (rule consistentD(1) [OF reachable_tasks [OF assms(1), unfolded task_consistent_def]])
  have "live_task (tasks (db w)) (l_task l)" "live_task (tasks (db w)) (l_task k)"
    using find_row_distinct [OF dist assms(5)] find_row_distinct [OF dist assms(8)] assms(6,7,9,10)
    by (simp_all add: live_task_def)
  then have "l_task l = l_task k"
    using wf_consistentD(5) [OF reachable_workflows [OF assms(1)]] assms(2-4) unfolding links_ok_def by blast
  then show ?thesis using dist assms(5,6,8,9) by (auto simp: distinct_map inj_on_def)
qed

text \<open>C28. In every reachable state the rows of the task engine are well formed: a task has an ID, a name, a
  creator and valid retry parameters; an instance has an outcome, an end and an error only if its
  state says so, a worker once it was claimed, and a disposition only if it failed.\<close>

theorem task_rows_well_typed:
  assumes "reachable w"
  shows "(\<forall>t \<in> set (tasks (db w)). t_id t \<noteq> [] \<and> t_name t \<noteq> [] \<and> t_creator t \<noteq> [] \<and> valid_retry (t_retry t)) \<and>
    (\<forall>e \<in> set (execs (db w)). e_id e \<noteq> [] \<and> e_task e \<noteq> [] \<and> exec_outcome_ok (e_state e) (e_terminal e) \<and>
      (e_state e \<in> {ExecDefined, ExecScheduled, ExecEnqueued} \<longrightarrow> e_worker e = None) \<and>
      (e_state e \<in> {ExecAcquired, ExecProcessing, ExecProcessed} \<longrightarrow> e_worker e \<noteq> None) \<and>
      (e_terminal e = None \<longrightarrow> e_terminated e = None \<and> e_error e = None) \<and>
      (e_disposition e \<noteq> None \<longrightarrow> e_terminal e = Some ExecFailed))"
  using consistentD(5) [OF reachable_tasks [OF assms, unfolded task_consistent_def]]
  by (auto simp: rows_sound_def task_row_valid_def new_exec_ok_def exec_row_valid_def exec_ok_def)

text \<open>C16. In every reachable state a task whose retries are limited has at most one more failed attempt
  than retries, whatever messages were duplicated, delayed or lost.\<close>

theorem failed_attempts_bounded:
  assumes "reachable w" "t \<in> set (tasks (db w))" "max_retries (t_retry t) \<noteq> -1"
  shows "int (length (filter (\<lambda>e. e_task e = t_id t \<and> e_terminal e = Some ExecFailed) (execs (db w))))
    \<le> max_retries (t_retry t) + 1"
proof -
  have "in_budget (execs (db w)) t"
    using consistentD(5) [OF reachable_tasks [OF assms(1), unfolded task_consistent_def]] assms(2)
    by (simp add: rows_sound_def)
  then have bound: "int (attempts (execs (db w)) (t_id t)) \<le> max_retries (t_retry t) + 1"
    using assms(3) by (simp add: in_budget_def)
  have "length (filter (\<lambda>e. e_task e = i \<and> e_terminal e = Some ExecFailed) es) \<le> attempts es i" for es i
    by (induction es) (auto simp: attempts_def may_fail_def)
  then show ?thesis using bound by (meson of_nat_mono order_trans)
qed

end
