(* ===== verification/Workflow_Results.thy ===== *)
theory Workflow_Results
  imports System
begin

text \<open>
  What the handlers of the workflow scheduler achieve when they succeed, and where one cannot.
\<close>

section \<open>An overdue workflow\<close>

lemma time_out_ok:
  assumes "time_out_workflow_steps g now w = (Inr ts, w')"
  shows "w_state g = WfTimedOut \<or>
    (\<exists>r. find_row w_id (w_id g) (workflows (db w)) = Some r \<and> w_state r = WfRunning)"
proof -
  let ?flip = "do_if (w_state g \<noteq> WfTimedOut) (wrap PersistenceError (mark_workflow_timed_out (w_id g) now))"
  obtain rows w1 cs w2 w3 w4 where one: "list_workflow_steps (w_id g) w = (Inr rows, w1)"
    and two: "live_tasks_of_running rows w1 = (Inr cs, w2)"
    and three: "do_if (map s_id (filter (\<lambda>s. timeable (s_state s)) rows) \<noteq> [])
      (wrap PersistenceError (mark_workflow_step_timed_out (w_id g)
        (map s_id (filter (\<lambda>s. timeable (s_state s)) rows)) now)) w2 = (Inr (), w3)"
    and four: "?flip w3 = (Inr (), w4)"
    using assms by (auto simp: time_out_workflow_steps_def monad_results Let_def)
  have "workflows (db w3) = workflows (db w2)"
    using three
    by (auto simp: do_if_def wrap_result_Inr mark_workflow_step_timed_out_def only_steps_def split: if_splits
        dest!: update_workflow_step_state_ok)
  then have same: "workflows (db w3) = workflows (db w)"
    using list_workflow_steps_ok [OF one] live_tasks_ok [OF two] by simp
  show ?thesis
  proof (cases "w_state g = WfTimedOut")
    case False
    then obtain r where "find_row w_id (w_id g) (workflows (db w3)) = Some r" "moves workflow_transitions (w_state r) WfTimedOut"
      using four by (auto simp: do_if_def wrap_result_Inr mark_workflow_timed_out_def dest!: update_workflow_state_ok)
    then show ?thesis using same by (cases "w_state r") (auto simp: moves_def succs_def)
  qed simp
qed

text \<open>C38. A workflow that is PENDING, FAILED or CANCELLING when its deadline passes is out of reach of the
  maintenance sweep: the sweep always tries to time it out, the state machine has no such transition
  from these states, and so in every world its reconciliation fails and changes nothing.\<close>

theorem overdue_workflow_never_reconciled:
  assumes "find_row w_id i (workflows (db w)) = Some g" "w_state g \<in> {WfPending, WfFailed, WfCancelling}"
    "w_deadline g \<le> clock w (ticks w)"
  shows "\<exists>err w'. reconcile_workflow c i w = (Inl err, w') \<and> db w' = db w"
proof -
  let ?now = "clock w (ticks w)" and ?w = "w\<lparr>ticks := Suc (ticks w)\<rparr>"
  let ?body = "\<lambda>g. if \<not> w_deadline g > ?now then
        bnd (time_out_workflow_steps g ?now) (\<lambda>cancels. ret (no_drives\<lparr>dr_cancels := cancels\<rparr>))
      else bnd (wrap PersistenceError (list_workflow_steps i)) (\<lambda>rows.
        bnd (reconcile_steps rows (no_drives\<lparr>dr_process := (w_state g = WfPending)\<rparr>)) (\<lambda>r.
        bnd (settle_workflow_if_done g ?now) (\<lambda>_. ret r)))"
  let ?txn = "wrap WorkflowSchedulerError (in_txn (bnd (wrap PersistenceError (get_workflow i)) ?body))"
  obtain r w' where run: "?txn ?w = (r, w')" by (rule prod.exhaust)
  have "\<exists>err. r = Inl err"
  proof (cases r)
    case (Inr d)
    from handler_ok [OF run [unfolded Inr]] obtain a w1 w2 w3 where
      get: "wrap PersistenceError (get_workflow i) w1 = (Inr a, w2)" "db w1 = db ?w" and body: "?body a w2 = (Inr d, w3)"
      by blast
    then have a: "a = g" "db w2 = db w"
      using assms(1) by (auto simp: wrap_result_Inr dest!: get_workflow_ok)
    then obtain ts w4 where "time_out_workflow_steps g ?now w2 = (Inr ts, w4)"
      using body assms(3) by (auto simp: monad_results)
    from time_out_ok [OF this] show ?thesis
      using assms(1,2) a find_row_Some [OF assms(1)] by auto
  qed simp
  then obtain err where err: "r = Inl err" by blast
  then have "reconcile_workflow c i w = (Inl err, w')"
    using run by (simp add: reconcile_workflow_def bnd_def)
  then show ?thesis using handler_error [OF run [unfolded err]] by auto
qed

section \<open>Starting what is ready\<close>

lemma steps_after:
  assumes "update_workflow_step_state i ids new t w = (Inr x, w')"
  shows "\<exists>now. steps (db w') = map (\<lambda>s. if s_id s \<in> set ids \<and> s_workflow s = i
      then step_columns new t s\<lparr>s_updated := now\<rparr> else s) (steps (db w)) \<and>
    (\<forall>s \<in> set (steps (db w)). s_id s \<in> set ids \<and> s_workflow s = i \<longrightarrow> moves step_transitions (s_state s) new) \<and>
    deps (db w') = deps (db w) \<and> workflows (db w') = workflows (db w)"
  using update_workflow_step_state_ok [OF assms]
  by (auto simp: set_step_states_def update_rows_def only_steps_def)

lemma step_columns_kept [simp]:
  "s_id (step_columns new t s) = s_id s" "s_workflow (step_columns new t s) = s_workflow s"
  "s_state (step_columns new t s) = new"
  by (cases new; simp add: step_columns_def)+

lemma workflow_after:
  assumes "update_workflow_state i new t w = (Inr x, w')" "find_row w_id i (workflows (db w)) = Some g"
  shows "(\<exists>g'. find_row w_id i (workflows (db w')) = Some g' \<and> w_state g' = new \<and> w_id g' = w_id g) \<and>
    moves workflow_transitions (w_state g) new \<and> steps (db w') = steps (db w) \<and> deps (db w') = deps (db w)"
proof -
  obtain now where moved: "moves workflow_transitions (w_state g) new"
    and ws: "workflows (db w') = update_rows (\<lambda>r. w_id r = i)
      (\<lambda>r. workflow_columns (w_state g) new t r\<lparr>w_updated := now\<rparr>) (workflows (db w))"
    and rest: "only_workflows (db w) (db w')"
    using update_workflow_state_ok [OF assms(1)] assms(2) by (auto simp: set_workflow_state_def)
  have cols: "w_state (workflow_columns old new t r) = new" "w_id (workflow_columns old new t r) = w_id r" for old r
    by (cases new; simp add: workflow_columns_def)+
  have "find_row w_id k (update_rows p (\<lambda>r. workflow_columns (w_state g) new t r\<lparr>w_updated := now\<rparr>) rs) =
      map_option (\<lambda>r. if p r then workflow_columns (w_state g) new t r\<lparr>w_updated := now\<rparr> else r) (find_row w_id k rs)"
    for k p rs
    by (rule keyed_update.find_update) (simp add: keyed_update_def cols)
  then show ?thesis
    using moved rest assms(2) find_row_Some [OF assms(2)] by (simp add: ws cols only_workflows_def)
qed

lemma ready_cong:
  "steps d' = steps d \<Longrightarrow> deps d' = deps d \<Longrightarrow> ready_to_run d' = ready_to_run d"
  by (intro ext) (simp add: ready_to_run_def)

lemma ready_after:
  assumes "steps d' = map f (steps d)" "deps d' = deps d" "f s = s" "ready_to_run d' s"
    and "\<And>x. s_id (f x) = s_id x" "\<And>x. s_state (f x) = StepComplete \<Longrightarrow> s_state x = StepComplete"
  shows "ready_to_run d s"
  using assms(4-6) by (auto simp: ready_to_run_def list_all_iff assms(1,2))

text \<open>Fan-out starts exactly the steps that are ready, and leaves none behind.\<close>

lemma fan_out_ok:
  assumes "fan_out i t w = (Inr ids, w')" "distinct (map s_id (steps (db w)))"
  shows "set ids = s_id ` {s \<in> set (steps (db w)). s_workflow s = i \<and> ready_to_run (db w) s} \<and>
    workflows (db w') = workflows (db w) \<and>
    (\<forall>s \<in> set (steps (db w)). \<exists>s' \<in> set (steps (db w')). s_id s' = s_id s \<and>
       s_state s' = (if s_workflow s = i \<and> ready_to_run (db w) s then StepPending else s_state s)) \<and>
    (\<forall>s' \<in> set (steps (db w')). s_workflow s' = i \<longrightarrow> \<not> ready_to_run (db w') s')"
proof -
  let ?rows = "filter (ready_to_run (db w)) (steps_of i (db w))"
  have mem: "s_id s \<in> set (map s_id ?rows) \<and> s_workflow s = i \<longleftrightarrow> s_workflow s = i \<and> ready_to_run (db w) s"
    if s: "s \<in> set (steps (db w))" for s
  proof -
    have "inj_on s_id (set (steps (db w)))" using assms(2) by (simp add: distinct_map)
    then have "s_id s \<in> s_id ` set ?rows \<longleftrightarrow> s \<in> set ?rows"
      by (rule inj_on_image_mem_iff) (use s in \<open>auto simp: steps_of_def\<close>)
    then show ?thesis using s by (auto simp: steps_of_def)
  qed
  show ?thesis
  proof (cases "?rows = []")
    case True
    then have "db w' = db w" "ids = []"
      using assms(1) by (auto simp: fan_out_def monad_results dest!: ready_ok)
    moreover have "\<not> ready_to_run (db w) s" if "s \<in> set (steps (db w))" "s_workflow s = i" for s
      using True that by (auto simp: steps_of_def filter_empty_conv)
    ultimately show ?thesis by auto
  next
    case False
    then obtain w1 where w1: "db w1 = db w" and ids: "ids = map s_id ?rows"
      and upd: "update_workflow_step_state i (map s_id ?rows) StepPending t w1 = (Inr (), w')"
      using assms(1) by (auto simp: fan_out_def monad_results mark_workflow_step_pending_def dest!: ready_ok)
    from steps_after [OF upd] obtain now where
      written: "steps (db w') = map (\<lambda>s. if s_id s \<in> set (map s_id ?rows) \<and> s_workflow s = i
        then step_columns StepPending t s\<lparr>s_updated := now\<rparr> else s) (steps (db w))"
      and same: "deps (db w') = deps (db w)" "workflows (db w') = workflows (db w)"
      unfolding w1 by blast
    have new: "steps (db w') = map (\<lambda>s. if s_workflow s = i \<and> ready_to_run (db w) s
        then step_columns StepPending t s\<lparr>s_updated := now\<rparr> else s) (steps (db w))"
      unfolding written by (rule map_cong [OF refl]) (simp only: mem)
    let ?f = "\<lambda>s. if s_workflow s = i \<and> ready_to_run (db w) s then step_columns StepPending t s\<lparr>s_updated := now\<rparr> else s"
    have f: "s_id (?f s) = s_id s" "s_workflow (?f s) = s_workflow s"
      "s_state (?f s) = StepComplete \<longleftrightarrow> s_state s = StepComplete" for s
      by (auto simp: ready_to_run_def)
    have none: "\<not> ready_to_run (db w') (?f s)" if "s \<in> set (steps (db w))" "s_workflow s = i" for s
    proof
      assume r: "ready_to_run (db w') (?f s)"
      then have unready: "\<not> ready_to_run (db w) s" using that(2) by (auto simp: ready_to_run_def)
      then have "?f s = s" by simp
      moreover have "ready_to_run (db w') s" using r unready by simp
      ultimately have "ready_to_run (db w) s"
        by (rule ready_after [where f = ?f, OF new same(1)]) (use f(1,3) in blast)+
      then show False using unready by simp
    qed
    have "set ids = s_id ` {s \<in> set (steps (db w)). s_workflow s = i \<and> ready_to_run (db w) s}"
      by (auto simp: ids steps_of_def)
    moreover have "\<exists>s' \<in> set (steps (db w')). s_id s' = s_id s \<and>
       s_state s' = (if s_workflow s = i \<and> ready_to_run (db w) s then StepPending else s_state s)"
      if "s \<in> set (steps (db w))" for s
      unfolding new set_map by (rule bexI [of _ "?f s"]) (use that in auto)
    moreover have "\<not> ready_to_run (db w') s'" if "s' \<in> set (steps (db w'))" "s_workflow s' = i" for s'
      using that none f(2) unfolding new set_map by (metis (no_types, lifting) imageE)
    ultimately show ?thesis using same(2) by blast
  qed
qed

section \<open>Cancelling\<close>

text \<open>One group of steps moves to a new state.\<close>

lemma mark_group:
  assumes "do_if (ids \<noteq> []) (wrap PersistenceError (update_workflow_step_state i ids new t)) w = (Inr x, w')"
    and "workflow_consistent (db w)" "new \<notin> {StepDefined, StepPending}"
  shows "\<exists>f. steps (db w') = map f (steps (db w)) \<and> workflow_consistent (db w') \<and>
    workflows (db w') = workflows (db w) \<and>
    (\<forall>s. s_id (f s) = s_id s \<and> s_workflow (f s) = s_workflow s \<and>
       s_state (f s) = (if s_id s \<in> set ids \<and> s_workflow s = i then new else s_state s))"
proof (cases "ids = []")
  case True
  then have "w' = w" using assms(1) by simp
  then show ?thesis using assms(2) True by (intro exI [of _ "\<lambda>s. s"]) simp
next
  case False
  then have upd: "update_workflow_step_state i ids new t w = (Inr x, w')"
    using assms(1) by (simp add: do_if_def wrap_result_Inr)
  from steps_after [OF upd] obtain now where
    "steps (db w') = map (\<lambda>s. if s_id s \<in> set ids \<and> s_workflow s = i
      then step_columns new t s\<lparr>s_updated := now\<rparr> else s) (steps (db w))" "workflows (db w') = workflows (db w)"
    by blast
  moreover have "workflow_consistent (db w')"
    by (rule wf_update_steps [OF upd assms(2)]) (use assms(3) in simp_all)
  ultimately show ?thesis
    by (intro exI [of _ "\<lambda>s. if s_id s \<in> set ids \<and> s_workflow s = i
      then step_columns new t s\<lparr>s_updated := now\<rparr> else s"]) auto
qed

lemma settle_cancelling:
  "w_state g = WfCancelling \<Longrightarrow> settle_workflow_if_done g now =
    bnd (wrap PersistenceError (list_workflow_steps (w_id g))) (\<lambda>rows.
      if \<exists>s \<in> set rows. s_state s \<in> {StepDefined, StepPending, StepRunning, StepCancelling} then ret False
      else bnd (wrap PersistenceError (mark_workflow_cancelled (w_id g) now)) (\<lambda>_. ret True))"
  by (simp add: settle_workflow_if_done_def)

lemma settle_cancelling_ok:
  assumes "settle_workflow_if_done g now w = (Inr b, w')" "w_state g = WfCancelling" "workflow_consistent (db w)"
    and "find_row w_id (w_id g) (workflows (db w)) = Some r" "w_state r = WfCancelling"
  shows "steps (db w') = steps (db w) \<and>
    (\<exists>r'. find_row w_id (w_id g) (workflows (db w')) = Some r' \<and> w_state r' =
      (if \<exists>s \<in> set (steps_of (w_id g) (db w)). s_state s \<in> {StepDefined, StepPending, StepRunning, StepCancelling}
       then WfCancelling else WfCancelled))"
proof -
  let ?live = "\<lambda>rows. \<exists>s \<in> set rows. s_state s \<in> {StepDefined, StepPending, StepRunning, StepCancelling}"
  obtain rows w1 where list: "list_workflow_steps (w_id g) w = (Inr rows, w1)"
    and body: "(if ?live rows then ret False
      else bnd (wrap PersistenceError (mark_workflow_cancelled (w_id g) now)) (\<lambda>_. ret True)) w1 = (Inr b, w')"
    using assms(1) unfolding settle_cancelling [OF assms(2)] bnd_result_Inr wrap_result_Inr by blast
  from list_all_steps [OF assms(3) list] have rows: "set rows = set (steps_of (w_id g) (db w))" and w1: "db w1 = db w"
    by simp_all
  show ?thesis
  proof (cases "?live rows")
    case True
    then have "w' = w1" using body by simp
    then show ?thesis using True rows w1 assms(4,5) by simp
  next
    case False
    then have "update_workflow_state (w_id g) WfCancelled now w1 = (Inr (), w')"
      using body by (simp only: if_False) (auto simp: mark_workflow_cancelled_def bnd_result_Inr wrap_result_Inr)
    from workflow_after [OF this, of r] show ?thesis using False rows w1 assms(4) by auto
  qed
qed

fun cancelled_state :: "step_state \<Rightarrow> step_state" where
  "cancelled_state StepComplete = StepComplete"
| "cancelled_state StepRunning = StepCancelling"
| "cancelled_state StepCancelling = StepCancelling"
| "cancelled_state _ = StepCancelled"

lemma request_cancels_db: "request_cancels c ts w = (r, w') \<Longrightarrow> steps (db w') = steps (db w) \<and> workflows (db w') = workflows (db w)"
proof -
  assume run: "request_cancels c ts w = (r, w')"
  have "evolves quiet.W (request_cancels c ts)"
    unfolding request_cancels_def cancel_task_def by (intro quiet.ev_log)
  from quietD [OF this run] show ?thesis by simp
qed

lemma cancel_workflow_ok:
  assumes "cancel_workflow c i w = (Inr u, w')" "workflow_consistent (db w)"
    and "find_row w_id i (workflows (db w)) = Some g" "w_state g \<notin> {WfCancelling, WfCancelled, WfComplete}"
  shows "(\<exists>f. steps (db w') = map f (steps (db w)) \<and>
      (\<forall>s \<in> set (steps (db w)). s_id (f s) = s_id s \<and> s_workflow (f s) = s_workflow s \<and>
        s_state (f s) = (if s_workflow s = i then cancelled_state (s_state s) else s_state s))) \<and>
    (\<exists>g'. find_row w_id i (workflows (db w')) = Some g' \<and> w_state g' =
      (if \<exists>s \<in> set (steps (db w)). s_workflow s = i \<and> s_state s \<in> {StepRunning, StepCancelling}
       then WfCancelling else WfCancelled))"
proof -
  let ?now = "clock w (ticks w)"
  let ?P1 = "\<lambda>s. s_state s = StepRunning" and ?P2 = "\<lambda>s. s_state s \<in> {StepDefined, StepPending, StepFailed, StepTimedOut}"
  obtain cs wt where txn: "wrap WorkflowSchedulerError (in_txn (
       bnd (wrap PersistenceError (get_workflow i)) (\<lambda>w.
       if w_state w \<in> {WfCancelling, WfCancelled, WfComplete} then ret []
       else
         bnd (wrap PersistenceError (mark_workflow_cancelling i ?now)) (\<lambda>_.
         bnd (wrap PersistenceError (list_workflow_steps i)) (\<lambda>rows.
         bnd (live_tasks_of_running rows) (\<lambda>cancels.
         let cancelling = map s_id (filter ?P1 rows); cancelled = map s_id (filter ?P2 rows) in
         bnd (do_if (cancelling \<noteq> [])
           (wrap PersistenceError (mark_workflow_step_cancelling i cancelling ?now))) (\<lambda>_.
         bnd (do_if (cancelled \<noteq> [])
           (wrap PersistenceError (mark_workflow_step_cancelled i cancelled ?now))) (\<lambda>_.
         bnd (settle_workflow_if_done (w\<lparr>w_state := WfCancelling\<rparr>) ?now) (\<lambda>_.
         ret cancels)))))))))
       (w\<lparr>ticks := Suc (ticks w)\<rparr>) = (Inr cs, wt)"
    and post: "request_cancels c cs wt = (Inr u, w')"
    using assms(1) by (auto simp: cancel_workflow_def bnd_result_Inr)
  from handler_ok [OF txn] obtain a w1 w2 w3 where
    get: "wrap PersistenceError (get_workflow i) w1 = (Inr a, w2)" "db w1 = db w" "db wt = db w3"
    and body: "(if w_state a \<in> {WfCancelling, WfCancelled, WfComplete} then ret []
       else
         bnd (wrap PersistenceError (mark_workflow_cancelling i ?now)) (\<lambda>_.
         bnd (wrap PersistenceError (list_workflow_steps i)) (\<lambda>rows.
         bnd (live_tasks_of_running rows) (\<lambda>cancels.
         let cancelling = map s_id (filter ?P1 rows); cancelled = map s_id (filter ?P2 rows) in
         bnd (do_if (cancelling \<noteq> [])
           (wrap PersistenceError (mark_workflow_step_cancelling i cancelling ?now))) (\<lambda>_.
         bnd (do_if (cancelled \<noteq> [])
           (wrap PersistenceError (mark_workflow_step_cancelled i cancelled ?now))) (\<lambda>_.
         bnd (settle_workflow_if_done (a\<lparr>w_state := WfCancelling\<rparr>) ?now) (\<lambda>_.
         ret cancels))))))) w2 = (Inr cs, w3)"
    by auto
  have a: "a = g" "db w2 = db w" using get assms(3) by (auto simp: wrap_result_Inr dest!: get_workflow_ok)
  obtain w4 rows w5 w6 w7 w8 b where
    one: "update_workflow_state i WfCancelling ?now w2 = (Inr (), w4)"
    and two: "list_workflow_steps i w4 = (Inr rows, w5)" and three: "live_tasks_of_running rows w5 = (Inr cs, w6)"
    and four: "do_if (map s_id (filter ?P1 rows) \<noteq> [])
      (wrap PersistenceError (update_workflow_step_state i (map s_id (filter ?P1 rows)) StepCancelling ?now)) w6 = (Inr (), w7)"
    and five: "do_if (map s_id (filter ?P2 rows) \<noteq> [])
      (wrap PersistenceError (update_workflow_step_state i (map s_id (filter ?P2 rows)) StepCancelled ?now)) w7 = (Inr (), w8)"
    and six: "settle_workflow_if_done (g\<lparr>w_state := WfCancelling\<rparr>) ?now w8 = (Inr b, w3)"
    using body assms(4) a(1)
    by (auto simp: bnd_result_Inr wrap_result_Inr Let_def mark_workflow_cancelling_def
        mark_workflow_step_cancelling_def mark_workflow_step_cancelled_def)
  have g2: "find_row w_id i (workflows (db w2)) = Some g" using assms(3) a(2) by simp
  obtain g4 where g4: "find_row w_id i (workflows (db w4)) = Some g4" "w_state g4 = WfCancelling"
    and s4: "steps (db w4) = steps (db w)"
    using workflow_after [OF one g2] a(2) by auto
  have c4: "workflow_consistent (db w4)"
    by (rule wf_update_state [OF one]) (use assms(2) a(2) in simp_all)
  have rows: "set rows = set (steps_of i (db w))" "db w6 = db w4"
    using list_all_steps [OF c4 two] s4 live_tasks_ok [OF three] by (simp_all add: steps_of_def)
  from mark_group [OF four] c4 rows(2) obtain f where f: "steps (db w7) = map f (steps (db w))"
    "workflow_consistent (db w7)" "workflows (db w7) = workflows (db w4)"
    "\<forall>s. s_id (f s) = s_id s \<and> s_workflow (f s) = s_workflow s \<and>
       s_state (f s) = (if s_id s \<in> set (map s_id (filter ?P1 rows)) \<and> s_workflow s = i then StepCancelling else s_state s)"
    using s4 by auto
  from mark_group [OF five f(2)] obtain h where h: "steps (db w8) = map h (steps (db w7))"
    "workflow_consistent (db w8)" "workflows (db w8) = workflows (db w4)"
    "\<forall>s. s_id (h s) = s_id s \<and> s_workflow (h s) = s_workflow s \<and>
       s_state (h s) = (if s_id s \<in> set (map s_id (filter ?P2 rows)) \<and> s_workflow s = i then StepCancelled else s_state s)"
    using f(3) by auto
  have ids: "inj_on s_id (set (steps (db w)))"
    using shape_ids [OF wf_consistentD(2) [OF assms(2)]] by (simp add: distinct_map)
  have listed: "s_id s \<in> set (map s_id (filter P rows)) \<and> s_workflow s = i \<longleftrightarrow> s_workflow s = i \<and> P s"
    if s: "s \<in> set (steps (db w))" for s P
  proof -
    have "s_id s \<in> s_id ` {r \<in> set rows. P r} \<longleftrightarrow> s \<in> {r \<in> set rows. P r}"
      by (rule inj_on_image_mem_iff [OF ids s]) (use rows(1) in \<open>auto simp: steps_of_def\<close>)
    then show ?thesis using rows(1) s by (auto simp: steps_of_def)
  qed
  have new: "s_state (h (f s)) = (if s_workflow s = i then cancelled_state (s_state s) else s_state s)"
    if "s \<in> set (steps (db w))" for s
    using listed [OF that, of ?P1] listed [OF that, of ?P2] f(4) h(4) by (cases "s_state s") auto
  have g8: "find_row w_id (w_id g) (workflows (db w8)) = Some g4" "w_id g = i"
    using g4(1) h(3) find_row_Some [OF assms(3)] by auto
  have "(\<exists>s \<in> set (steps_of i (db w8)). s_state s \<in> {StepDefined, StepPending, StepRunning, StepCancelling}) \<longleftrightarrow>
      (\<exists>s \<in> set (steps (db w)). s_workflow s = i \<and> s_state s \<in> {StepRunning, StepCancelling})"
  proof -
    have wf: "s_workflow (h (f s)) = s_workflow s" for s using f(4) h(4) by simp
    have "s_state (h (f s)) \<in> {StepDefined, StepPending, StepRunning, StepCancelling} \<longleftrightarrow> s_state s \<in> {StepRunning, StepCancelling}"
      if "s \<in> set (steps (db w))" "s_workflow s = i" for s
      using new [OF that(1)] that(2) by (cases "s_state s") auto
    then show ?thesis using wf by (auto simp: steps_of_def f(1) h(1))
  qed
  then have final: "steps (db w3) = steps (db w8)" "\<exists>g'. find_row w_id i (workflows (db w3)) = Some g' \<and> w_state g' =
      (if \<exists>s \<in> set (steps (db w)). s_workflow s = i \<and> s_state s \<in> {StepRunning, StepCancelling}
       then WfCancelling else WfCancelled)"
    using settle_cancelling_ok [OF six _ h(2), of g4] g8 g4(2) by auto
  have "steps (db w') = map (\<lambda>s. h (f s)) (steps (db w))" "workflows (db w') = workflows (db w3)"
    using request_cancels_db [OF post] get(3) final(1) f(1) h(1) by simp_all
  then show ?thesis
    using new f(4) h(4) final(2) by (intro conjI exI [of _ "\<lambda>s. h (f s)"]) simp_all
qed

section \<open>What the two handlers achieve\<close>

lemma pokes_db: "for_each ids (\<lambda>i. poke c (\<lambda>u. prepare_wf_schedule_step u ws_name i t)) w = (r, w') \<Longrightarrow>
    steps (db w') = steps (db w) \<and> workflows (db w') = workflows (db w) \<and> deps (db w') = deps (db w)"
proof -
  assume run: "for_each ids (\<lambda>i. poke c (\<lambda>u. prepare_wf_schedule_step u ws_name i t)) w = (r, w')"
  have "evolves quiet.W (for_each ids (\<lambda>i. poke c (\<lambda>u. prepare_wf_schedule_step u ws_name i t)))"
    unfolding poke_def by (intro quiet.ev_log)
  from quietD [OF this run] show ?thesis by simp
qed

lemma process_workflow_ok:
  assumes "process_workflow c i w = (Inr u, w')" "find_row w_id i (workflows (db w)) = Some g" "\<not> hard_stop (w_state g)"
  shows "\<exists>w2 ids t w3. steps (db w2) = steps (db w) \<and> deps (db w2) = deps (db w) \<and>
    (\<exists>g'. find_row w_id i (workflows (db w2)) = Some g' \<and>
       w_state g' = (if w_state g = WfPending then WfRunning else w_state g)) \<and>
    fan_out i t w2 = (Inr ids, w3) \<and> steps (db w') = steps (db w3) \<and>
    workflows (db w') = workflows (db w3) \<and> deps (db w') = deps (db w3)"
proof -
  let ?now = "clock w (ticks w)"
  let ?body = "\<lambda>g. if hard_stop (w_state g) then ret []
     else bnd (do_if (w_state g = WfPending)
         (wrap PersistenceError (mark_workflow_running (w_id g) ?now))) (\<lambda>_. fan_out (w_id g) ?now)"
  obtain ids wt where txn: "wrap WorkflowSchedulerError (in_txn
      (bnd (wrap PersistenceError (get_workflow i)) ?body)) (w\<lparr>ticks := Suc (ticks w)\<rparr>) = (Inr ids, wt)"
    and post: "for_each ids (\<lambda>i. poke c (\<lambda>u. prepare_wf_schedule_step u ws_name i ?now)) wt = (Inr u, w')"
    using assms(1) by (auto simp: process_workflow_def bnd_result_Inr)
  from handler_ok [OF txn] obtain a w1 w2 w3 where
    get: "wrap PersistenceError (get_workflow i) w1 = (Inr a, w2)" "db w1 = db w" "db wt = db w3"
    and body: "?body a w2 = (Inr ids, w3)"
    by auto
  have a: "a = g" "db w2 = db w" using get assms(2) by (auto simp: wrap_result_Inr dest!: get_workflow_ok)
  have i: "w_id g = i" using find_row_Some [OF assms(2)] by simp
  obtain w4 where one: "do_if (w_state g = WfPending)
         (wrap PersistenceError (update_workflow_state i WfRunning ?now)) w2 = (Inr (), w4)"
    and two: "fan_out i ?now w4 = (Inr ids, w3)"
    using body assms(3) a(1) i by (auto simp: bnd_result_Inr mark_workflow_running_def)
  have "steps (db w4) = steps (db w) \<and> deps (db w4) = deps (db w) \<and>
    (\<exists>g'. find_row w_id i (workflows (db w4)) = Some g' \<and>
       w_state g' = (if w_state g = WfPending then WfRunning else w_state g))"
  proof (cases "w_state g = WfPending")
    case True
    then have "update_workflow_state i WfRunning ?now w2 = (Inr (), w4)"
      using one by (simp add: do_if_def wrap_result_Inr)
    from workflow_after [OF this, of g] show ?thesis using a(2) assms(2) True by auto
  next
    case False
    then show ?thesis using one a(2) assms(2) by simp
  qed
  moreover have "steps (db w') = steps (db w3) \<and> workflows (db w') = workflows (db w3) \<and> deps (db w') = deps (db w3)"
    using pokes_db [OF post] get(3) by simp
  ultimately show ?thesis using two by (intro exI [of _ w4] exI [of _ ids] exI [of _ ?now] exI [of _ w3]) blast
qed

text \<open>C10. When a workflow that is not stopped for good is processed successfully in a reachable state, exactly
  the steps whose parents are all complete become PENDING, every other step of the database keeps its
  state, no step of the workflow is left ready to run, and a PENDING workflow is RUNNING.\<close>

theorem process_workflow_starts_ready:
  assumes "reachable w" "process_workflow c i w = (Inr u, w')"
    and "find_row w_id i (workflows (db w)) = Some g" "\<not> hard_stop (w_state g)"
  shows "(\<forall>s \<in> set (steps (db w)). \<exists>s' \<in> set (steps (db w')). s_id s' = s_id s \<and>
       s_state s' = (if s_workflow s = i \<and> ready_to_run (db w) s then StepPending else s_state s)) \<and>
    (\<forall>s' \<in> set (steps (db w')). s_workflow s' = i \<longrightarrow> \<not> ready_to_run (db w') s') \<and>
    (\<exists>g'. find_row w_id i (workflows (db w')) = Some g' \<and>
       w_state g' = (if w_state g = WfPending then WfRunning else w_state g))"
proof -
  obtain w2 ids t w3 where pre: "steps (db w2) = steps (db w)" "deps (db w2) = deps (db w)"
      "\<exists>g'. find_row w_id i (workflows (db w2)) = Some g' \<and>
        w_state g' = (if w_state g = WfPending then WfRunning else w_state g)"
    and fan: "fan_out i t w2 = (Inr ids, w3)"
    and post: "steps (db w') = steps (db w3)" "workflows (db w') = workflows (db w3)" "deps (db w') = deps (db w3)"
    using process_workflow_ok [OF assms(2-4)] by blast
  have ids: "distinct (map s_id (steps (db w2)))"
    using shape_ids [OF wf_consistentD(2) [OF reachable_workflows [OF assms(1)]]] pre(1) by simp
  note same = ready_cong [OF pre(1,2)] ready_cong [OF post(1,3)]
  from fan_out_ok [OF fan ids] show ?thesis unfolding same post pre(1) using pre(3) by simp
qed

text \<open>C11. A successful cancellation of a live workflow in a reachable state: every running step of it is being
  cancelled, every other step that is not complete is cancelled, no step of another workflow moves, and
  the workflow is CANCELLED at once unless a step still has to be stopped.\<close>

theorem cancel_workflow_achieves:
  assumes "reachable w" "cancel_workflow c i w = (Inr u, w')"
    and "find_row w_id i (workflows (db w)) = Some g" "w_state g \<notin> {WfCancelling, WfCancelled, WfComplete}"
  shows "(\<exists>f. steps (db w') = map f (steps (db w)) \<and>
      (\<forall>s \<in> set (steps (db w)). s_id (f s) = s_id s \<and> s_workflow (f s) = s_workflow s \<and>
        s_state (f s) = (if s_workflow s = i then cancelled_state (s_state s) else s_state s))) \<and>
    (\<exists>g'. find_row w_id i (workflows (db w')) = Some g' \<and> w_state g' =
      (if \<exists>s \<in> set (steps (db w)). s_workflow s = i \<and> s_state s \<in> {StepRunning, StepCancelling}
       then WfCancelling else WfCancelled))"
  by (rule cancel_workflow_ok [OF assms(2) reachable_workflows [OF assms(1)] assms(3,4)])

end
