(* ===== verification/Step_Results.thy ===== *)
theory Step_Results
  imports Workflow_Results
begin

text \<open>
  What the outcome of a step does to the step and its workflow (\<open>workflow/scheduler_step_exec_update.go\<close>,
  \<open>workflow/scheduler_step_task_update.go\<close>): the progress of a workflow, and two outcomes that go wrong.
\<close>

section \<open>The end of a step\<close>

lemma settle_running:
  "w_state g = WfRunning \<Longrightarrow> settle_workflow_if_done g now =
    bnd (wrap PersistenceError (list_workflow_steps (w_id g))) (\<lambda>rows.
      if \<exists>s \<in> set rows. s_state s \<noteq> StepComplete then ret False
      else bnd (wrap PersistenceError (mark_workflow_complete (w_id g) now)) (\<lambda>_. ret True))"
  by (simp add: settle_workflow_if_done_def)

lemma settle_running_ok:
  assumes "settle_workflow_if_done g now w = (Inr b, w')" "w_state g = WfRunning" "workflow_consistent (db w)"
    and "find_row w_id (w_id g) (workflows (db w)) = Some r" "w_state r = WfRunning"
  shows "steps (db w') = steps (db w) \<and> (b \<longleftrightarrow> (\<forall>s \<in> set (steps_of (w_id g) (db w)). s_state s = StepComplete)) \<and>
    (\<exists>r'. find_row w_id (w_id g) (workflows (db w')) = Some r' \<and> w_state r' = (if b then WfComplete else WfRunning))"
proof -
  obtain rows w1 where list: "list_workflow_steps (w_id g) w = (Inr rows, w1)"
    and body: "(if \<exists>s \<in> set rows. s_state s \<noteq> StepComplete then ret False
      else bnd (wrap PersistenceError (mark_workflow_complete (w_id g) now)) (\<lambda>_. ret True)) w1 = (Inr b, w')"
    using assms(1) unfolding settle_running [OF assms(2)] bnd_result_Inr wrap_result_Inr by blast
  from list_all_steps [OF assms(3) list] have rows: "set rows = set (steps_of (w_id g) (db w))" and w1: "db w1 = db w"
    by simp_all
  show ?thesis
  proof (cases "\<exists>s \<in> set rows. s_state s \<noteq> StepComplete")
    case True
    then have "w' = w1" "\<not> b" using body by simp_all
    then show ?thesis using True rows w1 assms(4,5) by auto
  next
    case False
    then have "update_workflow_state (w_id g) WfComplete now w1 = (Inr (), w')" "b"
      using body by (auto simp: mark_workflow_complete_def bnd_result_Inr wrap_result_Inr)
    with workflow_after [OF this(1), of r] show ?thesis using False rows w1 assms(4) by auto
  qed
qed

text \<open>The outcome of a live step, and what is sent after the commit.\<close>

definition step_aftermath :: "wf_sched \<Rightarrow> ident option \<Rightarrow> ident list \<Rightarrow> time \<Rightarrow> (world, unit) m" where
  "step_aftermath c nxt cs now =
     bnd (case nxt of None \<Rightarrow> ret () | Some wid \<Rightarrow>
       do_if (wid \<noteq> []) (poke c (\<lambda>u. prepare_wf_process u ws_name wid now))) (\<lambda>_. request_cancels c cs)"

definition step_transaction :: "ident \<Rightarrow> step_state \<Rightarrow> time \<Rightarrow> (world, ident option \<times> ident list) m" where
  "step_transaction i new now =
     bnd (wrap PersistenceError (get_workflow_step i)) (\<lambda>s.
     bnd (wrap PersistenceError (get_workflow (s_workflow s))) (\<lambda>w.
     if w_state w \<in> {WfCancelling, WfCancelled} then
       bnd (do_if (\<not> is_terminal_step_state (s_state s))
         (wrap PersistenceError (mark_workflow_step_cancelled (w_id w) [i] now))) (\<lambda>_.
       bnd (settle_workflow_if_done w now) (\<lambda>_. ret (None, [])))
     else if is_terminal_step_state (s_state s) then ret (None, [])
     else apply_outcome w i new now))"

lemma apply_step_parts:
  "is_terminal_step_state new \<Longrightarrow> apply_step_execution_update c i new =
    bnd time_now (\<lambda>now. bnd (wrap WorkflowSchedulerError (in_txn (step_transaction i new now)))
      (\<lambda>(nxt, cs). step_aftermath c nxt cs now))"
  by (simp add: apply_step_execution_update_def step_transaction_def step_aftermath_def)

lemma step_transaction_ok:
  assumes "wrap k (in_txn (step_transaction i new now)) w = (Inr (nxt, cs), wt)"
    and "find_row s_id i (steps (db w)) = Some s" "\<not> is_terminal_step_state (s_state s)"
    and "find_row w_id (s_workflow s) (workflows (db w)) = Some g" "w_state g \<notin> {WfCancelling, WfCancelled}"
  shows "\<exists>w4 w3. db w4 = db w \<and> apply_outcome g i new now w4 = (Inr (nxt, cs), w3) \<and> db wt = db w3"
proof -
  from handler_ok [OF assms(1) [unfolded step_transaction_def]] obtain a w1 w2 w3 where
    get: "wrap PersistenceError (get_workflow_step i) w1 = (Inr a, w2)" "db w1 = db w" "db wt = db w3"
    and body: "bnd (wrap PersistenceError (get_workflow (s_workflow a))) (\<lambda>w.
         if w_state w \<in> {WfCancelling, WfCancelled} then
           bnd (do_if (\<not> is_terminal_step_state (s_state a))
             (wrap PersistenceError (mark_workflow_step_cancelled (w_id w) [i] now))) (\<lambda>_.
           bnd (settle_workflow_if_done w now) (\<lambda>_. ret (None, [])))
         else if is_terminal_step_state (s_state a) then ret (None, [])
         else apply_outcome w i new now) w2 = (Inr (nxt, cs), w3)" by auto
  have a: "a = s" "db w2 = db w" using get assms(2) by (auto simp: wrap_result_Inr dest!: get_workflow_step_ok)
  obtain g1 w4 where "get_workflow (s_workflow s) w2 = (Inr g1, w4)"
    and rest: "(if w_state g1 \<in> {WfCancelling, WfCancelled} then
           bnd (do_if (\<not> is_terminal_step_state (s_state s))
             (wrap PersistenceError (mark_workflow_step_cancelled (w_id g1) [i] now))) (\<lambda>_.
           bnd (settle_workflow_if_done g1 now) (\<lambda>_. ret (None, [])))
         else if is_terminal_step_state (s_state s) then ret (None, [])
         else apply_outcome g1 i new now) w4 = (Inr (nxt, cs), w3)"
    using body unfolding a(1) bnd_result_Inr wrap_result_Inr by blast
  then have g1: "g1 = g" "db w4 = db w" using assms(4) a(2) by (auto dest!: get_workflow_ok)
  have "apply_outcome g i new now w4 = (Inr (nxt, cs), w3)"
    using rest assms(3,5) by (simp add: g1)
  then show ?thesis using g1(2) get(3) by blast
qed

lemma step_update_ok:
  assumes "apply_step_execution_update c i new w = (Inr u, w')"
    and "find_row s_id i (steps (db w)) = Some s" "\<not> is_terminal_step_state (s_state s)"
    and "find_row w_id (s_workflow s) (workflows (db w)) = Some g" "w_state g \<notin> {WfCancelling, WfCancelled}"
  shows "\<exists>w4 nxt cs w3 wt. db w4 = db w \<and> apply_outcome g i new (clock w (ticks w)) w4 = (Inr (nxt, cs), w3) \<and>
    db wt = db w3 \<and> step_aftermath c nxt cs (clock w (ticks w)) wt = (Inr u, w')"
proof -
  let ?w = "w\<lparr>ticks := Suc (ticks w)\<rparr>"
  have "is_terminal_step_state new"
    using assms(1) by (auto simp: apply_step_execution_update_def bnd_result_Inr split: if_splits)
  then obtain nxt cs wt where
    txn: "wrap WorkflowSchedulerError (in_txn (step_transaction i new (clock w (ticks w)))) ?w = (Inr (nxt, cs), wt)"
    and post: "step_aftermath c nxt cs (clock w (ticks w)) wt = (Inr u, w')"
    using assms(1) by (auto simp: apply_step_parts bnd_result_Inr)
  have "\<exists>w4 w3. db w4 = db ?w \<and> apply_outcome g i new (clock w (ticks w)) w4 = (Inr (nxt, cs), w3) \<and> db wt = db w3"
    by (rule step_transaction_ok [OF txn _ assms(3) _ assms(5)]) (use assms in simp_all)
  then obtain w4 w3 where "db w4 = db w" "apply_outcome g i new (clock w (ticks w)) w4 = (Inr (nxt, cs), w3)" "db wt = db w3"
    by auto
  then show ?thesis using post by blast
qed

text \<open>C12. When a running step of a running workflow completes in a reachable state, this step alone becomes
  COMPLETE. If it was the last one the workflow is COMPLETE and nothing is sent; otherwise the workflow
  keeps running and the scheduler asks itself to process it again, so that its children can start.\<close>

theorem step_completion_advances:
  assumes "reachable w" "apply_step_execution_update c i StepComplete w = (Inr u, w')"
    and "find_row s_id i (steps (db w)) = Some s" "\<not> is_terminal_step_state (s_state s)"
    and "find_row w_id (s_workflow s) (workflows (db w)) = Some g" "w_state g = WfRunning" "w_id g \<noteq> []"
  shows "\<exists>wt g'. (let over = (\<forall>x \<in> set (steps (db w)). s_workflow x = w_id g \<and> s_id x \<noteq> i \<longrightarrow> s_state x = StepComplete) in
    (\<exists>f. steps (db wt) = map f (steps (db w)) \<and> (\<forall>x \<in> set (steps (db w)). s_id (f x) = s_id x \<and>
       s_state (f x) = (if s_id x = i then StepComplete else s_state x))) \<and>
    find_row w_id (w_id g) (workflows (db wt)) = Some g' \<and> w_state g' = (if over then WfComplete else WfRunning) \<and>
    w' = (if over then wt else snd (poke c (\<lambda>v. prepare_wf_process v ws_name (w_id g) (clock w (ticks w))) wt)))"
proof -
  let ?now = "clock w (ticks w)"
  let ?over = "\<forall>x \<in> set (steps (db w)). s_workflow x = w_id g \<and> s_id x \<noteq> i \<longrightarrow> s_state x = StepComplete"
  note c0 = reachable_workflows [OF assms(1)]
  have live: "w_state g \<notin> {WfCancelling, WfCancelled}" using assms(6) by simp
  from step_update_ok [OF assms(2-5) live] obtain w4 nxt cs w3 wt where g1: "db w4 = db w"
    and out: "apply_outcome g i StepComplete ?now w4 = (Inr (nxt, cs), w3)"
    and wt: "db wt = db w3" and post: "step_aftermath c nxt cs ?now wt = (Inr u, w')"
    by blast
  from out obtain w5 b where one: "update_workflow_step_state (w_id g) [i] StepComplete ?now w4 = (Inr (), w5)"
    and two: "settle_workflow_if_done g ?now w5 = (Inr b, w3)" and res: "nxt = (if b then None else Some (w_id g))" "cs = []"
    by (auto simp: apply_outcome_def bnd_result_Inr wrap_result_Inr mark_workflow_step_complete_def)
  have gid: "w_id g = s_workflow s" using find_row_Some [OF assms(5)] by simp
  from steps_after [OF one] obtain now where new: "steps (db w5) = map (\<lambda>x. if s_id x \<in> set [i] \<and> s_workflow x = w_id g
      then step_columns StepComplete ?now x\<lparr>s_updated := now\<rparr> else x) (steps (db w))"
    and same: "workflows (db w5) = workflows (db w)"
    unfolding g1 by blast
  have c5: "workflow_consistent (db w5)"
    by (rule wf_update_steps [OF one]) (use c0 g1 in simp_all)
  have ids: "distinct (map s_id (steps (db w)))"
    by (rule shape_ids [OF wf_consistentD(2) [OF c0]])
  have only: "s_workflow x = w_id g" if "x \<in> set (steps (db w))" "s_id x = i" for x
  proof -
    have "x = s" using that ids find_row_Some [OF assms(3)] by (auto simp: distinct_map inj_on_def)
    then show ?thesis using gid by simp
  qed
  let ?f = "\<lambda>x. if s_id x \<in> set [i] \<and> s_workflow x = w_id g
      then step_columns StepComplete ?now x\<lparr>s_updated := now\<rparr> else x"
  have f: "s_id (?f x) = s_id x" "s_workflow (?f x) = s_workflow x"
    "s_state (?f x) = (if s_id x = i then StepComplete else s_state x)" if "x \<in> set (steps (db w))" for x
    using only [OF that] by (simp_all split: if_splits)
  have row: "find_row w_id (w_id g) (workflows (db w5)) = Some g" using assms(5) same gid by simp
  note settled = settle_running_ok [OF two assms(6) c5 row assms(6)]
  have "(\<forall>x \<in> set (steps_of (w_id g) (db w5)). s_state x = StepComplete) \<longleftrightarrow>
      (\<forall>x \<in> set (steps (db w)). s_workflow (?f x) = w_id g \<longrightarrow> s_state (?f x) = StepComplete)"
    by (simp only: steps_of_def new set_map set_filter ball_simps mem_Collect_eq) blast
  also have "\<dots> \<longleftrightarrow> ?over"
    by (intro ball_cong refl) (simp only: f, auto)
  finally have b: "b \<longleftrightarrow> ?over" using settled by simp
  obtain g' where "find_row w_id (w_id g) (workflows (db w3)) = Some g'" "w_state g' = (if b then WfComplete else WfRunning)"
    using settled by blast
  then have g': "find_row w_id (w_id g) (workflows (db wt)) = Some g'"
    "w_state g' = (if ?over then WfComplete else WfRunning)"
    by (simp_all only: wt b)
  have "w' = (if b then wt else snd (poke c (\<lambda>v. prepare_wf_process v ws_name (w_id g) ?now) wt))"
    using post assms(7) unfolding res by (cases b) (auto simp: step_aftermath_def request_cancels_def monad_results)
  then have "w' = (if ?over then wt else snd (poke c (\<lambda>v. prepare_wf_process v ws_name (w_id g) ?now) wt))"
    by (simp only: b)
  moreover have "steps (db wt) = map ?f (steps (db w))" using settled new wt by simp
  ultimately show ?thesis
    unfolding Let_def using g' f
    by (intro exI [of _ wt] exI [of _ g'] conjI exI [of _ ?f] ballI) assumption+
qed

section \<open>Feedback of the wrong attempt\<close>

lemma mark_step_ok:
  assumes "update_workflow_step_state wid [i] new t w = (Inr x, w')" "find_row s_id i (steps (db w)) = Some s"
    "s_workflow s = wid"
  shows "(\<exists>s'. find_row s_id i (steps (db w')) = Some s' \<and> s_state s' = new) \<and> moves step_transitions (s_state s) new \<and>
    tasks (db w') = tasks (db w) \<and> workflows (db w') = workflows (db w)"
proof -
  obtain now where all: "\<forall>r \<in> set (steps (db w)). s_id r \<in> set [i] \<and> s_workflow r = wid \<longrightarrow> moves step_transitions (s_state r) new"
    and new: "steps (db w') = steps (set_step_states wid [i] new t now (db w))" and same: "only_steps (db w) (db w')"
    using update_workflow_step_state_ok [OF assms(1)] by blast
  have "find_row s_id i (update_rows p (\<lambda>r. step_columns new t r\<lparr>s_updated := now\<rparr>) rs) =
      map_option (\<lambda>r. if p r then step_columns new t r\<lparr>s_updated := now\<rparr> else r) (find_row s_id i rs)" for p rs
    by (rule keyed_update.find_update) (simp add: keyed_update_def)
  then show ?thesis
    using assms(2,3) all find_row_Some [OF assms(2)] same by (auto simp: new set_step_states_def only_steps_def)
qed

lemma aftermath_db: "step_aftermath c nxt cs t w = (r, w') \<Longrightarrow>
    steps (db w') = steps (db w) \<and> tasks (db w') = tasks (db w)"
proof -
  assume run: "step_aftermath c nxt cs t w = (r, w')"
  have "evolves quiet.W (step_aftermath c nxt cs t)"
    unfolding step_aftermath_def poke_def request_cancels_def cancel_task_def
    by (cases nxt) (auto intro!: quiet.ev_log)
  from quietD [OF this run] show ?thesis by simp
qed

abbreviation linked_steps :: "ident \<Rightarrow> tables \<Rightarrow> step_row list" where
  "linked_steps t d \<equiv> concat (map (\<lambda>l. if l_task l = t then filter (\<lambda>s. s_id s = l_step l) (steps d) else []) (links d))"

lemma first_sorted:
  fixes k :: "'a \<Rightarrow> 'k::linorder"
  assumes "xs \<noteq> []"
  shows "\<exists>x. (case sort_key k xs of [] \<Rightarrow> None | x # _ \<Rightarrow> Some x) = Some x \<and> x \<in> set xs"
proof (cases "sort_key k xs")
  case Nil
  have "length (sort_key k xs) = length xs" by (rule length_sort)
  then show ?thesis using assms Nil by simp
next
  case (Cons x ys)
  have "set (sort_key k xs) = set xs" by (rule set_sort)
  then show ?thesis using Cons by auto
qed

lemma lookup_error:
  assumes "in_txn (wrap PersistenceError (fetch_one q)) w = (Inl e, w')" "q (db w) = Some s"
  shows "\<not> err_as NotFoundError e"
proof -
  have fetch: "wrap PersistenceError (fetch_one q) v = (Inl e, v') \<Longrightarrow> db v = db w \<Longrightarrow> \<not> err_as NotFoundError e" for v v'
    using assms(2)
    by (auto simp: wrap_result_Inl fetch_one_def select_first_def not_found_or_error_def sql_def Let_def
        split: if_splits)
  have sql: "sql (\<lambda>d. (Inr (), d)) v = (Inl e, v') \<Longrightarrow> \<not> err_as NotFoundError e" for v v'
    by (auto simp: sql_def Let_def split: if_splits)
  have opened: "sql (\<lambda>d. (Inr (), d)) w = (Inr (), v) \<Longrightarrow> db (record_action TxnBegin v) = db w" for v
    by (auto simp: sql_def Let_def record_action_def split: if_splits)
  show ?thesis
    using assms(1) unfolding in_txn_def
    by (auto split: prod.splits sum.splits dest: sql fetch opened)
qed

lemma step_of_task:
  assumes "in_txn (wrap PersistenceError (get_workflow_step_processed_by_task t)) w = (x, w')" "linked_steps t (db w) \<noteq> []"
  shows "db w' = db w \<and> (case x of Inr s \<Rightarrow> s \<in> set (linked_steps t (db w)) | Inl e \<Rightarrow> \<not> err_as NotFoundError e)"
proof -
  let ?q = "\<lambda>d. case sort_key s_id (linked_steps t d) of [] \<Rightarrow> None | s # _ \<Rightarrow> Some s"
  have some: "\<exists>s. ?q (db w) = Some s \<and> s \<in> set (linked_steps t (db w))"
    by (rule first_sorted [OF assms(2)])
  show ?thesis
  proof (cases x)
    case (Inl e)
    then have "db w' = db w" using assms(1) by (simp add: in_txn_error)
    moreover obtain s where "?q (db w) = Some s" using some by blast
    then have "\<not> err_as NotFoundError e"
      using lookup_error [of ?q w e w'] assms(1) unfolding Inl get_workflow_step_processed_by_task_def by blast
    ultimately show ?thesis using Inl by simp
  next
    case (Inr s)
    from in_txn_ok [OF assms(1) [unfolded Inr]] obtain w1 w2 where w1: "db w1 = db w" "db w' = db w2"
      and "fetch_one ?q w1 = (Inr s, w2)"
      unfolding wrap_result_Inr get_workflow_step_processed_by_task_def by blast
    from fetch_one_ok [OF this(3)] have "?q (db w) = Some s" "db w' = db w" unfolding w1 by blast+
    then show ?thesis using some Inr by simp
  qed
qed

lemma settle_keeps_steps:
  assumes "settle_workflow_if_done g now w = (Inr b, w')" "w_state g = WfRunning"
  shows "steps (db w') = steps (db w) \<and> tasks (db w') = tasks (db w)"
proof -
  obtain rows w1 where list: "list_workflow_steps (w_id g) w = (Inr rows, w1)"
    and body: "(if \<exists>s \<in> set rows. s_state s \<noteq> StepComplete then ret False
      else bnd (wrap PersistenceError (mark_workflow_complete (w_id g) now)) (\<lambda>_. ret True)) w1 = (Inr b, w')"
    using assms(1) unfolding settle_running [OF assms(2)] bnd_result_Inr wrap_result_Inr by blast
  show ?thesis
    using body list_workflow_steps_ok [OF list]
    by (auto simp: bnd_result_Inr wrap_result_Inr mark_workflow_complete_def only_workflows_def split: if_splits
        dest!: update_workflow_state_ok)
qed

text \<open>C39. Feedback is resolved from the task to its step and applied to whatever the step is doing now. Once the
  step has been revived, feedback of an attempt before the revival, late or repeated, ends the new one:
  a failure fails the step although its task is still running, and the cancellation of the old task
  cancels the step for good before it is started again.\<close>

theorem late_feedback_ends_new_attempt:
  assumes "l \<in> set (links (db w))" "\<forall>k \<in> set (links (db w)). l_task k = l_task l \<longrightarrow> l_step k = l_step l"
    and "find_row s_id (l_step l) (steps (db w)) = Some s" "find_row w_id (s_workflow s) (workflows (db w)) = Some g"
    and "w_state g = WfRunning" "new \<in> {StepFailed, StepCancelled}" "\<not> is_terminal_step_state (s_state s)"
    and "apply_step_task_update c (l_task l) new w = (Inr u, w')"
  shows "\<exists>s'. find_row s_id (l_step l) (steps (db w')) = Some s' \<and> s_state s' = new \<and> tasks (db w') = tasks (db w)"
proof -
  obtain x w1 where look: "in_txn (wrap PersistenceError (get_workflow_step_processed_by_task (l_task l))) w = (x, w1)"
    by (rule prod.exhaust)
  have s: "s \<in> set (steps (db w))" "s_id s = l_step l" using find_row_Some [OF assms(3)] by auto
  then have "s \<in> set (linked_steps (l_task l) (db w))" using assms(1) by auto
  then have "linked_steps (l_task l) (db w) \<noteq> []" by (metis length_pos_if_in_set less_numeral_extra(3) list.size(3))
  from step_of_task [OF look this] obtain x' where w1: "db w1 = db w" and x: "x = Inr x'" "s_id x' = l_step l"
    using assms(2,8) look by (cases x) (auto simp: apply_step_task_update_def split: if_splits)
  have "apply_step_execution_update c (l_step l) new w1 = (Inr u, w')"
    using assms(8) look x by (simp add: apply_step_task_update_def)
  from step_update_ok [OF this, of s g] obtain now w4 nxt cs w3 wt where w4: "db w4 = db w"
    and out: "apply_outcome g (l_step l) new now w4 = (Inr (nxt, cs), w3)"
    and wt: "db wt = db w3" and post: "step_aftermath c nxt cs now wt = (Inr u, w')"
    using assms(3,4,5,7) w1 by auto
  have gid: "s_workflow s = w_id g" using find_row_Some [OF assms(4)] by simp
  obtain w5 where mark: "update_workflow_step_state (w_id g) [l_step l] new now w4 = (Inr (), w5)"
    and rest: "steps (db w3) = steps (db w5) \<and> tasks (db w3) = tasks (db w5)"
  proof (cases "new = StepFailed")
    case True
    then obtain w5 where "update_workflow_step_state (w_id g) [l_step l] new now w4 = (Inr (), w5)"
      and "update_workflow_state (w_id g) WfFailed now w5 = (Inr (), w3)"
      using out assms(5)
      by (auto simp: apply_outcome_def bnd_result_Inr wrap_result_Inr do_if_def mark_workflow_step_failed_def
          mark_workflow_failed_def)
    then show ?thesis using that update_workflow_state_ok [of "w_id g" WfFailed now w5 "()" w3] by (auto simp: only_workflows_def)
  next
    case False
    then obtain w5 b where "update_workflow_step_state (w_id g) [l_step l] new now w4 = (Inr (), w5)"
      and two: "settle_workflow_if_done g now w5 = (Inr b, w3)"
      using out assms(6) by (auto simp: apply_outcome_def bnd_result_Inr wrap_result_Inr mark_workflow_step_cancelled_def)
    then show ?thesis using that settle_keeps_steps [OF two assms(5)] by blast
  qed
  have "find_row s_id (l_step l) (steps (db w4)) = Some s" using assms(3) w4 by simp
  from mark_step_ok [OF mark this gid] show ?thesis
    using rest w4 wt aftermath_db [OF post] by auto
qed

section \<open>The cancellation of a running step's task\<close>

text \<open>C37. A task of a running step that is cancelled on its own, by its client, while its workflow is
  not, is reported as CANCELLED, both by the notification and by the sweep. The state machine has no
  such transition for a running step, so in every world the update fails and leaves the tables as they
  were: the step stays RUNNING until the deadline.\<close>

theorem cancelled_task_wedges_step:
  assumes "find_row s_id i (steps (db w)) = Some s" "s_state s = StepRunning"
    and "find_row w_id (s_workflow s) (workflows (db w)) = Some g" "w_state g \<notin> {WfCancelling, WfCancelled}"
  shows "\<exists>err w'. apply_step_execution_update c i StepCancelled w = (Inl err, w') \<and> db w' = db w"
proof -
  let ?w = "w\<lparr>ticks := Suc (ticks w)\<rparr>" and ?now = "clock w (ticks w)"
  obtain r wt where txn: "wrap WorkflowSchedulerError (in_txn (step_transaction i StepCancelled ?now)) ?w = (r, wt)"
    by (rule prod.exhaust)
  have live: "\<not> is_terminal_step_state (s_state s)" using assms(2) by (simp add: is_terminal_step_state_def)
  have "\<exists>err. r = Inl err"
  proof (cases r)
    case (Inr x)
    obtain nxt cs where x: "x = (nxt, cs)" by (cases x)
    have "\<exists>w4 w3. db w4 = db ?w \<and> apply_outcome g i StepCancelled ?now w4 = (Inr (nxt, cs), w3) \<and> db wt = db w3"
      by (rule step_transaction_ok [OF txn [unfolded Inr x] _ live]) (use assms in simp_all)
    then obtain w4 w3 w5 where w4: "db w4 = db w"
      and "update_workflow_step_state (w_id g) [i] StepCancelled ?now w4 = (Inr (), w5)"
      by (auto simp: apply_outcome_def bnd_result_Inr wrap_result_Inr mark_workflow_step_cancelled_def)
    from mark_step_ok [OF this(2), of s] have "moves step_transitions StepRunning StepCancelled"
      using assms(1-3) find_row_Some [OF assms(3)] w4 by simp
    then show ?thesis by (simp add: moves_def succs_def)
  qed simp
  then obtain err where r: "r = Inl err" by blast
  then have "apply_step_execution_update c i StepCancelled w = (Inl err, wt)"
    using txn by (simp add: apply_step_parts is_terminal_step_state_def bnd_def)
  then show ?thesis using handler_error [OF txn [unfolded r]] by auto
qed

end
