(* ===== verification/Duplicates.thy ===== *)
theory Duplicates
  imports System
begin

text \<open>
  Messages that arrive twice: what a handler did once is not done again, however much the whole system
  (both schedulers, workers, clients, the maintenance interface but for its deletions) runs in between.
\<close>

section \<open>What every run keeps\<close>

definition tasks_progress :: "tables \<Rightarrow> tables \<Rightarrow> bool" where
  "tasks_progress d d' \<longleftrightarrow>
     rows_evolve t_id task_adv task_row_valid (tasks d) (tasks d') \<and>
     rows_evolve e_id exec_adv new_exec_ok (execs d) (execs d')"

interpretation progress: task_evolution tasks_progress
proof unfold_locales
  fix a b c :: tables
  show "tasks_progress a a"
    by (simp add: tasks_progress_def task_rows.rows_refl exec_rows.rows_refl)
  show "tasks_progress a b \<Longrightarrow> tasks_progress b c \<Longrightarrow> tasks_progress a c"
    unfolding tasks_progress_def by (auto intro: task_rows.rows_trans exec_rows.rows_trans)
qed (simp add: tasks_progress_def)

interpretation progress: workflow_evolution tasks_progress
  by unfold_locales (simp add: tasks_progress_def task_rows.rows_refl exec_rows.rows_refl)

lemma progress_define_workflow: "evolves progress.W (define_workflow c p False)"
proof -
  have "evolves progress.W (in_txn (wrap PersistenceError (define_new_workflow (dw_spec p) creator)))" for creator
    by (intro progress.ok_in_txn evolves_okI)
      (auto simp: wrap_result_Inr progress.W_def tasks_progress_def task_rows.rows_refl exec_rows.rows_refl
        dest!: define_new_workflow_ok)
  then show ?thesis
    unfolding define_workflow_def active_session_def
    by (simp split: sum.split add: progress.ev_throw progress.ev_wrap progress.ev_if)
qed

interpretation progress: live_evolution tasks_progress
  by unfold_locales (intro progress.ev_update_task_deadline progress_define_workflow
      progress.ev_in_txn progress.ev_update_workflow_deadline)+

lemma run_tasks:
  assumes "live_step\<^sup>*\<^sup>* w w'" "find_row t_id i (tasks (db w)) = Some t"
  shows "\<exists>t'. find_row t_id i (tasks (db w')) = Some t' \<and> task_adv t t'"
  using progress.live_run_keeps [OF assms(1)] assms(2)
  by (auto simp: progress.W_def tasks_progress_def dest: task_rows.rows_advance)

lemma run_execs:
  assumes "live_step\<^sup>*\<^sup>* w w'" "find_row e_id i (execs (db w)) = Some e"
  shows "\<exists>e'. find_row e_id i (execs (db w')) = Some e' \<and> exec_adv e e'"
  using progress.live_run_keeps [OF assms(1)] assms(2)
  by (auto simp: progress.W_def tasks_progress_def dest: exec_rows.rows_advance)

section \<open>Duplicates have no effect\<close>

text \<open>C29. A new task is scheduled at most once: once a NEW_TASK message has been handled successfully, a
  duplicate of it writes nothing and sends nothing, whatever the system did in between, short of a
  deletion, and however long that took.\<close>

theorem new_task_scheduled_once:
  assumes "process_new_pending_task c i w = (Inr (), w1)" "live_step\<^sup>*\<^sup>* w1 w2"
  shows "no_effect w2 (snd (process_new_pending_task c' i w2))"
proof -
  obtain t where "find_row t_id i (tasks (db w1)) = Some t" "t_state t \<noteq> TaskPending"
    using new_pending_done [OF assms(1)] by blast
  then obtain t' where "find_row t_id i (tasks (db w2)) = Some t'" "t_state t' \<noteq> TaskPending"
    using run_tasks [OF assms(2)] by (metis task_adv_def pending_never_again)
  then show ?thesis by (rule new_pending_noop)
qed

text \<open>C30. The end of an execution instance is processed once: after any of the handlers of its
  completion, failure or engine failure has succeeded, each of them writes nothing and sends nothing
  for this instance, so its retry is decided once, whatever the system did in between, short of a
  deletion.\<close>

theorem execution_end_processed_once:
  assumes "finalizing c h" "h i w = (Inr (), w1)" "live_step\<^sup>*\<^sup>* w1 w2" "finalizing c' h'"
  shows "no_effect w2 (snd (h' i w2))"
proof -
  obtain e where "find_row e_id i (execs (db w1)) = Some e" "e_state e = ExecFinalized"
    using finalizing_done [OF assms(1,2)] by blast
  then obtain e' where "find_row e_id i (execs (db w2)) = Some e'" "e_state e' = ExecFinalized"
    using run_execs [OF assms(3)] by (fastforce simp: exec_adv_def dest!: finalized_stays)
  then show ?thesis by (rule finalized_noop [OF assms(4)])
qed

end
