(* ===== verification/Example_Run.thy ===== *)
theory Example_Run
  imports Step_Results Duplicates
begin

text \<open>
  A run of the whole engine over a workflow of two steps, \<open>b\<close> after \<open>a\<close>: client, workflow scheduler,
  task scheduler, worker and step runner in turn. It shows that the hypotheses of the system's
  properties can hold together.
\<close>

section \<open>The run\<close>

definition sample_wf_client :: wf_client where
  "sample_wf_client = \<lparr>wc_queue = ''workflows'', wc_name = ''me'', wc_creator = ''me'', wc_known = (\<lambda>_. True)\<rparr>"

definition sample_spec :: "(string \<times> new_step) list \<Rightarrow> define_workflow_params" where
  "sample_spec ss = \<lparr>dw_spec = (sample_workflow ss)\<lparr>nw_deadline := 9000\<rparr>, dw_creator = None\<rparr>"

definition sample_handlers :: step_handlers where
  "sample_handlers = (\<lambda>_. Some (\<lambda>_ _. ret ()))"

definition sample_receiver :: receiver where
  "sample_receiver = \<lparr>rc_name = ''worker'', rc_scheduler_queue = ''tasks'',
     rc_processors = (\<lambda>n. if n = wf_task_name then Some (process_step_task sample_handlers) else None)\<rparr>"

definition sample_request :: "ident \<Rightarrow> received" where
  "sample_request i = Payload (string_payload (prepare_execution_requested ''u'' ''me'' i 7))"

definition claimed :: "ident \<Rightarrow> world \<Rightarrow> receiver_state" where
  "claimed i w = snd (process_one_ipc_request sample_receiver ''work'' (sample_request i)
     \<lparr>rv_world = w, rv_msgs = (\<lambda>_. None)\<rparr>)"

definition executed :: "ident \<Rightarrow> receiver_state \<Rightarrow> world" where
  "executed i s = rv_world (snd (execute_instance sample_receiver ''work'' i s))"

text \<open>From the dispatch of a step to the claim of its instance, and from there to the end of the step.\<close>

definition step_claimed :: "ident \<Rightarrow> world \<Rightarrow> world" where
  "step_claimed i w =
     (let w1 = snd (schedule_workflow_step sample_workflow_sched i w);
          w2 = snd (process_new_pending_task sample_sched (t_id (last (tasks (db w1)))) w1)
      in rv_world (claimed (e_id (last (execs (db w2)))) w2))"

definition step_done :: "world \<Rightarrow> world" where
  "step_done w =
     (let e = last (execs (db w));
          w1 = executed (e_id e) \<lparr>rv_world = w, rv_msgs = (\<lambda>_. None)\<rparr>;
          w2 = snd (process_task_execution_complete (e_id e) w1)
      in snd (apply_step_task_update sample_workflow_sched (e_task e) StepComplete w2))"

definition started_workflow :: "(string \<times> new_step) list \<Rightarrow> world" where
  "started_workflow ss = snd (process_workflow sample_workflow_sched ''a''
     (snd (define_and_run_workflow sample_wf_client (sample_spec ss) False (sample_world no_tables []))))"

text \<open>The first step is with a worker; the second may start; a workflow of one step is over.\<close>

definition run_1 :: world where
  "run_1 = step_claimed ''aaa'' (started_workflow [sample_step ''b'' [''a''], sample_step ''a'' []])"

definition run_2 :: world where "run_2 = snd (process_workflow sample_workflow_sched ''a'' (step_done run_1))"

definition run_3 :: world where
  "run_3 = step_done (step_claimed ''aa'' (started_workflow [sample_step ''a'' []]))"

lemma sample_receiver_reads: "reads_only sample_receiver"
proof -
  have "evolves unchanged.W (load_step i)" for i
    unfolding load_step_def get_workflow_step_def get_workflow_def
    by (intro unchanged.ev_store)
  then have "evolves unchanged.W (process_step_task sample_handlers t e)" for t e
    unfolding process_step_task_def sample_handlers_def
    by (intro unchanged.ev_case_sum unchanged.ev_throw unchanged.ev_bnd)
      (auto split: prod.split intro: unchanged.ev_wrap unchanged.ev_ret)
  then show ?thesis
    by (simp add: reads_only_def sample_receiver_def evolves_def unchanged.W_def)
qed

lemma reachable_claimed: "reachable w \<Longrightarrow> reachable (step_claimed i w)"
  unfolding step_claimed_def Let_def claimed_def
  by (rule reachable_live [OF _ worker_request [of "\<lparr>rv_world = w, rv_msgs = m\<rparr>" for w m, unfolded receiver_state.simps]])
    (intro reachable_live [OF _ task_new] reachable_live [OF _ wf_schedule])

lemma reachable_done: "reachable w \<Longrightarrow> reachable (step_done w)"
  unfolding step_done_def Let_def executed_def
  by (intro reachable_live [OF _ wf_task_update] reachable_live [OF _ task_complete]
      reachable_live [OF _ worker_execute [OF sample_receiver_reads, of "\<lparr>rv_world = w, rv_msgs = m\<rparr>" for w m,
        unfolded receiver_state.simps]])

lemma reachable_started:
  "distinct (map fst ss) \<Longrightarrow> \<forall>(_, x) \<in> set ss. distinct (ns_parents x) \<Longrightarrow> reachable (started_workflow ss)"
  unfolding started_workflow_def
  by (intro reachable_live [OF _ wf_process] reachable_live [OF _ client_workflow] reachable.empty_start)
    (simp_all add: sample_world_def maps_ok_def sample_spec_def sample_workflow_def)

lemma reachable_run: "reachable run_1" "reachable run_2" "reachable run_3"
proof -
  show 1: "reachable run_1"
    unfolding run_1_def by (intro reachable_claimed reachable_started) (simp_all add: sample_step_def)
  then show "reachable run_2"
    unfolding run_2_def by (intro reachable_live [OF _ wf_process] reachable_done)
  show "reachable run_3"
    unfolding run_3_def by (intro reachable_done reachable_claimed reachable_started) (simp_all add: sample_step_def)
qed

lemma run_1_tables:
  "map (\<lambda>e. (e_state e, e_task e)) (execs (db run_1)) = [(ExecAcquired, t_id (hd (tasks (db run_1))))] \<and>
   map (\<lambda>l. (l_step l, l_task l)) (links (db run_1)) = [(''aaa'', t_id (hd (tasks (db run_1))))] \<and>
   map t_state (tasks (db run_1)) = [TaskActive]"
  by code_simp

lemma run_2_tables: "map (\<lambda>s. (s_name s, s_state s, s_parents s)) (steps (db run_2)) =
    [(''b'', StepPending, [''a'']), (''a'', StepComplete, [])]"
  by code_simp

lemma run_3_tables: "map (\<lambda>g. (w_id g, w_state g)) (workflows (db run_3)) = [(''a'', WfComplete)] \<and>
    map s_workflow (steps (db run_3)) = [''a'']"
  by code_simp

lemma single: "map f xs = [a] \<Longrightarrow> hd xs \<in> set xs \<and> last xs \<in> set xs \<and> f (hd xs) = a \<and> f (last xs) = a"
  by (cases xs) auto

text \<open>The claimed instance of the first run fails.\<close>

definition run_4 :: world where
  "run_4 = (let i = e_id (hd (execs (db run_1))) in
     snd (postprocess_execution i (Inl (leaf TaskExecutionError)) (snd (preprocess_execution i run_1))))"

lemma reachable_run_4: "reachable run_4"
  unfolding run_4_def Let_def
  by (intro reachable_live [OF _ worker_postprocess] reachable_live [OF _ worker_preprocess] reachable_run)

lemma run_4_tables:
  "map (\<lambda>e. (e_task e, e_terminal e)) (execs (db run_4)) = [(t_id (hd (tasks (db run_4))), Some ExecFailed)] \<and>
   map (\<lambda>t. max_retries (t_retry t)) (tasks (db run_4)) = [2]"
  by code_simp

text \<open>The first run cancelled while its step is with the worker, and the same database past the deadline.\<close>

definition run_5 :: "(goerr + unit) \<times> world" where
  "run_5 = cancel_workflow sample_workflow_sched ''a'' run_1"

definition run_6 :: world where "run_6 = (snd run_5)\<lparr>clock := (\<lambda>_. 10000)\<rparr>"

definition run_7 :: "(goerr + unit) \<times> world" where
  "run_7 = process_workflow sample_workflow_sched ''a'' (step_done run_1)"

definition workflow_state_of :: "ident \<Rightarrow> world \<Rightarrow> workflow_state option" where
  "workflow_state_of i w = map_option w_state (find_row w_id i (workflows (db w)))"

lemma run_5_tables: "\<not> isl (fst run_5) \<and> workflow_state_of ''a'' run_1 = Some WfRunning \<and>
    workflow_state_of ''a'' (snd run_5) = Some WfCancelling \<and>
    map w_deadline (workflows (db (snd run_5))) = [9000] \<and>
    map (\<lambda>s. (s_workflow s, s_state s)) (steps (db run_1)) = [(''a'', StepDefined), (''a'', StepRunning)]"
  by code_simp

lemma run_7_tables: "\<not> isl (fst run_7) \<and> workflow_state_of ''a'' (step_done run_1) = Some WfRunning \<and>
    map (\<lambda>s. (s_workflow s, ready_to_run (db (step_done run_1)) s)) (steps (db (step_done run_1))) =
      [(''a'', True), (''a'', False)]"
  by code_simp

lemma succeeded: "\<not> isl (fst p) \<Longrightarrow> \<exists>u. p = (Inr u, snd p)"
  by (cases p; cases "fst p") auto

text \<open>The stations of the first run: its step is dispatched, its task activated, its instance ended.\<close>

definition dispatched :: world where
  "dispatched = snd (schedule_workflow_step sample_workflow_sched ''aaa''
     (started_workflow [sample_step ''b'' [''a''], sample_step ''a'' []]))"

definition first_task :: ident where "first_task = t_id (last (tasks (db dispatched)))"

definition activated :: "(goerr + unit) \<times> world" where
  "activated = process_new_pending_task sample_sched first_task dispatched"

definition first_exec :: ident where "first_exec = e_id (last (execs (db run_1)))"

definition ended :: "(goerr + unit) \<times> world" where
  "ended = process_task_execution_complete first_exec
     (executed first_exec \<lparr>rv_world = run_1, rv_msgs = (\<lambda>_. None)\<rparr>)"

lemma run_from_activated: "live_step\<^sup>*\<^sup>* (snd activated) run_1"
proof -
  have "run_1 = rv_world (claimed (e_id (last (execs (db (snd activated))))) (snd activated))"
    by (simp add: run_1_def step_claimed_def activated_def dispatched_def first_task_def Let_def)
  then have "live_step (snd activated) run_1"
    unfolding claimed_def
    using worker_request [of "\<lparr>rv_world = snd activated, rv_msgs = (\<lambda>_. None)\<rparr>"] by (metis receiver_state.select_convs(1))
  then show ?thesis ..
qed

lemma run_from_ended: "live_step\<^sup>*\<^sup>* (snd ended) run_2"
proof -
  let ?w = "step_done run_1"
  have "?w = snd (apply_step_task_update sample_workflow_sched (e_task (last (execs (db run_1)))) StepComplete (snd ended))"
    by (simp add: step_done_def ended_def first_exec_def Let_def)
  then have "live_step (snd ended) ?w" by (simp add: wf_task_update)
  moreover have "live_step ?w run_2" unfolding run_2_def by (rule wf_process)
  ultimately show ?thesis by (blast intro: converse_rtranclp_into_rtranclp)
qed

lemma run_to_ended: "live_step\<^sup>*\<^sup>* run_1 (snd ended)"
proof -
  let ?s = "\<lparr>rv_world = run_1, rv_msgs = (\<lambda>_. None)\<rparr>"
  have "live_step run_1 (executed first_exec ?s)"
    unfolding executed_def using worker_execute [OF sample_receiver_reads, of ?s] by simp
  moreover have "live_step (executed first_exec ?s) (snd ended)" unfolding ended_def by (rule task_complete)
  ultimately show ?thesis by (blast intro: converse_rtranclp_into_rtranclp)
qed

definition states_of :: "world \<Rightarrow> task_state list \<times> step_state list" where
  "states_of w = (map t_state (tasks (db w)), map s_state (steps (db w)))"

lemma stations: "\<not> isl (fst activated)" "states_of (snd activated) = ([TaskActive], [StepDefined, StepRunning])"
  "\<not> isl (fst ended)" "states_of (snd ended) = ([TaskComplete], [StepDefined, StepRunning])"
  "states_of run_2 = ([TaskComplete], [StepPending, StepComplete])"
  by code_simp+

section \<open>Witnesses\<close>

theorem new_task_scheduled_once_witness:
  "states_of (snd activated) = ([TaskActive], [StepDefined, StepRunning]) \<and>
   states_of run_2 = ([TaskComplete], [StepPending, StepComplete]) \<and>
   no_effect run_2 (snd (process_new_pending_task sample_sched first_task run_2))"
proof -
  have "live_step\<^sup>*\<^sup>* (snd activated) run_2"
    by (rule rtranclp_trans [OF run_from_activated rtranclp_trans [OF run_to_ended run_from_ended]])
  moreover have "process_new_pending_task sample_sched first_task dispatched = (Inr (), snd activated)"
    using succeeded [OF stations(1)] by (simp add: activated_def)
  ultimately show ?thesis using new_task_scheduled_once stations by blast
qed

theorem execution_end_processed_once_witness:
  "states_of (snd ended) = ([TaskComplete], [StepDefined, StepRunning]) \<and>
   states_of run_2 = ([TaskComplete], [StepPending, StepComplete]) \<and>
   no_effect run_2 (snd (process_task_execution_failed sample_sched first_exec 5 run_2))"
proof -
  let ?h = "\<lambda>i. process_task_execution_failed sample_sched i 5"
  have fin: "finalizing sample_sched process_task_execution_complete" "finalizing sample_sched ?h"
    unfolding finalizing_def by blast+
  have run: "process_task_execution_complete first_exec
      (executed first_exec \<lparr>rv_world = run_1, rv_msgs = (\<lambda>_. None)\<rparr>) = (Inr (), snd ended)"
    using succeeded [OF stations(3)] by (simp add: ended_def)
  have "no_effect run_2 (snd (?h first_exec run_2))"
    by (rule execution_end_processed_once [OF fin(1) run run_from_ended fin(2)])
  then show ?thesis using stations by simp
qed

theorem failed_attempts_bounded_witness:
  "length (execs (db run_4)) = 1 \<and> int (length (execs (db run_4))) \<le> max_retries (t_retry (hd (tasks (db run_4)))) + 1"
proof -
  obtain e where e: "execs (db run_4) = [e]" "e_task e = t_id (hd (tasks (db run_4)))" "e_terminal e = Some ExecFailed"
    using run_4_tables by (cases "execs (db run_4)") auto
  then show ?thesis
    using failed_attempts_bounded [OF reachable_run_4, of "hd (tasks (db run_4))"]
      single [OF conjunct2 [OF run_4_tables]]
    by simp
qed

theorem task_rows_well_typed_witness: "exec_outcome_ok ExecFailed (e_terminal (hd (execs (db run_4))))"
  using task_rows_well_typed [OF reachable_run_4] single [OF conjunct1 [OF run_4_tables]]
  by (cases "e_state (hd (execs (db run_4)))") auto

theorem one_open_instance_witness:
  "last (execs (db run_1)) = hd (execs (db run_1)) \<and> e_state (hd (execs (db run_1))) = ExecAcquired"
  using one_open_instance [OF reachable_run(1), of "last (execs (db run_1))" "hd (execs (db run_1))"]
    single [OF conjunct1 [OF run_1_tables]]
  by simp

theorem ended_task_has_no_live_instance_witness:
  "\<exists>t \<in> set (tasks (db run_1)). t_id t = e_task (hd (execs (db run_1))) \<and> t_state t \<noteq> TaskPending"
  using ended_task_has_no_live_instance [OF reachable_run(1), of "hd (execs (db run_1))"]
    single [OF conjunct1 [OF run_1_tables]]
  by blast

theorem started_step_has_complete_parents_witness:
  "\<exists>p \<in> set (steps (db run_2)). s_name p = ''a'' \<and> s_state p = StepComplete"
proof -
  obtain s r where "steps (db run_2) = s # r" "s_state s = StepPending" "s_parents s = [''a'']"
    using run_2_tables by (cases "steps (db run_2)") auto
  then show ?thesis
    using started_step_has_complete_parents [OF reachable_run(2), of s "''a''"] by auto
qed

theorem settled_workflow_has_settled_steps_witness:
  "s_state (hd (steps (db run_3))) = StepComplete"
  using settled_workflow_has_settled_steps [OF reachable_run(3), of "hd (workflows (db run_3))" "hd (steps (db run_3))"]
    single [OF conjunct1 [OF run_3_tables]] single [OF conjunct2 [OF run_3_tables]]
  by simp

theorem one_live_task_per_step_witness:
  "last (tasks (db run_1)) = hd (tasks (db run_1)) \<and> t_state (hd (tasks (db run_1))) = TaskActive"
proof -
  obtain t where "tasks (db run_1) = [t]" "t_state t = TaskActive"
    using run_1_tables by (cases "tasks (db run_1)") auto
  then show ?thesis
    using one_live_task_per_step [OF reachable_run(1), of "hd (links (db run_1))" "last (links (db run_1))"
        "last (tasks (db run_1))" "hd (tasks (db run_1))"]
      single [OF conjunct1 [OF conjunct2 [OF run_1_tables]]]
    by simp
qed

abbreviation defined_workflow :: "(string \<times> new_step) list \<Rightarrow> (goerr + workflow_row) \<times> world" where
  "defined_workflow ss \<equiv> define_workflow sample_wf_client (sample_spec ss) False (sample_world no_tables [])"

theorem define_workflow_writes_witness:
  "map s_name (steps (db (snd (defined_workflow [sample_step ''b'' [''a''], sample_step ''a'' []])))) = [''b'', ''a''] \<and>
   spec_is_dag [sample_step ''b'' [''a''], sample_step ''a'' []]"
proof -
  let ?ss = "[sample_step ''b'' [''a''], sample_step ''a'' []]"
  have "\<not> isl (fst (defined_workflow ?ss))" by code_simp
  then obtain row where run: "defined_workflow ?ss = (Inr row, snd (defined_workflow ?ss))"
    by (metis prod.collapse isl_def sum.exhaust)
  show ?thesis
    using define_workflow_writes [OF run]
    by (simp add: maps_ok_def sample_spec_def sample_workflow_def sample_step_def sample_world_def no_tables_def)
qed

theorem define_workflow_refuses_witness:
  "\<exists>e. defined_workflow [sample_step ''a'' [''a'']] = (Inl e, sample_world no_tables [])"
proof -
  have "\<not> spec_is_dag [sample_step ''a'' [''a'']]"
    by (simp add: spec_is_dag_def steps_wf_def sample_step_def)
  then show ?thesis
    using define_workflow_refuses [of "sample_spec [sample_step ''a'' [''a'']]" sample_wf_client False
        "sample_world no_tables []"]
    by (simp add: maps_ok_def sample_spec_def sample_workflow_def) (simp add: sample_step_def)
qed

theorem requests_need_workflow_witness:
  "\<exists>e. fst (request_cancellation sample_wf_client ''a'' False (sample_world no_tables [])) = Inl e"
  using requests_need_workflow [of sample_wf_client "''a''" False "sample_world no_tables []"
      "fst (request_cancellation sample_wf_client ''a'' False (sample_world no_tables []))"
      "snd (request_cancellation sample_wf_client ''a'' False (sample_world no_tables []))"]
  by (simp add: sample_world_def no_tables_def)

theorem step_runner_classifies_witness:
  "err_as NonRecoverableError (wrapped NonRecoverableError (wrapped ValidationError (leaf ValidatorError)))"
  using step_runner_classifies [of sample_handlers "sample_task TaskActive" "sample_exec ''e'' ExecProcessing None"
      "sample_world no_tables []" "wrapped NonRecoverableError (wrapped ValidationError (leaf ValidatorError))"
      "sample_world no_tables []"]
  by (simp add: process_step_task_def sample_task_def)

theorem cancel_workflow_achieves_witness:
  "map s_state (steps (db (snd run_5))) = [StepCancelled, StepCancelling] \<and>
   workflow_state_of ''a'' (snd run_5) = Some WfCancelling"
proof -
  obtain u where run: "cancel_workflow sample_workflow_sched ''a'' run_1 = (Inr u, snd run_5)"
    using succeeded [OF conjunct1 [OF run_5_tables]] by (auto simp: run_5_def)
  obtain g where "find_row w_id ''a'' (workflows (db run_1)) = Some g" "w_state g = WfRunning"
    using run_5_tables by (auto simp: workflow_state_of_def)
  then show ?thesis
    using cancel_workflow_achieves [OF reachable_run(1) run, of g] run_5_tables
    by (auto simp: workflow_state_of_def map_eq_Cons_conv)
qed

theorem process_workflow_starts_ready_witness:
  "\<exists>s \<in> set (steps (db (snd run_7))). s_state s = StepPending"
proof -
  obtain u where run: "process_workflow sample_workflow_sched ''a'' (step_done run_1) = (Inr u, snd run_7)"
    using succeeded [OF conjunct1 [OF run_7_tables]] by (auto simp: run_7_def)
  obtain g where g: "find_row w_id ''a'' (workflows (db (step_done run_1))) = Some g" "w_state g = WfRunning"
    using run_7_tables by (auto simp: workflow_state_of_def)
  obtain s ss where "steps (db (step_done run_1)) = s # ss" "s_workflow s = ''a''" "ready_to_run (db (step_done run_1)) s"
    using run_7_tables by (auto simp: map_eq_Cons_conv)
  then show ?thesis
    using process_workflow_starts_ready [OF reachable_done [OF reachable_run(1)] run g(1)] g(2)
    by (auto simp: hard_stop_def)
qed

theorem overdue_workflow_never_reconciled_witness:
  "\<exists>err w'. reconcile_workflow sample_workflow_sched ''a'' run_6 = (Inl err, w') \<and> db w' = db run_6"
proof -
  obtain g where g: "find_row w_id ''a'' (workflows (db run_6)) = Some g" "w_state g = WfCancelling"
    using run_5_tables by (auto simp: workflow_state_of_def run_6_def)
  moreover have "w_deadline g = 9000"
    using find_row_Some [OF g(1)] run_5_tables by (auto simp: run_6_def map_eq_Cons_conv)
  ultimately show ?thesis
    using overdue_workflow_never_reconciled [of "''a''" run_6 g sample_workflow_sched] by (simp add: run_6_def)
qed

definition run_8 :: "(goerr + unit) \<times> world" where
  "run_8 = apply_step_execution_update sample_workflow_sched ''aaa'' StepComplete run_1"

lemma run_8_tables: "\<not> isl (fst run_8) \<and>
    map (\<lambda>s. (s_id s, s_workflow s, s_state s)) (steps (db run_1)) =
      [(''aa'', ''a'', StepDefined), (''aaa'', ''a'', StepRunning)]"
  by code_simp

theorem step_completion_advances_witness:
  "\<exists>wt. workflow_state_of ''a'' wt = Some WfRunning \<and>
    snd run_8 = snd (poke sample_workflow_sched (\<lambda>v. prepare_wf_process v ws_name ''a'' (clock run_1 (ticks run_1))) wt)"
proof -
  obtain u where run: "apply_step_execution_update sample_workflow_sched ''aaa'' StepComplete run_1 = (Inr u, snd run_8)"
    using succeeded [OF conjunct1 [OF run_8_tables]] by (auto simp: run_8_def)
  obtain s r where steps: "steps (db run_1) = [r, s]" "s_id r = ''aa''" "s_workflow r = ''a''" "s_state r = StepDefined"
      "s_id s = ''aaa''" "s_workflow s = ''a''" "s_state s = StepRunning"
    using run_8_tables by (auto simp: map_eq_Cons_conv)
  then have s: "find_row s_id ''aaa'' (steps (db run_1)) = Some s" "\<not> is_terminal_step_state (s_state s)"
    by (simp_all add: is_terminal_step_state_def)
  obtain g where g: "find_row w_id (s_workflow s) (workflows (db run_1)) = Some g" "w_state g = WfRunning"
    using run_5_tables steps(6) by (auto simp: workflow_state_of_def)
  then have "w_id g = ''a''" using find_row_Some [OF g(1)] steps(6) by simp
  then show ?thesis
    using step_completion_advances [OF reachable_run(1) run s g] steps by (auto simp: workflow_state_of_def)
qed

text \<open>
  The step of the first run times out with its workflow, its task is cancelled, and the workflow revived
  under a new deadline; the notification of the cancellation is still to come.
\<close>

definition run_9 :: world where
  "run_9 = snd (revive_workflow sample_workflow_sched ''a'' (Some 100000)
     (snd (process_cancel_task (t_id (hd (tasks (db run_1)))) 2000
       (snd (apply_step_execution_update sample_workflow_sched ''aaa'' StepTimedOut run_1)))))"

lemma reachable_run_9: "reachable run_9"
  unfolding run_9_def
  by (intro reachable_live [OF _ wf_revive] reachable_live [OF _ task_cancel] reachable_live [OF _ wf_exec_update] reachable_run)

definition run_10 :: "(goerr + unit) \<times> world" where
  "run_10 = apply_step_task_update sample_workflow_sched (l_task (hd (links (db run_9)))) StepCancelled run_9"

definition outline ::
  "world \<Rightarrow> task_state list \<times> (ident \<times> bool) list \<times> (ident \<times> ident \<times> step_state) list \<times> workflow_state option"
where
  "outline w = (map t_state (tasks (db w)), map (\<lambda>l. (l_step l, l_task l \<in> t_id ` set (tasks (db w)))) (links (db w)),
     map (\<lambda>s. (s_id s, s_workflow s, s_state s)) (steps (db w)), workflow_state_of ''a'' w)"

lemma run_9_tables: "outline run_9 = ([TaskCancelled], [(''aaa'', True)],
    [(''aa'', ''a'', StepDefined), (''aaa'', ''a'', StepDefined)], Some WfRunning)"
  by code_simp

lemma run_10_succeeds: "\<not> isl (fst run_10)"
  by code_simp

theorem late_feedback_ends_new_attempt_witness:
  "\<exists>s. find_row s_id ''aaa'' (steps (db run_9)) = Some s \<and> s_state s = StepDefined \<and>
    (\<exists>s'. find_row s_id ''aaa'' (steps (db (snd run_10))) = Some s' \<and> s_state s' = StepCancelled)"
proof -
  obtain u where run: "apply_step_task_update sample_workflow_sched (l_task (hd (links (db run_9)))) StepCancelled run_9 =
      (Inr u, snd run_10)"
    using succeeded [OF run_10_succeeds] by (auto simp: run_10_def)
  obtain l where l: "links (db run_9) = [l]" "l_step l = ''aaa''"
    using run_9_tables by (auto simp: outline_def map_eq_Cons_conv)
  obtain s r where steps: "steps (db run_9) = [r, s]" "s_id r = ''aa''"
      "s_id s = ''aaa''" "s_workflow s = ''a''" "s_state s = StepDefined"
    using run_9_tables by (auto simp: outline_def map_eq_Cons_conv)
  then have s: "find_row s_id (l_step l) (steps (db run_9)) = Some s" "\<not> is_terminal_step_state (s_state s)"
    using l(2) by (simp_all add: is_terminal_step_state_def)
  obtain g where g: "find_row w_id (s_workflow s) (workflows (db run_9)) = Some g" "w_state g = WfRunning"
    using run_9_tables steps(4) by (auto simp: outline_def workflow_state_of_def)
  have late: "apply_step_task_update sample_workflow_sched (l_task l) StepCancelled run_9 = (Inr u, snd run_10)"
    using run l(1) by simp
  have "\<exists>s'. find_row s_id (l_step l) (steps (db (snd run_10))) = Some s' \<and> s_state s' = StepCancelled \<and>
      tasks (db (snd run_10)) = tasks (db run_9)"
    by (rule late_feedback_ends_new_attempt [OF _ _ s(1) g _ s(2) late]) (simp_all add: l(1))
  then show ?thesis using s(1) steps(5) l(2) by auto
qed

theorem cancelled_task_wedges_step_witness:
  "\<exists>err w'. apply_step_execution_update sample_workflow_sched ''aaa'' StepCancelled run_1 = (Inl err, w') \<and> db w' = db run_1"
proof -
  obtain s r where steps: "steps (db run_1) = [r, s]" "s_id r = ''aa''"
      "s_id s = ''aaa''" "s_workflow s = ''a''" "s_state s = StepRunning"
    using run_8_tables by (auto simp: map_eq_Cons_conv)
  then have s: "find_row s_id ''aaa'' (steps (db run_1)) = Some s" by simp
  obtain g where g: "find_row w_id (s_workflow s) (workflows (db run_1)) = Some g" "w_state g = WfRunning"
    using run_5_tables steps(4) by (auto simp: workflow_state_of_def)
  show ?thesis
    using cancelled_task_wedges_step [OF s steps(5) g(1)] g(2) by simp
qed

end
