(* ===== verification/Worker_Results.thy ===== *)
theory Worker_Results
  imports Task_Worker Workflow_Evolution
begin

text \<open>
  What a worker achieves: an instance is claimed at most once, whatever the schedulers and other
  workers do in between, and the execution of a claimed instance is recorded before it is reported.
\<close>

section \<open>Claims\<close>

lemma never_enqueued_again:
  "moves_star exec_transitions s ExecEnqueued \<Longrightarrow> s \<in> {ExecDefined, ExecScheduled, ExecEnqueued}"
proof (induction rule: converse_rtranclp_induct)
  case (step y z)
  then show ?case by (cases y) (auto simp: moves_def succs_def)
qed simp

lemma claim_ok:
  assumes "claim_instance c i w = (Inr u, w')"
  shows "\<exists>e. find_row e_id i (execs (db w)) = Some e \<and> e_state e = ExecEnqueued \<and>
    (\<exists>e'. find_row e_id i (execs (db w')) = Some e' \<and> e_state e' = ExecAcquired \<and> e_worker e' = Some (rc_name c))"
proof -
  obtain w1 w2 where same: "db w1 = db w" "db w' = db w2"
    and upd: "update_task_execution_state i ExecAcquired (no_update\<lparr>eu_worker := Some (rc_name c)\<rparr>) w1 = (Inr u, w2)"
    using assms by (auto simp: claim_instance_def mark_task_exec_acquired_def wrap_result_Inr dest!: in_txn_ok)
  from update_task_execution_state_ok [OF upd] obtain e now where
    e: "find_row e_id i (execs (db w)) = Some e" "moves exec_transitions (e_state e) ExecAcquired"
    and d: "db w2 = set_exec_state i ExecAcquired (no_update\<lparr>eu_worker := Some (rc_name c)\<rparr>) now (db w)"
    using same by auto
  then show ?thesis
    using same by (cases "e_state e") (auto simp: moves_def succs_def find_set_exec_state)
qed

text \<open>C17. An execution instance is claimed at most once: after a worker has claimed it, whatever the
  schedulers and the workers do, no other claim of it succeeds, and none changes the tables.\<close>

theorem claim_exclusive:
  assumes "claim_instance c i w = (Inr u, w1)" "lifecycle (db w1) (db w2)"
  shows "\<exists>err w3. claim_instance c' i w2 = (Inl err, w3) \<and> db w3 = db w2"
proof -
  obtain e where e: "find_row e_id i (execs (db w1)) = Some e" "e_state e = ExecAcquired"
    using claim_ok [OF assms(1)] by blast
  then obtain e' where e': "find_row e_id i (execs (db w2)) = Some e'" "exec_adv e e'"
    using exec_rows.rows_advance assms(2) unfolding lifecycle_def by blast
  have "e_state e' \<noteq> ExecEnqueued"
    using never_enqueued_again [of "e_state e"] e(2) e'(2) by (auto simp: exec_adv_def)
  moreover obtain r w3 where run: "claim_instance c' i w2 = (r, w3)" by (rule prod.exhaust)
  ultimately have "\<exists>err. r = Inl err" using claim_ok [of c' i w2] e'(1) by (cases r) auto
  then show ?thesis
    using run by (auto simp: claim_instance_def in_txn_def sql_def record_action_def Let_def
        split: prod.splits sum.splits if_splits)
qed

section \<open>Execution\<close>

text \<open>No fault is added and tasks and events stay; what a worker does around a processor is of this kind.\<close>

definition steady :: "world \<Rightarrow> world \<Rightarrow> bool" where
  "steady w w' \<longleftrightarrow> sql_faults w' = sql_faults w \<and> send_faults w' = send_faults w \<and>
     tasks (db w') = tasks (db w) \<and> events (db w') = events (db w) \<and>
     ulid_of w' = ulid_of w \<and> ulids w \<le> ulids w'"

lemma steady_trans: "steady a b \<Longrightarrow> steady b c \<Longrightarrow> steady a c"
  by (simp add: steady_def)

lemma steady_faults: "steady w w' \<Longrightarrow> sql_faults w = [] \<Longrightarrow> send_faults w = [] \<Longrightarrow>
    sql_faults w' = [] \<and> send_faults w' = []"
  by (simp add: steady_def)

text \<open>A processor that leaves the engine alone.\<close>

definition quiet_processor :: "(task_row \<Rightarrow> exec_row \<Rightarrow> (world, unit) m) \<Rightarrow> bool" where
  "quiet_processor p \<longleftrightarrow> (\<forall>t e w. steady w (snd (p t e w)) \<and> db (snd (p t e w)) = db w)"

text \<open>The report that fits an outcome.\<close>

fun fitting_report :: "ident \<Rightarrow> goerr + unit \<Rightarrow> ipc_msg \<Rightarrow> bool" where
  "fitting_report i (Inr _) (ExecuteInstance b j d) \<longleftrightarrow> j = i \<and> bm_type b = ExecuteSucceeded \<and> d = None"
| "fitting_report i (Inl err) (ExecuteInstance b j d) \<longleftrightarrow> j = i \<and>
     (if err_as TaskExecutorError err then bm_type b = EngineFailed \<and> d = None
      else bm_type b = ExecuteFailed \<and> d = failure_disposition err)"
| "fitting_report i _ _ \<longleftrightarrow> False"

lemma send_new_run [simp]:
  "send_faults w = [] \<Longrightarrow> send_new q f w =
     (Inr (), record_action (Sent q (f (ulid_of w (ulids w)))) (w\<lparr>ulids := Suc (ulids w)\<rparr>))"
  by (simp add: send_new_def bnd_def)

lemma queue_call_run: "send_faults w = [] \<Longrightarrow> queue_call a w = (Inr (), record_action a w)"
  by (cases w) (simp add: queue_call_def Let_def)

lemma preprocess_run:
  assumes "sql_faults w = []" "find_row e_id i (execs (db w)) = Some e" "e_state e = ExecAcquired"
    "exec_row_valid e" "find_row t_id (e_task e) (tasks (db w)) = Some t" "task_row_valid t"
  shows "\<exists>w' now. preprocess_execution i w = (Inr (e, t), w') \<and> steady w w' \<and>
    db w' = set_exec_state i ExecProcessing no_update now (db w)"
proof -
  let ?w0 = "record_action TxnBegin w"
  have mv: "moves exec_transitions (e_state e) ExecProcessing" using assms(3) by (simp add: moves_def succs_def)
  have upd: "mark_task_exec_processing i ?w0 = (Inr (), ?w0\<lparr>ticks := Suc (ticks w),
      db := set_exec_state i ExecProcessing no_update (clock w (ticks w)) (db w)\<rparr>)"
    using update_task_execution_state_run [of ?w0 i e ExecProcessing no_update] assms(1,2) mv
    by (simp add: mark_task_exec_processing_def record_action_def)
  have "preprocess_execution i w = (Inr (e, t), record_action TxnCommit (?w0\<lparr>ticks := Suc (ticks w),
      db := set_exec_state i ExecProcessing no_update (clock w (ticks w)) (db w)\<rparr>))"
    unfolding preprocess_execution_def
    by (rule in_txn_run)
      (use assms upd mv in \<open>simp_all add: bnd_def get_task_execution_def exec_machine.valid_cases\<close>)
  then show ?thesis by (auto simp: steady_def set_exec_state_def)
qed

lemma postprocess_run:
  assumes "sql_faults w = []" "find_row e_id i (execs (db w)) = Some e" "e_state e = ExecProcessing"
  shows "\<exists>w' e' hs. postprocess_execution i x w = (Inr (), w') \<and> steady w w' \<and> history w' = hs @ [TxnCommit] \<and>
    find_row e_id i (execs (db w')) = Some e' \<and> e_task e' = e_task e \<and>
    (case x of
       Inr _ \<Rightarrow> e_state e' = ExecProcessed
     | Inl err \<Rightarrow> e_state e' = ExecFailed \<and> e_error e' = Some (err_text w err) \<and>
         e_disposition e' = failure_disposition err)"
proof -
  let ?t = "clock w (ticks w)" and ?w0 = "record_action TxnBegin (w\<lparr>ticks := Suc (ticks w)\<rparr>)"
  let ?s = "case x of Inr _ \<Rightarrow> ExecProcessed | Inl _ \<Rightarrow> ExecFailed"
  let ?u = "case x of Inr _ \<Rightarrow> no_update\<lparr>eu_at := Some ?t\<rparr> | Inl err \<Rightarrow>
      no_update\<lparr>eu_error := Some (err_text w err), eu_disposition := failure_disposition err, eu_at := Some ?t\<rparr>"
  let ?w1 = "?w0\<lparr>ticks := Suc (Suc (ticks w)), db := set_exec_state i ?s ?u (clock w (Suc (ticks w))) (db w)\<rparr>"
  have "moves exec_transitions (e_state e) ?s" using assms(3) by (simp add: moves_def succs_def split: sum.split)
  then have upd: "update_task_execution_state i ?s ?u ?w0 = (Inr (), ?w1)"
    using update_task_execution_state_run [of ?w0 i e ?s ?u] assms(1,2)
    by (simp add: record_action_def split: sum.split)
  have "postprocess_execution i x w = (Inr (), record_action TxnCommit ?w1)"
    unfolding postprocess_execution_def
    by (simp add: bnd_def gets_def, rule in_txn_run)
      (use assms(1) upd in \<open>auto simp: mark_task_exec_failed_def mark_task_exec_processed_def split: sum.splits\<close>)
  moreover have "find_row e_id i (execs (db ?w1)) = Some (exec_columns ?s ?u e\<lparr>e_updated := clock w (Suc (ticks w))\<rparr>)"
    using assms(2) by (simp add: find_set_exec_state)
  ultimately show ?thesis
    by (auto simp: record_action_def steady_def set_exec_state_def split: sum.splits)
qed

lemma report_run:
  assumes "send_faults w = []"
  shows "\<exists>m w'. report_outcome c i (case x of Inl err \<Rightarrow> Some err | Inr u \<Rightarrow> None) now w = (Inr (), w') \<and>
    fitting_report i x m \<and> steady w w' \<and> db w' = db w \<and> send_faults w' = [] \<and>
    history w' = history w @ [Sent (rc_scheduler_queue c) m]"
  using assms
  by (cases x) (auto simp: report_outcome_def report_processing_completed_def report_processing_failed_def
      report_engine_failed_def steady_def prepare_process_succeeded_def prepare_process_failed_def
      prepare_engine_failed_def record_action_def)

lemma complete_run:
  assumes "send_faults (rv_world s) = []"
  shows "\<exists>m s'. on_task_complete c q i (case x of Inl err \<Rightarrow> Some err | Inr u \<Rightarrow> None) now s = (Inr (), s') \<and>
    fitting_report i x m \<and> steady (rv_world s) (rv_world s') \<and> db (rv_world s') = db (rv_world s) \<and> rv_msgs s' = (rv_msgs s)(i := None) \<and>
    history (rv_world s') = history (rv_world s) @ [Sent (rc_scheduler_queue c) m, DeletedMsg q (rv_msgs s i)]"
proof -
  from report_run [OF assms, of c i x now] obtain m w' where
    rep: "report_outcome c i (case x of Inl err \<Rightarrow> Some err | Inr u \<Rightarrow> None) now (rv_world s) = (Inr (), w')"
    and w': "fitting_report i x m" "steady (rv_world s) w'" "db w' = db (rv_world s)" "send_faults w' = []"
      "history w' = history (rv_world s) @ [Sent (rc_scheduler_queue c) m]"
    by blast
  show ?thesis
    using rep w' queue_call_run [OF w'(4), of "DeletedMsg q (rv_msgs s i)"]
    by (simp add: on_task_complete_def drop_original_def bnd_def on_world_def gets_def modify_def record_action_def
        steady_def)
qed

lemma execution_run:
  assumes "sql_faults w = []" "send_faults w = []"
    and "find_row e_id i (execs (db w)) = Some e" "e_state e = ExecAcquired" "exec_row_valid e"
    and "find_row t_id (e_task e) (tasks (db w)) = Some t" "task_row_valid t"
    and "rc_processors c (t_name t) = Some p" "quiet_processor p"
  shows "\<exists>w0 x s' e' m hs. x = fst (wrap TaskExecutionError (p t e) w0) \<and>
    execute_instance c q i \<lparr>rv_world = w, rv_msgs = ms\<rparr> = (x, s') \<and>
    find_row e_id i (execs (db (rv_world s'))) = Some e' \<and>
    (case x of
       Inr _ \<Rightarrow> e_state e' = ExecProcessed
     | Inl err \<Rightarrow> e_state e' = ExecFailed \<and> e_disposition e' = failure_disposition err) \<and>
    fitting_report i x m \<and> steady w (rv_world s') \<and> e_task e' = e_task e \<and> rv_msgs s' = ms(i := None) \<and>
    history (rv_world s') = hs @ [TxnCommit, Sent (rc_scheduler_queue c) m, DeletedMsg q (ms i)]"
proof -
  let ?s = "\<lparr>rv_world = w, rv_msgs = ms\<rparr>"
  from preprocess_run [OF assms(1,3-7)] obtain w1 now where
    pre: "preprocess_execution i w = (Inr (e, t), w1)" "steady w w1"
      "db w1 = set_exec_state i ExecProcessing no_update now (db w)"
    by auto
  obtain x w2 where run: "run_processor c e t w1 = (x, w2)" by (rule prod.exhaust)
  have x: "x = fst (wrap TaskExecutionError (p t e) w1)" "w2 = snd (p t e w1)"
    using run assms(8) by (simp_all add: run_processor_def wrap_def split: prod.splits sum.splits)
  then have w2: "db w2 = db w1" "steady w w2"
    using assms(9) steady_trans [OF pre(2)] by (simp_all add: quiet_processor_def)
  have f2: "sql_faults w2 = []" "send_faults w2 = []"
    using steady_faults [OF w2(2) assms(1,2)] by simp_all
  have "find_row e_id i (execs (db w2)) = Some (exec_columns ExecProcessing no_update e\<lparr>e_updated := now\<rparr>)"
    using assms(3) w2(1) pre(3) by (simp add: find_set_exec_state)
  from postprocess_run [OF f2(1) this, of x] obtain w3 e' hs where
    post: "postprocess_execution i x w2 = (Inr (), w3)" "steady w w3" "send_faults w3 = []" "history w3 = hs @ [TxnCommit]"
    and e': "find_row e_id i (execs (db w3)) = Some e'" "e_task e' = e_task e"
      "case x of Inr _ \<Rightarrow> e_state e' = ExecProcessed
       | Inl err \<Rightarrow> e_state e' = ExecFailed \<and> e_error e' = Some (err_text w2 err) \<and>
           e_disposition e' = failure_disposition err"
    using f2(2) steady_trans [OF w2(2)] steady_faults [OF steady_trans [OF w2(2)] assms(1,2)] by auto
  let ?w3 = "w3\<lparr>ticks := Suc (ticks w3)\<rparr>"
  let ?s3 = "\<lparr>rv_world = ?w3, rv_msgs = ms\<rparr>"
  from complete_run [of ?s3 c q i x "clock w3 (ticks w3)"] post(3) obtain m s' where
    fin: "on_task_complete c q i (case x of Inl err \<Rightarrow> Some err | Inr u \<Rightarrow> None) (clock w3 (ticks w3)) ?s3 = (Inr (), s')"
    and s': "fitting_report i x m" "steady ?w3 (rv_world s')" "db (rv_world s') = db w3" "rv_msgs s' = ms(i := None)"
      "history (rv_world s') = hs @ [TxnCommit, Sent (rc_scheduler_queue c) m, DeletedMsg q (ms i)]"
    using post(4) by auto
  have st: "steady w (rv_world s')"
    using post(2) s'(2) by (auto simp: steady_def)
  have "execute_instance c q i ?s = (x, s')"
    using pre(1) run post(1) fin
    by (simp add: execute_instance_def process_execution_instance_def on_world_def bnd_def)
  then show ?thesis
    using x(1) e' s' st by (intro exI [of _ w1] exI [of _ x] exI [of _ s'] exI [of _ e'] exI [of _ m] exI [of _ hs])
      (auto split: sum.splits)
qed

text \<open>C18. When nothing fails, the execution of a claimed instance runs the processor of its task once and
  records the outcome, with the disposition of the failure; only after that transaction has committed
  does it report the outcome that was recorded to the scheduler, and only then does the request leave
  the buffer.\<close>

theorem execution_recorded_then_reported:
  assumes "sql_faults w = []" "send_faults w = []"
    and "find_row e_id i (execs (db w)) = Some e" "e_state e = ExecAcquired" "exec_row_valid e"
    and "find_row t_id (e_task e) (tasks (db w)) = Some t" "task_row_valid t"
    and "rc_processors c (t_name t) = Some p" "quiet_processor p"
  shows "\<exists>w0 x s' e' m hs. x = fst (wrap TaskExecutionError (p t e) w0) \<and>
    execute_instance c q i \<lparr>rv_world = w, rv_msgs = ms\<rparr> = (x, s') \<and>
    find_row e_id i (execs (db (rv_world s'))) = Some e' \<and>
    (case x of
       Inr _ \<Rightarrow> e_state e' = ExecProcessed
     | Inl err \<Rightarrow> e_state e' = ExecFailed \<and> e_disposition e' = failure_disposition err) \<and>
    fitting_report i x m \<and> rv_msgs s' = ms(i := None) \<and>
    history (rv_world s') = hs @ [TxnCommit, Sent (rc_scheduler_queue c) m, DeletedMsg q (ms i)]"
  using execution_run [OF assms, of q ms] by blast

end
