(* ===== verification/Task_Liveness.thy ===== *)
theory Task_Liveness
  imports Worker_Results
begin

text \<open>
  The whole path of a one-shot task: when nothing fails, the scheduler, a worker and the scheduler
  again take a pending task to its completion.
\<close>

section \<open>Fresh identifiers\<close>

text \<open>What \<open>ulid.Make\<close> will return is new and pairwise distinct.\<close>

definition fresh_ids :: "world \<Rightarrow> bool" where
  "fresh_ids w \<longleftrightarrow> inj_on (ulid_of w) {ulids w..} \<and>
     (\<forall>n \<ge> ulids w. ulid_of w n \<noteq> [] \<and> ulid_of w n \<notin> v_id ` set (events (db w)) \<union> e_id ` set (execs (db w)))"

lemma fresh_event_ready: "fresh_ids w \<Longrightarrow> i \<noteq> [] \<Longrightarrow> event_ready w i"
  by (simp add: fresh_ids_def event_ready_def)

section \<open>The steps\<close>

lemma claim_run:
  assumes "sql_faults w = []" "find_row e_id i (execs (db w)) = Some e" "e_state e = ExecEnqueued"
  shows "\<exists>w' e'. claim_instance c i w = (Inr (), w') \<and> steady w w' \<and>
    find_row e_id i (execs (db w')) = Some e' \<and> e_state e' = ExecAcquired \<and> e_task e' = e_task e"
proof -
  let ?w0 = "record_action TxnBegin w" and ?u = "no_update\<lparr>eu_worker := Some (rc_name c)\<rparr>"
  let ?w1 = "?w0\<lparr>ticks := Suc (ticks w), db := set_exec_state i ExecAcquired ?u (clock w (ticks w)) (db w)\<rparr>"
  have "update_task_execution_state i ExecAcquired ?u ?w0 = (Inr (), ?w1)"
    using update_task_execution_state_run [of ?w0 i e ExecAcquired ?u] assms
    by (simp add: record_action_def moves_def succs_def)
  then have "claim_instance c i w = (Inr (), record_action TxnCommit ?w1)"
    unfolding claim_instance_def mark_task_exec_acquired_def by (intro in_txn_run wrap_Inr) (use assms(1) in simp_all)
  moreover have "find_row e_id i (execs (db ?w1)) = Some (exec_columns ExecAcquired ?u e\<lparr>e_updated := clock w (ticks w)\<rparr>)"
    using assms(2) by (simp add: find_set_exec_state)
  moreover have "steady w (record_action TxnCommit ?w1)"
    by (simp add: steady_def set_exec_state_def)
  ultimately show ?thesis by simp
qed

lemma start_run:
  assumes "sql_faults w = []" "send_faults w = []" "t_class t = ImmediateOneShot" "t_id t \<in> t_id ` set (tasks (db w))"
    and "ts_task_queue c (t_name t) = Some q" "t_id t \<noteq> []" "ulid_of w (ulids w) \<noteq> []"
    and "ulid_of w (ulids w) \<notin> e_id ` set (execs (db w))"
  shows "\<exists>w' e m. start_first_instance c t w = (Inr (), w') \<and> steady w w' \<and>
    history w' = history w @ [Sent q m] \<and> request_instance m = Inr (ulid_of w (ulids w)) \<and>
    find_row e_id (ulid_of w (ulids w)) (execs (db w')) = Some e \<and> e_state e = ExecEnqueued \<and> e_task e = t_id t"
proof -
  let ?i = "ulid_of w (ulids w)"
  let ?e = "new_exec_row t ExecImmediate ExecDefined None None ?i (clock w (ticks w))"
  let ?w1 = "w\<lparr>ulids := Suc (ulids w), ticks := Suc (ticks w), db := (db w)\<lparr>execs := execs (db w) @ [?e]\<rparr>\<rparr>"
  have def: "define_new_task_exec_instance t w = (Inr ?e, ?w1)"
    using assms
    by (simp add: define_new_task_exec_instance_def define_exec_def insert_exec_def bnd_def exec_row_valid_def
        new_exec_row_def ret_def Let_def wrap_def)
  have row: "find_row e_id ?i (execs (db ?w1)) = Some ?e"
    using assms(8) by (auto simp: find_row_append new_exec_row_def image_iff split: option.split dest!: find_row_Some)
  let ?w2 = "?w1\<lparr>ticks := Suc (ticks ?w1), db := set_exec_state ?i ExecEnqueued no_update (clock w (ticks ?w1)) (db ?w1)\<rparr>"
  have queued: "mark_task_exec_queued ?i ?w1 = (Inr (), ?w2)"
    unfolding mark_task_exec_queued_def
    by (subst update_task_execution_state_run [of ?w1 ?i ?e ExecEnqueued no_update])
      (use assms(1) row in \<open>simp_all add: moves_def succs_def new_exec_row_def\<close>)
  have "e_class ?e = ExecImmediate" "e_id ?e = ?i" by (simp_all add: new_exec_row_def)
  then have "start_first_instance c t w = request_execution c t ?i time_now ?w2"
    using def queued by (simp add: start_first_instance_def do_if_def)
  moreover have "find_row e_id ?i (execs (db ?w2)) = Some (exec_columns ExecEnqueued no_update ?e\<lparr>e_updated := clock w (ticks ?w1)\<rparr>)"
    using row by (simp add: find_set_exec_state)
  ultimately show ?thesis
    using assms(2,5)
    by (simp add: request_execution_def prepare_execution_requested_def record_action_def steady_def)
      (simp add: set_exec_state_def new_exec_row_def)
qed

lemma new_pending_run:
  assumes "sql_faults w = []" "send_faults w = []" "fresh_ids w"
    and "find_row t_id i (tasks (db w)) = Some t" "t_state t = TaskPending" "t_class t = ImmediateOneShot"
    and "task_row_valid t" "ts_task_queue c (t_name t) = Some q"
  shows "\<exists>w' j e m v. process_new_pending_task c i w = (Inr (), w') \<and> sql_faults w' = [] \<and> send_faults w' = [] \<and>
    Sent q m \<in> set (history w') \<and> request_instance m = Inr j \<and>
    find_row e_id j (execs (db w')) = Some e \<and> e_state e = ExecEnqueued \<and> e_task e = i \<and> j \<noteq> [] \<and>
    find_row t_id i (tasks (db w')) = Some (t\<lparr>t_state := TaskActive\<rparr>) \<and>
    events (db w') = events (db w) @ [v] \<and> v_id v = ulid_of w (ulids w) \<and>
    ulid_of w' = ulid_of w \<and> ulids w < ulids w'"
proof -
  let ?w0 = "record_action TxnBegin w"
  have i: "t_id t = i" "i \<noteq> []" "t_creator t \<noteq> []"
    using assms(4,7) by (auto simp: task_row_valid_def dest: task_found)
  define w1 where "w1 = snd (update_task_state i TaskActive ?w0)"
  have "event_ready ?w0 i" using fresh_event_ready [OF assms(3) i(2)] by (simp add: event_ready_def)
  then have act: "update_task_state i TaskActive ?w0 = (Inr (), w1)"
    and w1: "sql_faults w1 = []" "send_faults w1 = []" "ulid_of w1 = ulid_of w" "ulids w1 = Suc (ulids w)"
      "tasks (db w1) = tasks (set_task_state i TaskActive (db w))" "execs (db w1) = execs (db w)"
      "\<exists>v. events (db w1) = events (db w) @ [v] \<and> v_id v = ulid_of w (ulids w)"
    using update_task_state_run [of ?w0 i t TaskActive] assms(1,2,4,5) i(3)
    by (auto simp: w1_def moves_def succs_def new_event_def set_task_state_def)
  have t1: "find_row t_id i (tasks (db w1)) = Some (t\<lparr>t_state := TaskActive\<rparr>)"
    using assms(4) w1(5) by (simp add: task_state_set)
  then have mem: "t_id t \<in> t_id ` set (tasks (db w1))"
    using i(1) find_row_Some [OF t1] by (auto simp: image_iff intro: bexI [of _ "t\<lparr>t_state := TaskActive\<rparr>"])
  have new: "ulid_of w (Suc (ulids w)) \<noteq> []" "ulid_of w (Suc (ulids w)) \<notin> e_id ` set (execs (db w))"
    using assms(3) by (auto simp: fresh_ids_def)
  from start_run [OF w1(1,2) assms(6) mem assms(8)] obtain w2 e m where
    start: "start_first_instance c t w1 = (Inr (), w2)" "steady w1 w2" "history w2 = history w1 @ [Sent q m]"
      "request_instance m = Inr (ulid_of w (Suc (ulids w)))"
    and e: "find_row e_id (ulid_of w (Suc (ulids w))) (execs (db w2)) = Some e" "e_state e = ExecEnqueued" "e_task e = i"
    using w1 new i by auto
  have "process_new_pending_task c i w = (Inr (), record_action TxnCommit w2)"
    unfolding process_new_pending_task_def mark_task_active_def
    by (intro wrap_Inr in_txn_run)
      (use assms(1,4,5) act start(1,2) w1(1) i in \<open>simp_all add: steady_def\<close>)
  then show ?thesis
    using start e t1 w1 new(1)
    by (intro exI [of _ "record_action TxnCommit w2"] exI [of _ "ulid_of w (Suc (ulids w))"] exI [of _ e] exI [of _ m])
      (auto simp: steady_def record_action_def)
qed

text \<open>The report of a success leads the scheduler to the completion of the instance.\<close>

lemma success_dispatched:
  "fitting_report j (Inr u) m \<Longrightarrow> task_dispatch c m = Inr (process_task_execution_complete j)"
  by (cases m) auto

text \<open>C8. A pending one-shot task completes when nothing fails and its processor succeeds: the scheduler
  starts one instance and asks for it on the queue of the task, a worker can claim and execute that
  instance and last of all sends the report of its success to the scheduler's queue, and when the
  scheduler then runs the handler that this report is dispatched to, the instance is finalized and the
  task complete.\<close>

theorem one_shot_task_completes:
  assumes "sql_faults w = []" "send_faults w = []" "fresh_ids w"
    and "find_row t_id i (tasks (db w)) = Some t" "t_state t = TaskPending" "t_class t = ImmediateOneShot"
    and "task_row_valid t" "ts_task_queue c (t_name t) = Some q"
    and "rc_processors rc (t_name t) = Some p" "quiet_processor p"
    and "\<And>e w'. fst (p (t\<lparr>t_state := TaskActive\<rparr>) e w') = Inr ()"
  shows "\<exists>w1 j m w2 s3 hs rep h w4 e4.
    process_new_pending_task c i w = (Inr (), w1) \<and> Sent q m \<in> set (history w1) \<and> request_instance m = Inr j \<and>
    claim_instance rc j w1 = (Inr (), w2) \<and>
    execute_instance rc q j \<lparr>rv_world = w2, rv_msgs = ms\<rparr> = (Inr (), s3) \<and>
    history (rv_world s3) = hs @ [TxnCommit, Sent (rc_scheduler_queue rc) rep, DeletedMsg q (ms j)] \<and>
    fitting_report j (Inr ()) rep \<and> task_dispatch c rep = Inr h \<and> h (rv_world s3) = (Inr (), w4) \<and>
    find_row t_id i (tasks (db w4)) = Some (t\<lparr>t_state := TaskComplete\<rparr>) \<and>
    find_row e_id j (execs (db w4)) = Some e4 \<and> e_state e4 = ExecFinalized"
proof -
  let ?t = "t\<lparr>t_state := TaskActive\<rparr>"
  from new_pending_run [OF assms(1-8)] obtain w1 j e1 m v where
    one: "process_new_pending_task c i w = (Inr (), w1)" "sql_faults w1 = []" "send_faults w1 = []"
      "Sent q m \<in> set (history w1)" "request_instance m = Inr j"
    and e1: "find_row e_id j (execs (db w1)) = Some e1" "e_state e1 = ExecEnqueued" "e_task e1 = i" "j \<noteq> []"
    and t1: "find_row t_id i (tasks (db w1)) = Some ?t"
    and v: "events (db w1) = events (db w) @ [v]" "v_id v = ulid_of w (ulids w)"
      "ulid_of w1 = ulid_of w" "ulids w < ulids w1"
    by metis
  have valid: "i \<noteq> []" "t_creator t \<noteq> []" "task_row_valid ?t"
    using assms(4,7) by (auto simp: task_row_valid_def dest: task_found)
  from claim_run [OF one(2) e1(1,2), of rc] obtain w2 e2 where
    two: "claim_instance rc j w1 = (Inr (), w2)" "steady w1 w2"
    and e2: "find_row e_id j (execs (db w2)) = Some e2" "e_state e2 = ExecAcquired" "e_task e2 = i"
    using e1(3) by auto
  have f2: "sql_faults w2 = []" "send_faults w2 = []" and t2: "find_row t_id (e_task e2) (tasks (db w2)) = Some ?t"
    using two(2) one(2,3) t1 e2(3) by (simp_all add: steady_def)
  have row2: "exec_row_valid e2" "rc_processors rc (t_name ?t) = Some p"
    using e2 e1(4) valid(1) assms(9) by (auto simp: exec_row_valid_def dest: exec_found)
  from execution_run [OF f2 e2(1,2) row2(1) t2 valid(3) row2(2) assms(10), of q ms] obtain w0 x s3 e3 rep hs where
    x: "x = fst (wrap TaskExecutionError (p ?t e2) w0)"
    and three: "execute_instance rc q j \<lparr>rv_world = w2, rv_msgs = ms\<rparr> = (x, s3)" "steady w2 (rv_world s3)"
    and e3: "find_row e_id j (execs (db (rv_world s3))) = Some e3" "e_task e3 = e_task e2"
      "case x of Inr _ \<Rightarrow> e_state e3 = ExecProcessed
       | Inl err \<Rightarrow> e_state e3 = ExecFailed \<and> e_disposition e3 = failure_disposition err"
    and rep: "fitting_report j x rep"
      "history (rv_world s3) = hs @ [TxnCommit, Sent (rc_scheduler_queue rc) rep, DeletedMsg q (ms j)]"
    by blast
  have ok: "x = Inr ()" using x assms(11) [of e2 w0] by (simp add: wrap_def split: prod.splits sum.splits)
  let ?w3 = "rv_world s3"
  have st: "steady w1 ?w3" using steady_trans [OF two(2) three(2)] .
  have n: "ulids w < ulids ?w3" and ul: "ulid_of ?w3 = ulid_of w"
    using st v(3,4) by (simp_all add: steady_def)
  have "ulid_of w (ulids ?w3) \<noteq> ulid_of w (ulids w)"
  proof
    assume "ulid_of w (ulids ?w3) = ulid_of w (ulids w)"
    then have "ulids ?w3 = ulids w"
      using assms(3) n inj_onD [of "ulid_of w" "{ulids w..}" "ulids ?w3" "ulids w"] by (simp add: fresh_ids_def)
    then show False using n by simp
  qed
  moreover have "ulid_of w (ulids ?w3) \<noteq> []" "ulid_of w (ulids ?w3) \<notin> v_id ` set (events (db w))"
    using assms(3) n by (auto simp: fresh_ids_def)
  moreover have "events (db ?w3) = events (db w) @ [v]" using st v(1) by (simp add: steady_def)
  ultimately have ready: "event_ready ?w3 (e_task e3)"
    using valid(1) v(2) ul e3(2) e2(3) by (simp add: event_ready_def)
  have "find_row t_id (e_task e3) (tasks (db ?w3)) = Some ?t" "sql_faults ?w3 = []" "e_state e3 = ExecProcessed"
    using st t1 e3 e2(3) one(2) ok by (simp_all add: steady_def)
  from exec_complete_run [OF this(2) e3(1) this(3,1) _ _ ready] valid(2) obtain w4 e4 where
    "process_task_execution_complete j ?w3 = (Inr (), w4)" "find_row e_id j (execs (db w4)) = Some e4"
    "e_state e4 = ExecFinalized" "find_row t_id i (tasks (db w4)) = Some (t\<lparr>t_state := TaskComplete\<rparr>)"
    using e3(2) e2(3) by auto
  then show ?thesis
    using one(1,4,5) two(1) three(1) ok rep success_dispatched [of j "()" rep c] by blast
qed

section \<open>Witnesses\<close>

definition obliging_receiver :: "(goerr + unit) \<Rightarrow> receiver" where
  "obliging_receiver r = \<lparr>rc_name = ''worker'', rc_scheduler_queue = ''tasks'',
     rc_processors = (\<lambda>_. Some (\<lambda>_ _ w. (r, w)))\<rparr>"

lemma obliging_quiet: "quiet_processor (\<lambda>_ _ w. (r, w))"
  by (simp add: quiet_processor_def steady_def)

lemma sample_fresh: "events d = [] \<Longrightarrow> execs d = [] \<Longrightarrow> fresh_ids (sample_world d [])"
  by (auto simp: fresh_ids_def sample_world_def inj_on_def dest: arg_cong [of _ _ length])

lemma sample_task_valid: "task_row_valid (sample_task s)"
  by (simp add: sample_task_def task_row_valid_def default_retry_def valid_retry_def)

theorem one_shot_task_completes_witness:
  "\<exists>w1 j w2 s3 rep h w4.
     process_new_pending_task sample_sched ''t'' (sample_world (sample_tables TaskPending []) []) = (Inr (), w1) \<and>
     claim_instance (obliging_receiver (Inr ())) j w1 = (Inr (), w2) \<and>
     execute_instance (obliging_receiver (Inr ())) ''work'' j \<lparr>rv_world = w2, rv_msgs = (\<lambda>_. None)\<rparr> = (Inr (), s3) \<and>
     Sent ''tasks'' rep \<in> set (history (rv_world s3)) \<and> task_dispatch sample_sched rep = Inr h \<and>
     h (rv_world s3) = (Inr (), w4) \<and>
     find_row t_id ''t'' (tasks (db w4)) = Some (sample_task TaskPending\<lparr>t_state := TaskComplete\<rparr>)"
proof -
  let ?w = "sample_world (sample_tables TaskPending []) []"
  have faults: "sql_faults ?w = []" "send_faults ?w = []" by (simp_all add: sample_world_def)
  have fresh: "fresh_ids ?w" by (rule sample_fresh) (simp_all add: sample_tables_def no_tables_def)
  have row: "find_row t_id ''t'' (tasks (db ?w)) = Some (sample_task TaskPending)"
    "t_state (sample_task TaskPending) = TaskPending" "t_class (sample_task TaskPending) = ImmediateOneShot"
    by (simp_all add: samples)
  have config: "ts_task_queue sample_sched (t_name (sample_task TaskPending)) = Some ''work''"
    "rc_processors (obliging_receiver (Inr ())) (t_name (sample_task TaskPending)) = Some (\<lambda>_ _ w. (Inr (), w))"
    by (simp_all add: sample_sched_def obliging_receiver_def)
  have "Sent ''tasks'' rep \<in> set (history w')"
    if "history w' = hs @ [TxnCommit, Sent (rc_scheduler_queue (obliging_receiver (Inr ()))) rep, a]" for w' hs rep a
    using that by (simp add: obliging_receiver_def)
  with one_shot_task_completes [OF faults fresh row sample_task_valid config obliging_quiet fst_conv, of "\<lambda>_. None"]
  show ?thesis by blast
qed

theorem claim_exclusive_witness:
  "let w = sample_world (sample_tables TaskActive [sample_exec ''e'' ExecEnqueued None]) [];
       w1 = snd (claim_instance (obliging_receiver (Inr ())) ''e'' w)
   in db (snd (claim_instance (obliging_receiver (Inr ())) ''e'' w1)) = db w1"
proof -
  let ?w = "sample_world (sample_tables TaskActive [sample_exec ''e'' ExecEnqueued None]) []"
  have "fst (claim_instance (obliging_receiver (Inr ())) ''e'' ?w) = Inr ()" by code_simp
  from claim_exclusive [OF run_fst [OF this] life.D_refl, of "obliging_receiver (Inr ())"] show ?thesis
    by (auto simp: Let_def)
qed

theorem execution_recorded_then_reported_witness:
  "\<exists>s'. execute_instance (obliging_receiver (Inl (leaf NonRecoverableError))) ''work'' ''e''
      \<lparr>rv_world = sample_world (sample_tables TaskActive [sample_exec ''e'' ExecAcquired None]) [], rv_msgs = (\<lambda>_. None)\<rparr> =
      (Inl (wrapped TaskExecutionError (leaf NonRecoverableError)), s') \<and>
    (\<exists>e'. find_row e_id ''e'' (execs (db (rv_world s'))) = Some e' \<and> e_disposition e' = Some NonRetryable)"
  using execution_recorded_then_reported [of "sample_world (sample_tables TaskActive [sample_exec ''e'' ExecAcquired None]) []"
      "''e''" "sample_exec ''e'' ExecAcquired None" "sample_task TaskActive"
      "obliging_receiver (Inl (leaf NonRecoverableError))" "\<lambda>_ _ w. (Inl (leaf NonRecoverableError), w)" "''work''"
      "\<lambda>_. None"] obliging_quiet
  by (auto simp: samples obliging_receiver_def task_row_valid_def exec_row_valid_def default_retry_def valid_retry_def
      wrap_def failure_disposition_def)

end
