(* ===== verification/Message_Queue.thy ===== *)
theory Message_Queue
  imports Notify_Model
begin

text \<open>
  \<open>common/queue.go\<close>: the reliable queues over Redis that the components talk through. The Redis
  client of \<open>goutils\<close> is not part of the repository: its calls are a parameter, a record of
  operations on an unknown broker state, and what is relied on is the predicate \<open>redis_laws\<close>.
  Strings are ASCII, where \<open>strings.ToLower\<close> and \<open>strings.TrimSpace\<close> are what is written here.
\<close>

section \<open>Names\<close>

definition space_char :: "char \<Rightarrow> bool" where
  "space_char c \<longleftrightarrow> c \<in> {CHR 0x09, CHR 0x0A, CHR 0x0B, CHR 0x0C, CHR 0x0D, CHR 0x20}"

definition trim_space :: "string \<Rightarrow> string" where
  "trim_space s = rev (dropWhile space_char (rev (dropWhile space_char s)))"

definition build_queue_name :: "string \<Rightarrow> string" where
  "build_queue_name q = join_with '':'' [''ipc'', to_lower (trim_space q)]"

definition build_buffer_name :: "string \<Rightarrow> string \<Rightarrow> string" where
  "build_buffer_name q reader =
     join_with '':'' [''ipc_buffer'', to_lower (trim_space q), ''reader'', to_lower (trim_space reader)]"

lemma main_is_no_buffer [simp]: "build_queue_name p \<noteq> build_buffer_name q r"
  by (simp add: build_queue_name_def build_buffer_name_def)

section \<open>The Redis calls\<close>

text \<open>
  The flag of the two moving calls says whether the message is inserted on the left of the target
  queue (\<open>insertOnLeft\<close>); the other flag and the duration of the popping calls are whether and how
  long to block.
\<close>

record 'b redis =
  rd_handle :: "string \<Rightarrow> ('b, unit) m"
  rd_push_right :: "string \<Rightarrow> json \<Rightarrow> ('b, unit) m"
  rd_pop_left :: "string \<Rightarrow> bool \<Rightarrow> duration option \<Rightarrow> ('b, json option) m"
  rd_pop_left_and_move :: "string \<Rightarrow> string \<Rightarrow> bool \<Rightarrow> bool \<Rightarrow> duration option \<Rightarrow> ('b, json option) m"
  rd_remove :: "string \<Rightarrow> json \<Rightarrow> ('b, unit) m"
  rd_remove_and_move :: "string \<Rightarrow> string \<Rightarrow> json \<Rightarrow> bool \<Rightarrow> ('b, unit) m"

section \<open>The queue client\<close>

record queue_reader =
  qr_main :: string
  qr_buffer :: string

definition new_receive :: "'b redis \<Rightarrow> string \<Rightarrow> string \<Rightarrow> ('b, queue_reader) m" where
  "new_receive R q reader =
     bnd (wrap IPCMessageQueueError (rd_handle R (build_queue_name q))) (\<lambda>_.
     bnd (wrap IPCMessageQueueError (rd_handle R (build_buffer_name q reader))) (\<lambda>_.
     ret \<lparr>qr_main = build_queue_name q, qr_buffer = build_buffer_name q reader\<rparr>))"

definition dequeue_message :: "'b redis \<Rightarrow> queue_reader \<Rightarrow> bool \<Rightarrow> duration option \<Rightarrow> ('b, json option) m" where
  "dequeue_message R r blocking max_wait =
     wrap IPCMessageQueueError (rd_pop_left_and_move R (qr_main r) (qr_buffer r) False blocking max_wait)"

definition dequeue_buffered_message ::
  "'b redis \<Rightarrow> queue_reader \<Rightarrow> bool \<Rightarrow> duration option \<Rightarrow> ('b, json option) m"
where
  "dequeue_buffered_message R r blocking max_wait =
     wrap IPCMessageQueueError (rd_pop_left R (qr_buffer r) blocking max_wait)"

definition delete_buffered_message :: "'b redis \<Rightarrow> queue_reader \<Rightarrow> json \<Rightarrow> ('b, unit) m" where
  "delete_buffered_message R r j = wrap IPCMessageQueueError (rd_remove R (qr_buffer r) j)"

definition re_enqueue_on_main_queue :: "'b redis \<Rightarrow> queue_reader \<Rightarrow> json \<Rightarrow> ('b, unit) m" where
  "re_enqueue_on_main_queue R r j =
     wrap IPCMessageQueueError (rd_remove_and_move R (qr_buffer r) (qr_main r) j True)"

text \<open>A sender holds the name of its queue.\<close>

definition new_send :: "'b redis \<Rightarrow> string \<Rightarrow> ('b, string) m" where
  "new_send R q =
     bnd (wrap IPCMessageQueueError (rd_handle R (build_queue_name q))) (\<lambda>_. ret (build_queue_name q))"

definition enqueue_message :: "'b redis \<Rightarrow> string \<Rightarrow> json \<Rightarrow> ('b, unit) m" where
  "enqueue_message R main j = wrap IPCMessageQueueError (rd_push_right R main j)"

section \<open>What is relied on\<close>

text \<open>
  \<open>view b q\<close> is the queue of that name from left to right. A call that reports success had its
  effect; one that reports an error had it or had none. Removal is stated for queues without
  duplicates (every message carries a fresh ID). \<open>RemoveAndMove\<close> has an effect only on a message that
  is in the queue it is removed from: it fails when the message is no longer there
  (\<open>common/queue_test.go\<close>, re-enqueue, case 1).
\<close>

definition inserted :: "bool \<Rightarrow> json \<Rightarrow> json list \<Rightarrow> json list" where
  "inserted on_left j xs = (if on_left then j # xs else xs @ [j])"

definition only_changes :: "('b \<Rightarrow> string \<Rightarrow> json list) \<Rightarrow> string set \<Rightarrow> 'b \<Rightarrow> 'b \<Rightarrow> bool" where
  "only_changes view qs b b' \<longleftrightarrow> (\<forall>q. q \<notin> qs \<longrightarrow> view b' q = view b q)"

definition pushed :: "('b \<Rightarrow> string \<Rightarrow> json list) \<Rightarrow> string \<Rightarrow> json \<Rightarrow> 'b \<Rightarrow> 'b \<Rightarrow> bool" where
  "pushed view q j b b' \<longleftrightarrow> only_changes view {q} b b' \<and> view b' q = view b q @ [j]"

definition popped :: "('b \<Rightarrow> string \<Rightarrow> json list) \<Rightarrow> string \<Rightarrow> json option \<Rightarrow> 'b \<Rightarrow> 'b \<Rightarrow> bool" where
  "popped view q x b b' \<longleftrightarrow> only_changes view {q} b b' \<and>
     (case x of None \<Rightarrow> view b' q = view b q | Some j \<Rightarrow> view b q = j # view b' q)"

definition moved ::
  "('b \<Rightarrow> string \<Rightarrow> json list) \<Rightarrow> string \<Rightarrow> string \<Rightarrow> bool \<Rightarrow> json option \<Rightarrow> 'b \<Rightarrow> 'b \<Rightarrow> bool"
where
  "moved view q p on_left x b b' \<longleftrightarrow> only_changes view {q, p} b b' \<and>
     (case x of
        None \<Rightarrow> view b' q = view b q \<and> view b' p = view b p
      | Some j \<Rightarrow> view b q = j # view b' q \<and> view b' p = inserted on_left j (view b p))"

definition removed :: "('b \<Rightarrow> string \<Rightarrow> json list) \<Rightarrow> string \<Rightarrow> json \<Rightarrow> 'b \<Rightarrow> 'b \<Rightarrow> bool" where
  "removed view q j b b' \<longleftrightarrow> only_changes view {q} b b' \<and>
     (distinct (view b q) \<longrightarrow> view b' q = filter ((\<noteq>) j) (view b q))"

definition returned ::
  "('b \<Rightarrow> string \<Rightarrow> json list) \<Rightarrow> string \<Rightarrow> string \<Rightarrow> json \<Rightarrow> bool \<Rightarrow> 'b \<Rightarrow> 'b \<Rightarrow> bool"
where
  "returned view q p j on_left b b' \<longleftrightarrow> only_changes view {q, p} b b' \<and> j \<in> set (view b q) \<and>
     (distinct (view b q) \<longrightarrow> view b' q = filter ((\<noteq>) j) (view b q)) \<and>
     view b' p = inserted on_left j (view b p)"

text \<open>The outcome of a call whose effect on success is \<open>eff\<close>.\<close>

definition had_effect :: "('b, 'a) m \<Rightarrow> ('b \<Rightarrow> string \<Rightarrow> json list) \<Rightarrow> ('a \<Rightarrow> 'b \<Rightarrow> 'b \<Rightarrow> bool) \<Rightarrow> bool" where
  "had_effect p view eff \<longleftrightarrow>
     (\<forall>b r b'. p b = (r, b') \<longrightarrow>
        (case r of Inr x \<Rightarrow> eff x b b' | Inl _ \<Rightarrow> only_changes view {} b b' \<or> (\<exists>x. eff x b b')))"

definition redis_laws :: "'b redis \<Rightarrow> ('b \<Rightarrow> string \<Rightarrow> json list) \<Rightarrow> bool" where
  "redis_laws R view \<longleftrightarrow>
     (\<forall>q j. had_effect (rd_push_right R q j) view (\<lambda>_. pushed view q j)) \<and>
     (\<forall>q bl mw. had_effect (rd_pop_left R q bl mw) view (popped view q)) \<and>
     (\<forall>q p e bl mw. q \<noteq> p \<longrightarrow> had_effect (rd_pop_left_and_move R q p e bl mw) view (moved view q p e)) \<and>
     (\<forall>q j. had_effect (rd_remove R q j) view (\<lambda>_. removed view q j)) \<and>
     (\<forall>q p j e. q \<noteq> p \<longrightarrow> had_effect (rd_remove_and_move R q p j e) view (\<lambda>_. returned view q p j e))"

section \<open>The reliable queue\<close>

text \<open>
  What the clients rely on: messages wait in order, a message that was received is in flight until
  it is deleted, put back or taken over.
\<close>

datatype queue_op = Send json | Receive bool "duration option" | Delete json | PutBack json
  | TakeOver bool "duration option"

definition some_unit :: "('b, unit) m \<Rightarrow> ('b, json option) m" where
  "some_unit p = bnd p (\<lambda>_. ret None)"

fun queue_op_run :: "'b redis \<Rightarrow> queue_reader \<Rightarrow> queue_op \<Rightarrow> ('b, json option) m" where
  "queue_op_run R r (Send j) = some_unit (enqueue_message R (qr_main r) j)"
| "queue_op_run R r (Receive bl mw) = dequeue_message R r bl mw"
| "queue_op_run R r (Delete j) = some_unit (delete_buffered_message R r j)"
| "queue_op_run R r (PutBack j) = some_unit (re_enqueue_on_main_queue R r j)"
| "queue_op_run R r (TakeOver bl mw) = dequeue_buffered_message R r bl mw"

record reliable =
  waiting :: "json list"
  in_flight :: "json set"

inductive reliable_step :: "queue_op \<Rightarrow> json option \<Rightarrow> reliable \<Rightarrow> reliable \<Rightarrow> bool" where
  sent: "reliable_step (Send j) None \<lparr>waiting = xs, in_flight = F\<rparr> \<lparr>waiting = xs @ [j], in_flight = F\<rparr>"
| received: "reliable_step (Receive bl mw) (Some j) \<lparr>waiting = j # xs, in_flight = F\<rparr>
    \<lparr>waiting = xs, in_flight = insert j F\<rparr>"
| nothing_received: "reliable_step (Receive bl mw) None s s"
| deleted: "reliable_step (Delete j) None \<lparr>waiting = xs, in_flight = F\<rparr>
    \<lparr>waiting = xs, in_flight = F - {j}\<rparr>"
| put_back: "j \<in> F \<Longrightarrow> reliable_step (PutBack j) None \<lparr>waiting = xs, in_flight = F\<rparr>
    \<lparr>waiting = j # xs, in_flight = F - {j}\<rparr>"
| taken_over: "j \<in> F \<Longrightarrow> reliable_step (TakeOver bl mw) (Some j) \<lparr>waiting = xs, in_flight = F\<rparr>
    \<lparr>waiting = xs, in_flight = F - {j}\<rparr>"
| nothing_taken: "reliable_step (TakeOver bl mw) None s s"

definition reliable_of :: "('b \<Rightarrow> string \<Rightarrow> json list) \<Rightarrow> queue_reader \<Rightarrow> 'b \<Rightarrow> reliable" where
  "reliable_of view r b = \<lparr>waiting = view b (qr_main r), in_flight = set (view b (qr_buffer r))\<rparr>"

definition in_order :: "('b \<Rightarrow> string \<Rightarrow> json list) \<Rightarrow> queue_reader \<Rightarrow> 'b \<Rightarrow> bool" where
  "in_order view r b \<longleftrightarrow> distinct (view b (qr_main r) @ view b (qr_buffer r))"

fun usable :: "queue_op \<Rightarrow> reliable \<Rightarrow> bool" where
  "usable (Send j) s \<longleftrightarrow> j \<notin> set (waiting s) \<union> in_flight s"
| "usable _ s \<longleftrightarrow> True"


lemma had_effectE:
  assumes "had_effect p view eff" "p b = (r, b')"
  obtains x where "r = Inr x" "eff x b b'"
  | e where "r = Inl e" "only_changes view {} b b'"
  | e x where "r = Inl e" "eff x b b'"
  using assms unfolding had_effect_def by (cases r) fastforce+

lemma had_effect_wrap: "had_effect p view eff \<Longrightarrow> had_effect (wrap k p) view eff"
  unfolding had_effect_def wrap_def
  by (fastforce split: prod.splits sum.splits)

lemma had_effect_some_unit: "had_effect p view (\<lambda>_. eff) \<Longrightarrow> had_effect (some_unit p) view (\<lambda>x b b'. x = None \<and> eff b b')"
  unfolding had_effect_def some_unit_def bnd_def ret_def
  by (fastforce split: prod.splits sum.splits)

text \<open>What one operation of the client does to the two queues, when it has an effect.\<close>

fun op_effect :: "('b \<Rightarrow> string \<Rightarrow> json list) \<Rightarrow> queue_reader \<Rightarrow> queue_op \<Rightarrow> json option \<Rightarrow> 'b \<Rightarrow> 'b \<Rightarrow> bool" where
  "op_effect view r (Send j) = (\<lambda>x b b'. x = None \<and> pushed view (qr_main r) j b b')"
| "op_effect view r (Receive bl mw) = moved view (qr_main r) (qr_buffer r) False"
| "op_effect view r (Delete j) = (\<lambda>x b b'. x = None \<and> removed view (qr_buffer r) j b b')"
| "op_effect view r (PutBack j) = (\<lambda>x b b'. x = None \<and> returned view (qr_buffer r) (qr_main r) j True b b')"
| "op_effect view r (TakeOver bl mw) = popped view (qr_buffer r)"

lemma op_has_effect:
  assumes "redis_laws R view" "qr_main r \<noteq> qr_buffer r"
  shows "had_effect (queue_op_run R r op) view (op_effect view r op)"
  using assms
  by (cases op)
    (simp_all add: redis_laws_def enqueue_message_def dequeue_message_def delete_buffered_message_def
      re_enqueue_on_main_queue_def dequeue_buffered_message_def had_effect_wrap had_effect_some_unit)

lemma taken_step: "j \<notin> F \<Longrightarrow> reliable_step (TakeOver bl mw) (Some j) \<lparr>waiting = xs, in_flight = insert j F\<rparr>
    \<lparr>waiting = xs, in_flight = F\<rparr>"
  using taken_over [of j "insert j F" bl mw xs] by simp

lemma queue_op_error: "queue_op_run R r op b = (res, b') \<Longrightarrow> res = Inl e \<Longrightarrow> err_as IPCMessageQueueError e"
  by (cases op) (auto simp: enqueue_message_def dequeue_message_def delete_buffered_message_def some_unit_def
      re_enqueue_on_main_queue_def dequeue_buffered_message_def wrap_def bnd_def ret_def
      split: prod.splits sum.splits)

lemma op_effect_refines:
  assumes "op_effect view r op x b b'" "qr_main r \<noteq> qr_buffer r" "in_order view r b"
    "usable op (reliable_of view r b)"
  shows "in_order view r b' \<and> reliable_step op x (reliable_of view r b) (reliable_of view r b')"
proof (cases op)
  case (Send j)
  with assms have "view b' (qr_main r) = view b (qr_main r) @ [j]" "view b' (qr_buffer r) = view b (qr_buffer r)" "x = None"
    by (auto simp: pushed_def only_changes_def)
  then show ?thesis using Send assms(3,4) by (auto simp: in_order_def reliable_of_def intro: reliable_step.intros)
next
  case (Receive bl mw)
  with assms(1,2,3) show ?thesis
    by (cases x) (auto simp: moved_def only_changes_def inserted_def in_order_def reliable_of_def
      intro: reliable_step.intros)
next
  case (Delete j)
  with assms have "view b' (qr_main r) = view b (qr_main r)" "x = None"
    "view b' (qr_buffer r) = filter ((\<noteq>) j) (view b (qr_buffer r))"
    by (auto simp: removed_def only_changes_def in_order_def)
  moreover have "set (filter ((\<noteq>) j) ys) = set ys - {j}" for ys by auto
  ultimately show ?thesis using Delete assms(3)
    by (auto simp: in_order_def reliable_of_def intro: reliable_step.intros simp del: set_filter)
next
  case (PutBack j)
  with assms have "view b' (qr_main r) = j # view b (qr_main r)" "x = None" "j \<in> set (view b (qr_buffer r))"
    "view b' (qr_buffer r) = filter ((\<noteq>) j) (view b (qr_buffer r))"
    by (auto simp: returned_def only_changes_def inserted_def in_order_def)
  moreover have "set (filter ((\<noteq>) j) ys) = set ys - {j}" for ys by auto
  ultimately show ?thesis using PutBack assms(3,4)
    by (auto simp: in_order_def reliable_of_def intro!: reliable_step.put_back simp del: set_filter)
next
  case (TakeOver bl mw)
  with assms(1,2,3) show ?thesis
    by (cases x) (auto simp: popped_def only_changes_def in_order_def reliable_of_def
      intro: taken_step reliable_step.intros)
qed

lemma unchanged_queues:
  "only_changes view {} b b' \<Longrightarrow> in_order view r b' = in_order view r b \<and> reliable_of view r b' = reliable_of view r b"
  by (simp add: only_changes_def in_order_def reliable_of_def)

section \<open>Properties\<close>

lemma refines_step:
  assumes "redis_laws R view" "qr_main r \<noteq> qr_buffer r" "in_order view r b"
    "usable op (reliable_of view r b)" "queue_op_run R r op b = (res, b')"
  shows "in_order view r b' \<and> (reliable_of view r b' = reliable_of view r b \<or>
    (\<exists>x. reliable_step op x (reliable_of view r b) (reliable_of view r b'))) \<and>
    (\<forall>x. res = Inr x \<longrightarrow> reliable_step op x (reliable_of view r b) (reliable_of view r b'))"
  using op_has_effect [OF assms(1,2)] assms(5)
proof (cases rule: had_effectE)
  case (1 x)
  then show ?thesis using op_effect_refines [OF _ assms(2-4)] by blast
next
  case (2 e)
  then show ?thesis using unchanged_queues [OF 2(2), of r] assms(3) by simp
next
  case (3 e x)
  then show ?thesis using op_effect_refines [OF _ assms(2-4)] by blast
qed

text \<open>C9. The client implements a reliable queue: over any Redis that meets the laws each of its
  operations is a step of the queue of waiting and in-flight messages, and one that reports an error
  is an \<open>IPCMessageQueueError\<close> and either such a step or without effect; no message is ever in the
  queues twice.\<close>

theorem queue_refines_reliable_queue:
  assumes "redis_laws R view" "qr_main r \<noteq> qr_buffer r" "in_order view r b"
    "usable op (reliable_of view r b)" "queue_op_run R r op b = (res, b')"
  shows "in_order view r b' \<and>
    (case res of
       Inr x \<Rightarrow> reliable_step op x (reliable_of view r b) (reliable_of view r b')
     | Inl e \<Rightarrow> err_as IPCMessageQueueError e \<and>
         (reliable_of view r b' = reliable_of view r b \<or>
          (\<exists>x. reliable_step op x (reliable_of view r b) (reliable_of view r b'))))"
proof -
  have "err_as IPCMessageQueueError e" if "res = Inl e" for e
    using assms(5) that by (rule queue_op_error)
  with refines_step [OF assms] show ?thesis by (auto split: sum.split)
qed

text \<open>The messages of a run of sends, receives and deletes.\<close>

primrec queue_run :: "'b redis \<Rightarrow> queue_reader \<Rightarrow> queue_op list \<Rightarrow> 'b \<Rightarrow> 'b" where
  "queue_run R r [] b = b"
| "queue_run R r (op # ops) b = queue_run R r ops (snd (queue_op_run R r op b))"

fun sends :: "queue_op list \<Rightarrow> json list" where
  "sends [] = []"
| "sends (Send j # ops) = j # sends ops"
| "sends (_ # ops) = sends ops"

definition held :: "('b \<Rightarrow> string \<Rightarrow> json list) \<Rightarrow> queue_reader \<Rightarrow> 'b \<Rightarrow> json set" where
  "held view r b = set (view b (qr_main r)) \<union> set (view b (qr_buffer r))"

lemma held_reliable: "held view r b = set (waiting (reliable_of view r b)) \<union> in_flight (reliable_of view r b)"
  by (simp add: held_def reliable_of_def)

text \<open>The calls that take the message out of both queues: its deletion, and the read of the buffer
  at start-up when it is the oldest there.\<close>

fun takes_out :: "('b \<Rightarrow> string \<Rightarrow> json list) \<Rightarrow> queue_reader \<Rightarrow> json \<Rightarrow> queue_op \<Rightarrow> 'b \<Rightarrow> bool" where
  "takes_out view r j (Delete i) b \<longleftrightarrow> i = j"
| "takes_out view r j (TakeOver bl mw) b \<longleftrightarrow> take 1 (view b (qr_buffer r)) = [j]"
| "takes_out view r j _ b \<longleftrightarrow> False"

primrec spares ::
  "'b redis \<Rightarrow> ('b \<Rightarrow> string \<Rightarrow> json list) \<Rightarrow> queue_reader \<Rightarrow> json \<Rightarrow> queue_op list \<Rightarrow> 'b \<Rightarrow> bool"
where
  "spares R view r j [] b \<longleftrightarrow> True"
| "spares R view r j (op # ops) b \<longleftrightarrow>
     \<not> takes_out view r j op b \<and> spares R view r j ops (snd (queue_op_run R r op b))"

lemma step_holds:
  "reliable_step op x s s' \<Longrightarrow>
    set (waiting s') \<union> in_flight s' \<subseteq> set (waiting s) \<union> in_flight s \<union> set (sends [op])"
  by (erule reliable_step.cases; auto)

lemma step_keeps:
  assumes "op_effect view r op x b b'" "qr_main r \<noteq> qr_buffer r" "in_order view r b"
    "j \<in> held view r b" "\<not> takes_out view r j op b"
  shows "j \<in> held view r b'"
  using assms
  by (cases op; cases x)
    (auto simp: held_def in_order_def pushed_def moved_def removed_def returned_def popped_def
      only_changes_def inserted_def)

lemma sends_Cons: "set (sends (op # ops)) = set (sends [op]) \<union> set (sends ops)"
  "distinct (sends (op # ops)) \<Longrightarrow> distinct (sends ops) \<and> set (sends [op]) \<inter> set (sends ops) = {}"
  by (cases op; auto)+

lemma op_keeps:
  assumes "redis_laws R view" "qr_main r \<noteq> qr_buffer r" "in_order view r b"
    "usable op (reliable_of view r b)" "queue_op_run R r op b = (res, b')"
    "j \<in> held view r b" "\<not> takes_out view r j op b"
  shows "in_order view r b' \<and> j \<in> held view r b' \<and> held view r b' \<subseteq> held view r b \<union> set (sends [op])"
  using op_has_effect [OF assms(1,2)] assms(5)
proof (cases rule: had_effectE)
  case (2 e)
  then show ?thesis using unchanged_queues [OF 2(2), of r] assms(3,6) by (simp add: held_reliable)
qed (use op_effect_refines [OF _ assms(2-4)] step_holds step_keeps [OF _ assms(2,3,6,7)]
      in \<open>unfold held_reliable, blast\<close>)+

text \<open>C24. A message leaves the queues in two ways only. In any run of sends, receives, deletes, put
  backs and start-up reads of the buffer, whichever of the calls fail and wherever it stops, a message
  is still in the main queue or in the buffer of its reader, and only once, unless a call asked to
  delete it or a start-up read of the buffer met it as the oldest one there. (That read takes it out
  of both queues: \<open>recovery_loses_message\<close> below.)\<close>

theorem undeleted_message_survives:
  assumes "redis_laws R view" "qr_main r \<noteq> qr_buffer r" "in_order view r b"
    "distinct (sends ops)" "set (sends ops) \<inter> held view r b = {}"
    "j \<in> held view r b" "spares R view r j ops b"
  shows "j \<in> held view r (queue_run R r ops b) \<and> in_order view r (queue_run R r ops b)"
  using assms(3-7)
proof (induction ops arbitrary: b)
  case Nil
  then show ?case by simp
next
  case (Cons op ops)
  obtain res b' where run: "queue_op_run R r op b = (res, b')" by (rule prod.exhaust)
  have use: "usable op (reliable_of view r b)"
    using Cons.prems(3) by (cases op) (auto simp: reliable_of_def held_def)
  have kept: "in_order view r b'" "j \<in> held view r b'" "held view r b' \<subseteq> held view r b \<union> set (sends [op])"
    using op_keeps [OF assms(1,2) Cons.prems(1) use run Cons.prems(4)] Cons.prems(5) by auto
  moreover have "distinct (sends ops)" "set (sends [op]) \<inter> set (sends ops) = {}"
    using sends_Cons(2) [OF Cons.prems(2)] by blast+
  moreover have "set (sends ops) \<inter> held view r b' = {}"
    using calculation Cons.prems(3) sends_Cons(1) [of op ops] by blast
  ultimately show ?case
    using Cons.IH [OF kept(1)] Cons.prems(5) run by simp
qed

text \<open>Start-up recovery (\<open>recoverBufferedMessages\<close> of both schedulers, \<open>Initialize\<close> of the receiver)
  reads a message with \<open>DequeueBufferedMessage\<close>, which pops it, and then puts it back with
  \<open>ReEnqueueOnMainQueue\<close>, which moves it out of the buffer it is no longer in. Between the two calls it
  is in neither queue, and the second one fails and leaves it lost.\<close>

theorem recovery_loses_message:
  assumes "redis_laws R view" "qr_main r \<noteq> qr_buffer r" "in_order view r b"
    "queue_op_run R r (TakeOver bl mw) b = (Inr (Some j), b1)"
    "queue_op_run R r (PutBack j) b1 = (res, b2)"
  shows "j \<in> held view r b \<and> j \<notin> held view r b1 \<and> j \<notin> held view r b2 \<and>
    (\<exists>e. res = Inl e \<and> err_as IPCMessageQueueError e)"
proof -
  have "popped view (qr_buffer r) (Some j) b b1"
    using op_has_effect [OF assms(1,2), of "TakeOver bl mw"] assms(4)
    by (cases rule: had_effectE) auto
  then have pop: "j \<in> held view r b" "j \<notin> held view r b1"
    using assms(2,3) by (auto simp: popped_def only_changes_def held_def in_order_def)
  have "\<exists>e. res = Inl e \<and> only_changes view {} b1 b2"
    using op_has_effect [OF assms(1,2)] assms(5)
    by (cases rule: had_effectE) (use pop in \<open>auto simp: returned_def held_def\<close>)
  then show ?thesis
    using pop queue_op_error [OF assms(5)] by (auto simp: held_def only_changes_def)
qed

section \<open>A Redis that meets the laws\<close>

text \<open>Queues as lists; only the removal of a message that is not there fails.\<close>

definition list_redis :: "(string \<Rightarrow> json list) redis" where
  "list_redis = \<lparr>
     rd_handle = (\<lambda>q. ret ()),
     rd_push_right = (\<lambda>q j b. (Inr (), b(q := b q @ [j]))),
     rd_pop_left = (\<lambda>q bl mw b. case b q of [] \<Rightarrow> (Inr None, b) | j # js \<Rightarrow> (Inr (Some j), b(q := js))),
     rd_pop_left_and_move = (\<lambda>q p e bl mw b. case b q of
         [] \<Rightarrow> (Inr None, b)
       | j # js \<Rightarrow> (Inr (Some j), b(q := js, p := inserted e j (b p)))),
     rd_remove = (\<lambda>q j b. (Inr (), b(q := remove1 j (b q)))),
     rd_remove_and_move = (\<lambda>q p j e b.
       if j \<in> set (b q) then (Inr (), b(q := remove1 j (b q), p := inserted e j (b p)))
       else (Inl (leaf RedisError), b))\<rparr>"

lemma list_redis_laws: "redis_laws list_redis (\<lambda>b. b)"
  unfolding redis_laws_def list_redis_def had_effect_def
  by (auto simp: pushed_def popped_def moved_def removed_def returned_def only_changes_def
      distinct_remove1_removeAll removeAll_filter_not_eq split: list.splits)

definition sample_reader :: queue_reader where
  "sample_reader = \<lparr>qr_main = build_queue_name ''Jobs'', qr_buffer = build_buffer_name ''Jobs'' ''W1''\<rparr>"

lemma sample_reader_names: "qr_main sample_reader \<noteq> qr_buffer sample_reader"
  by (simp add: sample_reader_def)

theorem queue_refines_reliable_queue_witness:
  "reliable_step (Receive False None) (Some (JStr ''m''))
     (reliable_of (\<lambda>b. b) sample_reader ((\<lambda>_. [])(qr_main sample_reader := [JStr ''m''])))
     \<lparr>waiting = [], in_flight = {JStr ''m''}\<rparr>"
  using queue_refines_reliable_queue [OF list_redis_laws sample_reader_names, of
      "(\<lambda>_. [])(qr_main sample_reader := [JStr ''m''])" "Receive False None"]
    sample_reader_names sample_reader_names [symmetric]
  by (simp add: in_order_def dequeue_message_def wrap_def list_redis_def reliable_of_def inserted_def)

theorem undeleted_message_survives_witness:
  "JStr ''m'' \<in> held (\<lambda>b. b) sample_reader (queue_run list_redis sample_reader
     [Send (JStr ''n''), Receive False None, Delete (JStr ''n''), PutBack (JStr ''m''), TakeOver True None]
     ((\<lambda>_. [])(qr_main sample_reader := [JStr ''m''])))"
  using undeleted_message_survives [OF list_redis_laws sample_reader_names, of
      "(\<lambda>_. [])(qr_main sample_reader := [JStr ''m''])"
      "[Send (JStr ''n''), Receive False None, Delete (JStr ''n''), PutBack (JStr ''m''), TakeOver True None]"
      "JStr ''m''"]
    sample_reader_names sample_reader_names [symmetric]
  by (simp add: in_order_def held_def list_redis_def wrap_def some_unit_def inserted_def bnd_def
      dequeue_message_def enqueue_message_def delete_buffered_message_def re_enqueue_on_main_queue_def)

theorem recovery_loses_message_witness:
  "\<exists>b b1 res b2. queue_op_run list_redis sample_reader (TakeOver True None) b = (Inr (Some (JStr ''m'')), b1) \<and>
     queue_op_run list_redis sample_reader (PutBack (JStr ''m'')) b1 = (res, b2) \<and>
     JStr ''m'' \<in> held (\<lambda>b. b) sample_reader b \<and> JStr ''m'' \<notin> held (\<lambda>b. b) sample_reader b2"
proof -
  let ?b = "(\<lambda>_. [])(qr_buffer sample_reader := [JStr ''m''])"
  obtain b1 where taken: "queue_op_run list_redis sample_reader (TakeOver True None) ?b = (Inr (Some (JStr ''m'')), b1)"
    by (simp add: list_redis_def wrap_def dequeue_buffered_message_def)
  obtain res b2 where put_back: "queue_op_run list_redis sample_reader (PutBack (JStr ''m'')) b1 = (res, b2)"
    by (rule prod.exhaust)
  show ?thesis
    using recovery_loses_message [OF list_redis_laws sample_reader_names _ taken put_back] taken put_back
      sample_reader_names by (auto simp: in_order_def)
qed

end
