(* ===== verification/Setup.thy ===== *)
theory Setup
  imports Task_Worker Workflow_Client Notifications
begin

text \<open>
  How the components are put together: the configuration (\<open>models/config.go\<close>) with its validator tags,
  and the constructors of the executor, receiver, schedulers, clients, step runner, producer and
  consumer. What a constructor asks of code outside the repository (the validator's registration,
  timers, worker pools, the Redis subscription) is the parameter \<open>platform\<close>, an error or nothing for
  each call; the queue factories are parameters as in the code. A handle of a queue is known by the
  name of the queue, and a \<open>nil\<close> that the validator refuses is \<open>None\<close> or \<open>False\<close>.
\<close>

section \<open>Configuration\<close>

record task_queue_config =
  qc_name :: string
  qc_workers :: int
  qc_buffer :: int

definition task_queue_config_valid :: "task_queue_config \<Rightarrow> bool" where
  "task_queue_config_valid c \<longleftrightarrow> qc_name c \<noteq> [] \<and> qc_workers c \<ge> 1 \<and> qc_buffer c \<ge> 1"

record task_receiver_config =
  rcf_name :: string
  rcf_queues :: "task_queue_config list"
  rcf_scheduler_queue :: string

definition task_receiver_config_valid :: "task_receiver_config \<Rightarrow> bool" where
  "task_receiver_config_valid c \<longleftrightarrow> rcf_name c \<noteq> [] \<and> rcf_queues c \<noteq> [] \<and>
     list_all task_queue_config_valid (rcf_queues c) \<and> rcf_scheduler_queue c \<noteq> []"

record task_queue_mapping =
  qm_task :: string
  qm_queue :: string

definition task_queue_mapping_valid :: "task_queue_mapping \<Rightarrow> bool" where
  "task_queue_mapping_valid m \<longleftrightarrow> qm_task m \<noteq> [] \<and> qm_queue m \<noteq> []"

record task_scheduler_config =
  scf_timer_secs :: int
  scf_queue :: string
  scf_mappings :: "task_queue_mapping list"

definition task_scheduler_config_valid :: "task_scheduler_config \<Rightarrow> bool" where
  "task_scheduler_config_valid c \<longleftrightarrow> scf_timer_secs c \<ge> 10 \<and> scf_queue c \<noteq> [] \<and> scf_mappings c \<noteq> [] \<and>
     list_all task_queue_mapping_valid (scf_mappings c)"

definition task_maintenance_interval :: "task_scheduler_config \<Rightarrow> duration" where
  "task_maintenance_interval c = wrap64 (second * scf_timer_secs c)"

definition retry_setting_valid :: "retry_setting \<Rightarrow> bool" where
  "retry_setting_valid r \<longleftrightarrow> rs_initial r \<ge> 1 \<and> rs_retries r \<ge> -1 \<and>
     (case rs_max r of None \<Rightarrow> True | Some d \<Rightarrow> d \<ge> 1)"

record per_task_retry =
  pt_task :: string
  pt_retry :: retry_setting

record task_client_config =
  ccf_queue :: string
  ccf_retries :: "per_task_retry list"

definition per_task_retry_valid :: "per_task_retry \<Rightarrow> bool" where
  "per_task_retry_valid p \<longleftrightarrow> pt_task p \<noteq> [] \<and> retry_setting_valid (pt_retry p)"

definition task_client_config_valid :: "task_client_config \<Rightarrow> bool" where
  "task_client_config_valid c \<longleftrightarrow> ccf_queue c \<noteq> [] \<and> list_all per_task_retry_valid (ccf_retries c)"

record workflow_scheduler_config =
  wcf_timer_secs :: int
  wcf_queue :: string

definition workflow_scheduler_config_valid :: "workflow_scheduler_config \<Rightarrow> bool" where
  "workflow_scheduler_config_valid c \<longleftrightarrow> wcf_timer_secs c \<ge> 10 \<and> wcf_queue c \<noteq> []"

definition workflow_maintenance_interval :: "workflow_scheduler_config \<Rightarrow> duration" where
  "workflow_maintenance_interval c = wrap64 (second * wcf_timer_secs c)"

definition producer_config_valid :: "producer_config \<Rightarrow> bool" where
  "producer_config_valid c \<longleftrightarrow> pc_poll_secs c \<ge> 1 \<and> pc_batch c \<ge> 1"

section \<open>Errors without state\<close>

definition chain :: "goerr + 'a \<Rightarrow> ('a \<Rightarrow> goerr + 'b) \<Rightarrow> goerr + 'b" where
  "chain x f = (case x of Inl e \<Rightarrow> Inl e | Inr a \<Rightarrow> f a)"

definition checked :: "err_kind \<Rightarrow> goerr option \<Rightarrow> goerr + unit" where
  "checked k x = (case x of None \<Rightarrow> Inr () | Some e \<Rightarrow> Inl (wrapped k e))"

definition labelled :: "err_kind \<Rightarrow> goerr + 'a \<Rightarrow> goerr + 'a" where
  "labelled k x = (case x of Inl e \<Rightarrow> Inl (wrapped k e) | Inr a \<Rightarrow> Inr a)"

abbreviation bad_input :: "goerr + 'a" where
  "bad_input \<equiv> Inl (wrapped BadInputError (leaf ValidatorError))"

text \<open>A loop over a list that builds a value and stops at the first error.\<close>

fun fold_err :: "('a \<Rightarrow> 'b \<Rightarrow> goerr + 'b) \<Rightarrow> 'a list \<Rightarrow> 'b \<Rightarrow> goerr + 'b" where
  "fold_err f [] b = Inr b"
| "fold_err f (x # xs) b = chain (f x b) (fold_err f xs)"

lemma chain_Inr [simp]: "chain x f = Inr b \<longleftrightarrow> (\<exists>a. x = Inr a \<and> f a = Inr b)"
  by (cases x) (simp_all add: chain_def)

lemma checked_Inr [simp]: "checked k x = Inr u \<longleftrightarrow> x = None"
  by (cases x) (simp_all add: checked_def)

lemma labelled_Inr [simp]: "labelled k x = Inr a \<longleftrightarrow> x = Inr a"
  by (cases x) (simp_all add: labelled_def)

section \<open>The platform\<close>

record platform =
  pf_enum :: "string \<Rightarrow> goerr option"
  pf_timer :: "goerr option"
  pf_pool :: "string \<Rightarrow> int \<Rightarrow> goerr option"
  pf_register :: "goerr option"
  pf_spawn :: "nat \<Rightarrow> goerr option"
  pf_subscribe :: "string \<Rightarrow> string list \<Rightarrow> goerr option"

text \<open>\<open>RegisterWithValidator\<close>: the enumerations one after the other, up to the first error.\<close>

definition validator_tags :: "string list" where
  "validator_tags = [''system_event_type'', ''task_schedule_class'', ''task_state'', ''task_execute_class'',
     ''task_execute_state'', ''task_failure_disposition'', ''ipc_msg_type'', ''workflow_state'',
     ''workflow_step_state'']"

fun register_tags :: "platform \<Rightarrow> string list \<Rightarrow> goerr option" where
  "register_tags pf [] = None"
| "register_tags pf (t # ts) = (case pf_enum pf t of Some e \<Rightarrow> Some e | None \<Rightarrow> register_tags pf ts)"

definition register_with_validator :: "platform \<Rightarrow> goerr option" where
  "register_with_validator pf = register_tags pf validator_tags"

section \<open>The executor\<close>

type_synonym processor = "task_row \<Rightarrow> exec_row \<Rightarrow> (world, unit) m"

text \<open>The copy of a map whose values must not be \<open>nil\<close>.\<close>

fun copy_owned :: "('k \<times> 'v option) list \<Rightarrow> ('k \<Rightarrow> 'v option) \<Rightarrow> goerr + ('k \<Rightarrow> 'v option)" where
  "copy_owned [] owned = Inr owned"
| "copy_owned ((_, None) # _) owned = Inl (leaf BadInputError)"
| "copy_owned ((k, Some v) # rest) owned = copy_owned rest (owned(k \<mapsto> v))"

record executor_support =
  es_persistence :: bool
  es_callback :: bool

definition executor_support_valid :: "executor_support \<Rightarrow> bool" where
  "executor_support_valid s \<longleftrightarrow> es_persistence s \<and> es_callback s"

record executor =
  ex_queue :: string
  ex_processors :: "string \<Rightarrow> processor option"

definition new_executor ::
  "platform \<Rightarrow> string \<Rightarrow> int \<Rightarrow> int \<Rightarrow> executor_support \<Rightarrow> (string \<times> processor option) list \<Rightarrow> goerr + executor"
where
  "new_executor pf queue workers buffer support processors =
     (if \<not> executor_support_valid support then bad_input
      else
        chain (copy_owned processors (\<lambda>_. None)) (\<lambda>owned.
        chain (checked TaskExecutorError (register_with_validator pf)) (\<lambda>_.
        chain (checked TaskExecutorError (pf_pool pf queue buffer)) (\<lambda>_.
        chain (checked TaskExecutorError (pf_register pf)) (\<lambda>_.
        chain (fold_err (\<lambda>i _. checked TaskExecutorError (pf_spawn pf i)) [0..<nat workers] ()) (\<lambda>_.
        Inr \<lparr>ex_queue = queue, ex_processors = owned\<rparr>))))))"

section \<open>The receiver\<close>

type_synonym queue_factory = "string \<Rightarrow> string \<Rightarrow> goerr option"

type_synonym executor_factory =
  "string \<Rightarrow> int \<Rightarrow> int \<Rightarrow> executor_support \<Rightarrow> (string \<times> processor option) list \<Rightarrow> goerr + executor"

record new_receiver_params =
  nr_support :: executor_support
  nr_config :: task_receiver_config
  nr_executors :: "executor_factory option"
  nr_processors :: "(string \<times> (string \<times> processor option) list) list option"
  nr_redis :: bool
  nr_receivers :: "queue_factory option"
  nr_senders :: "queue_factory option"

text \<open>The queues a receiver reads and the executor of each.\<close>

record receiver_parts =
  rp_config :: task_receiver_config
  rp_receivers :: "string list"
  rp_executors :: "string \<Rightarrow> executor option"

definition define_queue_receiver ::
  "queue_factory \<Rightarrow> string \<Rightarrow> task_queue_config \<Rightarrow> string list \<Rightarrow> goerr + string list"
where
  "define_queue_receiver rf reader q qs =
     chain (checked TaskReceiverError (rf (qc_name q) reader)) (\<lambda>_. Inr (List.insert (qc_name q) qs))"

text \<open>The callback is the receiver's own \<open>onTaskComplete\<close>, so it is always given; a queue without an
  entry gets the \<open>nil\<close> map of processors.\<close>

definition define_queue_executor ::
  "executor_factory \<Rightarrow> executor_support \<Rightarrow> (string \<times> (string \<times> processor option) list) list \<Rightarrow>
   task_queue_config \<Rightarrow> (string \<Rightarrow> executor option) \<Rightarrow> goerr + (string \<Rightarrow> executor option)"
where
  "define_queue_executor ef support processors q exs =
     chain (labelled TaskReceiverError
       (ef (qc_name q) (qc_workers q) (qc_buffer q)
         \<lparr>es_persistence = es_persistence support, es_callback = True\<rparr>
         (case map_of processors (qc_name q) of None \<Rightarrow> [] | Some ps \<Rightarrow> ps)))
     (\<lambda>ex. Inr (exs(qc_name q \<mapsto> ex)))"

definition new_receiver :: "platform \<Rightarrow> new_receiver_params \<Rightarrow> goerr + receiver_parts" where
  "new_receiver pf p =
     (case (nr_executors p, nr_processors p, nr_receivers p, nr_senders p) of
        (Some ef, Some processors, Some rf, Some sf) \<Rightarrow>
          if \<not> (executor_support_valid (nr_support p) \<and> task_receiver_config_valid (nr_config p) \<and> nr_redis p)
          then bad_input
          else
            let c = nr_config p in
            chain (checked RuntimeError (register_with_validator pf)) (\<lambda>_.
            chain (fold_err (define_queue_receiver rf (rcf_name c)) (rcf_queues c) []) (\<lambda>receivers.
            if \<exists>(q, _) \<in> set processors. q \<notin> qc_name ` set (rcf_queues c) then Inl (leaf BadInputError)
            else
              chain (fold_err (define_queue_executor ef (nr_support p) processors) (rcf_queues c) (\<lambda>_. None)) (\<lambda>executors.
              chain (checked TaskReceiverError (sf (rcf_scheduler_queue c) (rcf_name c))) (\<lambda>_.
              Inr \<lparr>rp_config = c, rp_receivers = receivers, rp_executors = executors\<rparr>))))
      | _ \<Rightarrow> bad_input)"

text \<open>The receiver as the thread of one queue sees it.\<close>

definition queue_view :: "receiver_parts \<Rightarrow> executor \<Rightarrow> receiver" where
  "queue_view r ex =
     \<lparr>rc_name = rcf_name (rp_config r), rc_scheduler_queue = rcf_scheduler_queue (rp_config r),
      rc_processors = ex_processors ex\<rparr>"

text \<open>\<open>Start\<close>: one thread per queue.\<close>

definition start_receiver :: "receiver_parts \<Rightarrow> goerr + (string \<times> receiver) list" where
  "start_receiver r =
     fold_err (\<lambda>q threads. case rp_executors r q of
         None \<Rightarrow> Inl (leaf ConsistencyError)
       | Some ex \<Rightarrow> Inr (threads @ [(q, queue_view r ex)])) (rp_receivers r) []"

section \<open>The task scheduler and the task client\<close>

record new_scheduler_params =
  ns_persistence :: bool
  ns_config :: task_scheduler_config
  ns_redis :: bool
  ns_receivers :: "queue_factory option"
  ns_senders :: "queue_factory option"

definition define_task_sender ::
  "queue_factory \<Rightarrow> task_queue_mapping \<Rightarrow> (string \<Rightarrow> string option) \<Rightarrow> goerr + (string \<Rightarrow> string option)"
where
  "define_task_sender sf mp senders =
     chain (checked TaskSchedulerError (sf (qm_queue mp) ts_name)) (\<lambda>_. Inr (senders(qm_task mp \<mapsto> qm_queue mp)))"

definition new_task_scheduler :: "platform \<Rightarrow> backoff \<Rightarrow> new_scheduler_params \<Rightarrow> goerr + task_sched" where
  "new_task_scheduler pf b p =
     chain (checked RuntimeError (register_with_validator pf)) (\<lambda>_.
     case (ns_receivers p, ns_senders p) of
       (Some rf, Some sf) \<Rightarrow>
         if \<not> (ns_persistence p \<and> task_scheduler_config_valid (ns_config p) \<and> ns_redis p) then bad_input
         else
           let c = ns_config p in
           chain (checked TaskSchedulerError (pf_timer pf)) (\<lambda>_.
           chain (checked TaskSchedulerError (rf (scf_queue c) ts_name)) (\<lambda>_.
           chain (checked TaskSchedulerError (sf (scf_queue c) ts_name)) (\<lambda>_.
           chain (fold_err (define_task_sender sf) (scf_mappings c) (\<lambda>_. None)) (\<lambda>senders.
           Inr \<lparr>ts_queue = scf_queue c, ts_task_queue = senders, ts_backoff = b\<rparr>))))
     | _ \<Rightarrow> bad_input)"

record new_client_params =
  nc_name :: string
  nc_creator :: string
  nc_persistence :: bool
  nc_config :: task_client_config
  nc_redis :: bool
  nc_senders :: "queue_factory option"

definition new_task_client :: "platform \<Rightarrow> new_client_params \<Rightarrow> goerr + task_client" where
  "new_task_client pf p =
     chain (checked RuntimeError (register_with_validator pf)) (\<lambda>_.
     case nc_senders p of
       None \<Rightarrow> bad_input
     | Some sf \<Rightarrow>
         if \<not> (nc_name p \<noteq> [] \<and> nc_persistence p \<and> task_client_config_valid (nc_config p) \<and> nc_redis p)
         then bad_input
         else
           chain (checked TaskClientError (sf (ccf_queue (nc_config p)) (nc_name p))) (\<lambda>_.
           Inr \<lparr>tc_queue = ccf_queue (nc_config p), tc_sender = nc_name p, tc_creator = nc_creator p,
             tc_retry = fold (\<lambda>s by_name. by_name(pt_task s \<mapsto> pt_retry s)) (ccf_retries (nc_config p)) (\<lambda>_. None)\<rparr>))"

section \<open>Notifications\<close>

record consumer =
  cn_name :: string
  cn_topics :: "string list"

record new_consumer_params =
  nk_redis :: bool
  nk_topics :: "string list"
  nk_callback :: bool
  nk_name :: string

definition new_consumer :: "platform \<Rightarrow> new_consumer_params \<Rightarrow> goerr + consumer" where
  "new_consumer pf p =
     chain (checked RuntimeError (register_with_validator pf)) (\<lambda>_.
     if \<not> (nk_redis p \<and> nk_topics p \<noteq> [] \<and> list_all (\<lambda>t. t \<noteq> []) (nk_topics p) \<and> nk_callback p \<and> nk_name p \<noteq> [])
     then bad_input
     else
       chain (checked NotifyConsumerError (pf_subscribe pf (nk_name p) (nk_topics p))) (\<lambda>_.
       Inr \<lparr>cn_name = nk_name p, cn_topics = nk_topics p\<rparr>))"

definition new_producer :: "platform \<Rightarrow> bool \<Rightarrow> producer_config \<Rightarrow> bool \<Rightarrow> goerr + producer_config" where
  "new_producer pf persistence c redis =
     chain (checked RuntimeError (register_with_validator pf)) (\<lambda>_.
     if \<not> (persistence \<and> producer_config_valid c \<and> redis) then bad_input
     else chain (checked NotifyProducerError (pf_timer pf)) (\<lambda>_. Inr c))"

section \<open>The workflow engine\<close>

record new_workflow_scheduler_params =
  nw_persistence :: bool
  nw_client :: "task_client option"
  nw_config :: workflow_scheduler_config
  nw_redis :: bool
  nw_receivers :: "queue_factory option"
  nw_senders :: "queue_factory option"
  nw_consumers :: "(new_consumer_params \<Rightarrow> goerr + consumer) option"

definition new_workflow_scheduler ::
  "platform \<Rightarrow> new_workflow_scheduler_params \<Rightarrow> goerr + wf_sched \<times> consumer"
where
  "new_workflow_scheduler pf p =
     chain (checked RuntimeError (register_with_validator pf)) (\<lambda>_.
     case (nw_client p, nw_receivers p, nw_senders p, nw_consumers p) of
       (Some client, Some rf, Some sf, Some cf) \<Rightarrow>
         if \<not> (nw_persistence p \<and> workflow_scheduler_config_valid (nw_config p) \<and> nw_redis p) then bad_input
         else
           let q = wcf_queue (nw_config p) in
           chain (checked WorkflowSchedulerError (pf_timer pf)) (\<lambda>_.
           chain (checked WorkflowSchedulerError (rf q ws_name)) (\<lambda>_.
           chain (checked WorkflowSchedulerError (sf q ws_name)) (\<lambda>_.
           chain (labelled WorkflowSchedulerError
             (cf \<lparr>nk_redis = nw_redis p, nk_topics = workflow_topics, nk_callback = True,
               nk_name = ws_name @ ''-notify''\<rparr>)) (\<lambda>consumer.
           Inr (\<lparr>ws_queue = q, ws_client = client\<rparr>, consumer)))))
     | _ \<Rightarrow> bad_input)"

record new_workflow_client_params =
  nv_name :: string
  nv_creator :: string
  nv_persistence :: bool
  nv_queue :: string
  nv_redis :: bool
  nv_senders :: "queue_factory option"
  nv_known :: "(string \<times> bool) list"

definition new_workflow_client :: "platform \<Rightarrow> new_workflow_client_params \<Rightarrow> goerr + wf_client" where
  "new_workflow_client pf p =
     chain (checked RuntimeError (register_with_validator pf)) (\<lambda>_.
     case nv_senders p of
       None \<Rightarrow> bad_input
     | Some sf \<Rightarrow>
         if \<not> (nv_name p \<noteq> [] \<and> nv_persistence p \<and> nv_queue p \<noteq> [] \<and> nv_redis p \<and> nv_known p \<noteq> []) then bad_input
         else
           chain (checked WorkflowClientError (sf (nv_queue p) (nv_name p))) (\<lambda>_.
           Inr \<lparr>wc_queue = nv_queue p, wc_name = nv_name p, wc_creator = nv_creator p,
             wc_known = (\<lambda>t. t \<in> fst ` set (nv_known p))\<rparr>))"

definition new_step_runner ::
  "platform \<Rightarrow> bool \<Rightarrow> (string \<times> (workflow_row \<Rightarrow> step_row \<Rightarrow> (world, unit) m) option) list \<Rightarrow> goerr + step_handlers"
where
  "new_step_runner pf persistence handlers =
     (if \<not> persistence then Inl (leaf BadInputError)
      else
        chain (copy_owned handlers (\<lambda>_. None)) (\<lambda>owned.
        chain (checked RuntimeError (register_with_validator pf)) (\<lambda>_. Inr owned)))"

section \<open>What the constructors establish\<close>

lemma copy_owned_result:
  "copy_owned ps m = Inr m' \<Longrightarrow> distinct (map fst ps) \<Longrightarrow>
    (\<forall>x \<in> set ps. snd x \<noteq> None) \<and> m' = (\<lambda>k. case map_of ps k of None \<Rightarrow> m k | Some v \<Rightarrow> v)"
proof (induction ps m rule: copy_owned.induct)
  case (3 k v rest owned)
  then have none: "map_of rest k = None" by (simp add: map_of_eq_None_iff)
  have "m' = (\<lambda>x. case map_of rest x of None \<Rightarrow> (owned(k \<mapsto> v)) x | Some y \<Rightarrow> y)" and all: "\<forall>x \<in> set rest. snd x \<noteq> None"
    using 3 by (simp_all del: fun_upd_apply)
  then have "m' = (\<lambda>x. case map_of ((k, Some v) # rest) x of None \<Rightarrow> owned x | Some y \<Rightarrow> y)"
    using none by (auto simp: fun_eq_iff split: option.split)
  then show ?case using all by simp
qed simp_all

lemma define_queue_receiver_Inr:
  "define_queue_receiver rf n q acc = Inr rs \<longleftrightarrow> rf (qc_name q) n = None \<and> rs = List.insert (qc_name q) acc"
  by (auto simp: define_queue_receiver_def)

lemma define_task_sender_Inr:
  "define_task_sender sf x m = Inr m' \<longleftrightarrow> sf (qm_queue x) ts_name = None \<and> m' = m(qm_task x \<mapsto> qm_queue x)"
  by (auto simp: define_task_sender_def)

lemma define_queue_executor_Inr:
  "define_queue_executor (new_executor pf) sp ps q m = Inr m' \<Longrightarrow>
    \<exists>ex. copy_owned (case map_of ps (qc_name q) of None \<Rightarrow> [] | Some x \<Rightarrow> x) (\<lambda>_. None) = Inr (ex_processors ex) \<and>
      m' = m(qc_name q \<mapsto> ex)"
  by (auto simp: define_queue_executor_def new_executor_def split: if_splits) force

lemma queue_receivers_result:
  "fold_err (define_queue_receiver rf n) qs acc = Inr rs \<Longrightarrow> distinct acc \<Longrightarrow>
    distinct rs \<and> set rs = set acc \<union> qc_name ` set qs"
proof (induction qs arbitrary: acc)
  case (Cons q qs)
  then have "fold_err (define_queue_receiver rf n) qs (List.insert (qc_name q) acc) = Inr rs"
    by (auto simp: define_queue_receiver_Inr)
  from Cons.IH [OF this] Cons.prems(2) show ?case by auto
qed simp

text \<open>The processors of a name in the maps handed to the constructor.\<close>

definition given_processor ::
  "(string \<times> (string \<times> processor option) list) list \<Rightarrow> string \<Rightarrow> string \<Rightarrow> processor option"
where
  "given_processor ps q n =
     (case map_of ps q of None \<Rightarrow> None | Some m \<Rightarrow> (case map_of m n of None \<Rightarrow> None | Some v \<Rightarrow> v))"

lemma queue_executors_result:
  assumes "fold_err (define_queue_executor (new_executor pf) sp ps) qs m = Inr m'"
    and "\<forall>x \<in> set ps. distinct (map fst (snd x))"
    and "\<forall>q ex. m q = Some ex \<longrightarrow> ex_processors ex = given_processor ps q"
  shows "dom m' = dom m \<union> qc_name ` set qs \<and> (\<forall>q ex. m' q = Some ex \<longrightarrow> ex_processors ex = given_processor ps q)"
  using assms(1,3)
proof (induction qs arbitrary: m)
  case (Cons q qs)
  let ?given = "case map_of ps (qc_name q) of None \<Rightarrow> [] | Some x \<Rightarrow> x"
  obtain ex where ex: "copy_owned ?given (\<lambda>_. None) = Inr (ex_processors ex)"
    and rest: "fold_err (define_queue_executor (new_executor pf) sp ps) qs (m(qc_name q \<mapsto> ex)) = Inr m'"
    using Cons.prems(1) by (auto dest!: define_queue_executor_Inr)
  have "distinct (map fst ?given)"
    using assms(2) by (auto split: option.split dest!: map_of_SomeD)
  from copy_owned_result [OF ex this] have "ex_processors ex = given_processor ps (qc_name q)"
    by (auto simp: given_processor_def fun_eq_iff split: option.splits)
  with Cons.prems(2) have "\<forall>q' ex'. (m(qc_name q \<mapsto> ex)) q' = Some ex' \<longrightarrow> ex_processors ex' = given_processor ps q'"
    by simp
  from Cons.IH [OF rest this] show ?case by auto
qed simp

lemma start_receiver_result:
  assumes "set qs \<subseteq> dom (rp_executors r)"
  shows "fold_err (\<lambda>q threads. case rp_executors r q of
         None \<Rightarrow> Inl (leaf ConsistencyError)
       | Some ex \<Rightarrow> Inr (threads @ [(q, queue_view r ex)])) qs acc =
    Inr (acc @ map (\<lambda>q. (q, queue_view r (the (rp_executors r q)))) qs)"
  using assms by (induction qs arbitrary: acc) (auto simp: chain_def)

lemma new_receiver_parts:
  assumes "new_receiver pf p = Inr r" "nr_executors p = Some (new_executor pf)" "nr_processors p = Some ps"
    and "\<forall>x \<in> set ps. distinct (map fst (snd x))"
  shows "rp_config r = nr_config p \<and> fst ` set ps \<subseteq> qc_name ` set (rcf_queues (nr_config p)) \<and>
    distinct (rp_receivers r) \<and> set (rp_receivers r) = qc_name ` set (rcf_queues (nr_config p)) \<and>
    dom (rp_executors r) = qc_name ` set (rcf_queues (nr_config p)) \<and>
    (\<forall>q ex. rp_executors r q = Some ex \<longrightarrow> ex_processors ex = given_processor ps q)"
proof -
  obtain rf where queues: "fold_err (define_queue_receiver rf (rcf_name (nr_config p))) (rcf_queues (nr_config p)) [] =
      Inr (rp_receivers r)"
    and known: "\<forall>x \<in> set ps. \<not> (case x of (q, _) \<Rightarrow> q \<notin> qc_name ` set (rcf_queues (nr_config p)))"
    and execs: "fold_err (define_queue_executor (new_executor pf) (nr_support p) ps) (rcf_queues (nr_config p)) (\<lambda>_. None) =
      Inr (rp_executors r)"
    and "rp_config r = nr_config p"
    using assms(1-3)
    by (auto simp: new_receiver_def Let_def split: option.splits if_splits)
  then have "fst ` set ps \<subseteq> qc_name ` set (rcf_queues (nr_config p))" by fastforce
  then show ?thesis
    using \<open>rp_config r = nr_config p\<close> queue_receivers_result [OF queues] queue_executors_result [OF execs assms(4)] by simp
qed

lemma view_processors:
  assumes "dom (rp_executors r) = Q" "\<forall>q ex. rp_executors r q = Some ex \<longrightarrow> ex_processors ex = given_processor ps q" "q \<in> Q"
  shows "rc_processors (queue_view r (the (rp_executors r q))) = given_processor ps q"
proof -
  obtain ex where "rp_executors r q = Some ex" using assms(1,3) by (metis domD)
  then show ?thesis using assms(2) by (simp add: queue_view_def)
qed

text \<open>A receiver that was constructed always starts: it reads each configured queue in one thread,
  with exactly the processors that were handed over for this queue, and processors for a queue that
  is not configured are refused.\<close>

theorem new_receiver_serves_queues:
  assumes "new_receiver pf p = Inr r" "nr_executors p = Some (new_executor pf)" "nr_processors p = Some ps"
    and "\<forall>x \<in> set ps. distinct (map fst (snd x))"
  shows "\<exists>threads. start_receiver r = Inr threads \<and> distinct (map fst threads) \<and>
    fst ` set threads = qc_name ` set (rcf_queues (nr_config p)) \<and>
    fst ` set ps \<subseteq> qc_name ` set (rcf_queues (nr_config p)) \<and>
    (\<forall>(q, c) \<in> set threads. rc_processors c = given_processor ps q)"
proof -
  note parts = new_receiver_parts [OF assms]
  let ?threads = "map (\<lambda>q. (q, queue_view r (the (rp_executors r q)))) (rp_receivers r)"
  have "start_receiver r = Inr ?threads"
    using start_receiver_result [of "rp_receivers r" r "[]"] parts by (simp add: start_receiver_def)
  moreover have "rc_processors (queue_view r (the (rp_executors r q))) = given_processor ps q" if "q \<in> set (rp_receivers r)" for q
    by (rule view_processors [of _ "set (rp_receivers r)"]) (use that parts in simp_all)
  ultimately show ?thesis
    using parts by (intro exI [of _ ?threads]) (auto simp: comp_def image_image)
qed

lemma task_senders_result:
  "fold_err (define_task_sender sf) ms m = Inr m' \<Longrightarrow>
    m' = m ++ map_of (rev (map (\<lambda>x. (qm_task x, qm_queue x)) ms))"
proof (induction ms arbitrary: m)
  case (Cons x ms)
  then have "fold_err (define_task_sender sf) ms (m(qm_task x \<mapsto> qm_queue x)) = Inr m'"
    by (auto simp: define_task_sender_Inr)
  from Cons.IH [OF this] show ?case by (simp add: map_add_def fun_eq_iff split: option.split)
qed simp

text \<open>C19. A deployment whose scheduler maps a task name onto a queue of a receiver that holds a processor
  for the name there: the scheduler has a sender for every task of this name, and sends its instances
  to that queue, and the thread of the queue runs them with that processor, so they never end in an
  engine failure for a missing processor.\<close>

theorem deployment_routes_tasks:
  assumes "new_task_scheduler pf b sp = Inr s" "new_receiver pf p = Inr r"
    and "nr_executors p = Some (new_executor pf)" "nr_processors p = Some ps" "\<forall>x \<in> set ps. distinct (map fst (snd x))"
    and "map_of (rev (map (\<lambda>x. (qm_task x, qm_queue x)) (scf_mappings (ns_config sp)))) n = Some q"
    and "given_processor ps q n = Some h" "t_name t = n"
  shows "request_execution s t i stamp =
      bnd stamp (\<lambda>at_time.
      wrap IPCMessageQueueError (send_new q (\<lambda>u. prepare_execution_requested u ts_name i at_time))) \<and>
    (\<exists>threads c. start_receiver r = Inr threads \<and> (q, c) \<in> set threads \<and>
       run_processor c e t = wrap TaskExecutionError (h t e))"
proof -
  have "ts_task_queue s n = Some q"
    using assms(1,6) by (auto simp: new_task_scheduler_def Let_def split: option.splits if_splits dest!: task_senders_result)
  moreover have q: "q \<in> fst ` set ps"
    using assms(7) by (auto simp: given_processor_def rev_image_eqI split: option.splits dest!: map_of_SomeD)
  note parts = new_receiver_parts [OF assms(2-5)]
  let ?c = "\<lambda>q. queue_view r (the (rp_executors r q))"
  have "start_receiver r = Inr (map (\<lambda>q. (q, ?c q)) (rp_receivers r))"
    using start_receiver_result [of "rp_receivers r" r "[]"] parts by (simp add: start_receiver_def)
  moreover have here: "q \<in> set (rp_receivers r)" using parts q by auto
  moreover have "rc_processors (?c q) = given_processor ps q"
    by (rule view_processors [of _ "set (rp_receivers r)"]) (use here parts in simp_all)
  ultimately show ?thesis
    using assms(7,8) by (auto simp: request_execution_def run_processor_def)
qed

lemma named_retries_valid:
  "fold (\<lambda>s by_name. by_name(pt_task s \<mapsto> pt_retry s)) xs m n = Some r \<Longrightarrow>
    \<forall>x \<in> set xs. retry_setting_valid (pt_retry x) \<Longrightarrow> \<forall>n r. m n = Some r \<longrightarrow> retry_setting_valid r \<Longrightarrow>
    retry_setting_valid r"
proof (induction xs arbitrary: m)
  case (Cons x xs)
  show ?case by (rule Cons.IH [of "m(pt_task x \<mapsto> pt_retry x)"]) (use Cons.prems in auto)
qed simp

text \<open>C32. Whatever retry policy a constructed client resolves for a task it accepts, its own of the
  submission, that of the name or the default, is valid.\<close>

theorem constructed_client_retries_valid:
  assumes "new_task_client pf p = Inr c" "define_params_valid d"
  shows "valid_retry (nt_retry (client_task c d))"
proof (cases "dp_retry d")
  case (Some r)
  then show ?thesis using assms(2) by (simp add: client_task_def resolve_retry_def define_params_valid_def)
next
  case None
  have "tc_retry c = fold (\<lambda>s by_name. by_name(pt_task s \<mapsto> pt_retry s)) (ccf_retries (nc_config p)) (\<lambda>_. None)"
    and "task_client_config_valid (nc_config p)"
    using assms(1) by (auto simp: new_task_client_def split: option.splits if_splits)
  then have "retry_setting_valid r" if "tc_retry c (dp_name d) = Some r" for r
    using named_retries_valid [of "ccf_retries (nc_config p)" "\<lambda>_. None" "dp_name d" r] that
    by (auto simp: task_client_config_valid_def per_task_retry_valid_def list_all_iff)
  then show ?thesis
    using None by (auto simp: client_task_def resolve_retry_def retry_setting_valid_def valid_retry_def
        default_retry_def split: option.split)
qed

text \<open>The feedback subscription of a constructed workflow scheduler is the channel of its tasks.\<close>

lemma new_workflow_scheduler_subscribes:
  "new_workflow_scheduler pf p = Inr (s, k) \<Longrightarrow> nw_consumers p = Some (new_consumer pf) \<Longrightarrow>
    cn_topics k = workflow_topics \<and> ws_queue s = wcf_queue (nw_config p)"
  by (auto simp: new_workflow_scheduler_def new_consumer_def Let_def split: option.splits if_splits)

text \<open>
  A configured queue without an entry in the processor map is not refused: it is served without any
  processor.
\<close>

lemma queue_without_entry:
  assumes "new_receiver pf p = Inr r" "nr_executors p = Some (new_executor pf)" "nr_processors p = Some ps"
    and "\<forall>x \<in> set ps. distinct (map fst (snd x))" "q \<in> qc_name ` set (rcf_queues (nr_config p))" "q \<notin> fst ` set ps"
  shows "\<exists>ex. rp_executors r q = Some ex \<and> ex_processors ex = (\<lambda>_. None)"
proof -
  note parts = new_receiver_parts [OF assms(1-4)]
  obtain ex where ex: "rp_executors r q = Some ex" using parts assms(5) by (metis domD)
  have "map_of ps q = None" using assms(6) by (simp add: map_of_eq_None_iff)
  then show ?thesis using ex parts by (auto simp: given_processor_def fun_eq_iff)
qed

section \<open>A deployment\<close>

definition working_platform :: platform where
  "working_platform = \<lparr>pf_enum = (\<lambda>_. None), pf_timer = None, pf_pool = (\<lambda>_ _. None), pf_register = None,
     pf_spawn = (\<lambda>_. None), pf_subscribe = (\<lambda>_ _. None)\<rparr>"

definition sample_processors :: "(string \<times> (string \<times> processor option) list) list" where
  "sample_processors = [(''work'', [(''build'', Some (\<lambda>_ _. ret ()))])]"

definition sample_receiver_params :: new_receiver_params where
  "sample_receiver_params = \<lparr>nr_support = \<lparr>es_persistence = True, es_callback = True\<rparr>,
     nr_config = \<lparr>rcf_name = ''worker'', rcf_queues = [\<lparr>qc_name = ''work'', qc_workers = 2, qc_buffer = 4\<rparr>],
       rcf_scheduler_queue = ''tasks''\<rparr>,
     nr_executors = Some (new_executor working_platform), nr_processors = Some sample_processors,
     nr_redis = True, nr_receivers = Some (\<lambda>_ _. None), nr_senders = Some (\<lambda>_ _. None)\<rparr>"

definition sample_scheduler_params :: new_scheduler_params where
  "sample_scheduler_params = \<lparr>ns_persistence = True,
     ns_config = \<lparr>scf_timer_secs = 30, scf_queue = ''tasks'',
       scf_mappings = [\<lparr>qm_task = ''build'', qm_queue = ''work''\<rparr>]\<rparr>,
     ns_redis = True, ns_receivers = Some (\<lambda>_ _. None), ns_senders = Some (\<lambda>_ _. None)\<rparr>"

definition sample_client_params :: new_client_params where
  "sample_client_params = \<lparr>nc_name = ''me'', nc_creator = ''me'', nc_persistence = True,
     nc_config = \<lparr>ccf_queue = ''tasks'', ccf_retries =
       [\<lparr>pt_task = ''build'', pt_retry = \<lparr>rs_initial = 3, rs_retries = -1, rs_max = None\<rparr>\<rparr>]\<rparr>,
     nc_redis = True, nc_senders = Some (\<lambda>_ _. None)\<rparr>"

lemmas sample_setup_defs = working_platform_def sample_processors_def sample_receiver_params_def
  sample_scheduler_params_def sample_client_params_def

lemma sample_constructed:
  "\<not> isl (new_receiver working_platform sample_receiver_params)"
  "\<not> isl (new_task_scheduler working_platform exact_backoff sample_scheduler_params)"
  "\<not> isl (new_task_client working_platform sample_client_params)"
  by code_simp+

lemma constructed: "\<not> isl x \<Longrightarrow> \<exists>a. x = Inr a"
  by (cases x) auto

theorem new_receiver_serves_queues_witness:
  "\<exists>r threads. new_receiver working_platform sample_receiver_params = Inr r \<and> start_receiver r = Inr threads \<and>
    fst ` set threads = {''work''}"
proof -
  obtain r where r: "new_receiver working_platform sample_receiver_params = Inr r"
    using constructed [OF sample_constructed(1)] by blast
  show ?thesis
    using new_receiver_serves_queues [OF r, of sample_processors] r
    by (auto simp: sample_receiver_params_def sample_processors_def)
qed

theorem deployment_routes_tasks_witness:
  "\<exists>r threads c. new_receiver working_platform sample_receiver_params = Inr r \<and> start_receiver r = Inr threads \<and>
    (''work'', c) \<in> set threads \<and>
    run_processor c (sample_exec ''e'' ExecProcessing None) ((sample_task TaskActive)\<lparr>t_name := ''build''\<rparr>) = wrap TaskExecutionError (ret ())"
proof -
  obtain r s where r: "new_receiver working_platform sample_receiver_params = Inr r"
    and s: "new_task_scheduler working_platform exact_backoff sample_scheduler_params = Inr s"
    using constructed [OF sample_constructed(1)] constructed [OF sample_constructed(2)] by blast
  show ?thesis
    using deployment_routes_tasks [OF s r, of sample_processors "''build''" "''work''" "\<lambda>_ _. ret ()"
        "(sample_task TaskActive)\<lparr>t_name := ''build''\<rparr>" "''e''" time_now "sample_exec ''e'' ExecProcessing None"] r
    by (auto simp: sample_receiver_params_def sample_scheduler_params_def sample_processors_def given_processor_def)
qed

theorem constructed_client_retries_valid_witness:
  "\<exists>c. new_task_client working_platform sample_client_params = Inr c \<and> valid_retry (nt_retry (client_task c
    \<lparr>dp_name = ''build'', dp_params = None, dp_meta = None, dp_creator = None, dp_deadline = None, dp_retry = None\<rparr>))"
proof -
  obtain c where c: "new_task_client working_platform sample_client_params = Inr c"
    using constructed [OF sample_constructed(3)] by blast
  then show ?thesis
    using constructed_client_retries_valid [OF c] by (auto simp: define_params_valid_def payload_valid_def)
qed

end
