(* ===== verification/Spec2Isabelle.thy ===== *)
theory Spec2Isabelle
  imports Example_Run Task_Liveness Message_Queue Setup
begin

text \<open>
  A verification development for \<open>tasking\<close>, a Go engine that runs tasks and workflows of tasks on
  top of an SQL database and a message queue. Paths below are relative to \<open>src/\<close>.

  \<^bold>\<open>The program.\<close> A client defines a task (\<open>task/client.go\<close>) and sends its ID to the task scheduler
  (\<open>task/scheduler*.go\<close>). The scheduler creates an execution instance, hands it to a class of
  workers (\<open>task/receiver.go\<close>, \<open>task/executor.go\<close>) through a queue, and learns the outcome by
  another message: it then completes the task, retries with exponential back-off, or fails the task. A
  workflow is a set of named steps with parents; the workflow scheduler (\<open>workflow/scheduler*.go\<close>) runs every
  step whose parents are complete as a task of its own, follows these tasks by notifications, and
  drives the workflow to COMPLETE, FAILED, TIMED_OUT or CANCELLED, or revives it. All state is in seven
  tables (\<open>db/tables.go\<close>) behind \<open>db/task.go\<close>, \<open>db/workflow.go\<close> and \<open>db/audit.go\<close>; every
  handler is one transaction (\<open>db/client.go\<close>). A message is buffered until it has been handled;
  what is found buffered at start-up is recovered. A maintenance sweep per scheduler drives what a
  lost message left behind.
  The audit log is turned into notifications (\<open>notify/producer.go\<close>), and a subscriber
  (\<open>notify/consumer.go\<close>) brings the end of a step's task back to the workflow scheduler.

  \<^bold>\<open>The theories, in the order of the code.\<close>
  \<^item> \<open>Prelude\<close>: results (\<open>goerr + 'a\<close>), the state-and-error monad, the contract of a relation that
    every command keeps (locale \<open>evolution\<close>), lists keyed by an identifier (\<open>keyed_update\<close>,
    \<open>row_evolution\<close>).
  \<^item> \<open>State_Machine\<close>: what the transition tables of \<open>models/\<close> share (locales \<open>state_machine\<close>,
    \<open>ranked_machine\<close>); the breadth-first test of \<open>models/task.go\<close> decides reachability.
  \<^item> \<open>Task_Model\<close>, \<open>Workflow_Model\<close>, \<open>Dag\<close>: \<open>models/task.go\<close>, \<open>models/workflow.go\<close> and the theory of
    Kahn's algorithm that the two checks of a workflow share.
  \<^item> \<open>Json\<close>, \<open>Ipc_Model\<close>, \<open>Audit_Model\<close>, \<open>Notify_Model\<close>: \<open>models/ipc.go\<close>, \<open>models/audit.go\<close>,
    \<open>models/notify.go\<close>: messages, event metadata and notifications as JSON values, their constructors,
    parsers, validation and channel names.
  \<^item> \<open>Message_Queue\<close>: \<open>common/queue.go\<close> over a Redis client that is a parameter, refined to a reliable
    queue.
  \<^item> \<open>Store\<close>: the rows, the tables, the world, single SQL statements, \<open>in_txn\<close> (\<open>UseDatabaseInTransaction\<close>),
    the sends. \<open>Audit_Store\<close>, \<open>Task_Store\<close>, \<open>Workflow_Store\<close>: one definition per function of \<open>db/\<close>.
  \<^item> \<open>Task_Client\<close>, \<open>Task_Scheduler\<close>, \<open>Workflow_Scheduler\<close>, \<open>Workflow_Client\<close>: one definition per
    handler, sweep, dispatch and recovery function of \<open>task/\<close> and \<open>workflow/\<close>; \<open>Workflow_Client\<close> also
    holds \<open>workflow/step_runner.go\<close>.
  \<^item> \<open>Task_Worker\<close>: \<open>task/executor.go\<close> and \<open>task/receiver.go\<close>; \<open>Notifications\<close>: \<open>notify/\<close>; \<open>Setup\<close>:
    \<open>models/config.go\<close>, \<open>models/validate.go\<close> and the constructors of all components.
  \<^item> \<open>Task_Evolution\<close>, \<open>Task_Outcomes\<close>, \<open>Task_Handlers\<close>, \<open>Workflow_Evolution\<close>, \<open>Workflow_Outcomes\<close>: the
    lifecycle relation and that every command keeps it. \<open>Task_Consistency\<close>, \<open>Workflow_Consistency\<close>,
    \<open>System\<close>: the invariants of the tables, the steps of the whole system and its reachable states.
  \<^item> \<open>Task_Results\<close>, \<open>Worker_Results\<close>, \<open>Task_Liveness\<close>, \<open>Workflow_Steps\<close>, \<open>Workflow_Definition\<close>,
    \<open>Workflow_Results\<close>, \<open>Step_Results\<close>: what the operations achieve; \<open>Duplicates\<close>: that they do it once.
    \<open>Example_Run\<close>: concrete runs of the engine.

  \<^bold>\<open>Correspondence.\<close> A definition has the name of the Go function in snake case. A Go method that
  returns \<open>(T, error)\<close> is a command \<open>world \<Rightarrow> (goerr + T) \<times> world\<close>; an early return of an error is
  \<open>throw\<close>, a wrapped error \<open>wrap\<close>, and the error kinds of \<open>models/errors.go\<close> are the chain in a
  \<open>goerr\<close>. A constructor, which touches no table, is a plain result. A table is a list of rows in the
  order of insertion. Enumerations are datatypes, so the validation of an enumeration value is part of
  the type. Durations are 64-bit: the products of seconds wrap around (\<open>wrap64\<close>).

  \<^bold>\<open>Faults.\<close> The world carries a script of faults for statements, begins, commits and sends. A
  property that holds for every world holds for every placement of faults; a failed commit is a rollback.
  \<open>history\<close> logs begins, commits, rollbacks, sends, deletes and publications in their order.

  \<^bold>\<open>Assumptions.\<close> The database runs a transaction alone (the code opens each one on a single
  connection and takes no locks, so interleaved transactions are as strong as the database's
  isolation); \<open>ulid.Make\<close> never returns an ID twice where a property needs it, which is then its
  hypothesis; the clock is an arbitrary function of the number of calls. In a system step the
  processors of the application do not write the engine's tables. Of Redis only \<open>redis_laws\<close> is used,
  which \<open>list_redis\<close> is shown to meet; of gorm, that \<open>Transaction\<close> rolls back when its body or the
  commit fails and commits otherwise (\<open>in_txn\<close> is written that way); of \<open>float64\<close>, that the back-off
  does not shrink a delay (\<open>growing\<close>). Strings are ASCII where case matters: \<open>encoding/json\<close> matches
  keys up to case, and the last of several entries of a field wins.

  \<^bold>\<open>What the lemmas show.\<close> Safety: \<open>task_scheduler_evolves\<close> and \<open>workflow_scheduler_evolves\<close> follow
  every row through any run of a scheduler, and \<open>System\<close> shows that clients, schedulers, workers,
  producer and notifications together keep the invariants of the tables: one open instance per task,
  one live task per step, no step before its parents, no ended workflow with a live step, retries
  within their budget. Results: the outcome of each handler on success, from the definition of a
  workflow to its cancellation; a pending task completes when nothing fails; an instance is claimed
  once; a message leaves the queues only when it is deleted or read back at start-up
  (\<open>undeleted_message_survives\<close>), and that read can lose it (\<open>recovery_loses_message\<close>); a deployment that is configured consistently routes
  each task to its processor. A duplicate of a NEW_TASK message or of the end of an
  instance neither writes nor sends, however the whole system ran in between (\<open>Duplicates\<close>). The two DAG checks
  accept exactly the DAGs, and the listing is a topological order. The parsers invert the printers. Some theorems
  record where the code cannot make progress: a completion without an active task, a timeout too
  early, an overdue workflow that is not running, late feedback of an earlier attempt of a step, a
  running step whose task is cancelled alone, a batch of events that cannot be routed, a retry delay
  that overflows.

  \<^bold>\<open>Termination.\<close> Every definition is a total function. The worklists of Kahn's algorithm and of the
  breadth-first search are recursive functions with a measure: the queue and what was not visited yet.
  The life of an instance has at most six transitions (\<open>exec_lifecycle_ends\<close>). The endless loops of the
  schedulers and workers are functions of the list of messages they receive.

  \<^bold>\<open>Not modelled.\<close> Goroutines, contexts, \<open>Stop\<close> and the timers themselves (their ticks are the steps);
  the text of errors and logs; opening the database connection and the column codecs of gorm; the
  generated mocks, the test interfaces and the migration tool.
\<close>

end
